(* ===== verification/Prelude.thy ===== *)
theory Prelude
  imports Main "HOL-Library.Word" "HOL-Library.List_Lexorder" "HOL-Library.Sublist"
begin

text \<open>
  Shared vocabulary of the development: the machine integer types of the Rust
  sources, the result type with its early return (the question-mark operator),
  the checked operations of the Rust standard library that the codec uses, and
  Rust's \<open>char\<close> and \<open>String\<close> as sequences of Unicode scalar values with their
  UTF-8 byte form.  The \<open>named_theorems\<close> collections of the library are declared
  here.
\<close>

unbundle bit_operations_syntax

section \<open>Collections\<close>

named_theorems result_simps
  \<open>when a computation with early returns succeeds, and what it returns\<close>

section \<open>Machine integers\<close>

type_synonym u8 = "8 word"
type_synonym u16 = "16 word"
type_synonym u32 = "32 word"
type_synonym u64 = "64 word"
type_synonym bytes = "u8 list"

text \<open>Signed integers are the same words, read with \<open>sint\<close>.\<close>

type_synonym i8 = "8 word"
type_synonym i16 = "16 word"
type_synonym i32 = "32 word"
type_synonym i64 = "64 word"

text \<open>\<open>u64::checked_shl\<close>: \<open>None\<close> only when the shift amount reaches the width.\<close>

definition checked_shl :: "u64 \<Rightarrow> nat \<Rightarrow> u64 option" where
  "checked_shl x s = (if s < 64 then Some (push_bit s x) else None)"

text \<open>\<open>u64::checked_add\<close>: \<open>None\<close> on overflow.\<close>

definition checked_add :: "u64 \<Rightarrow> u64 \<Rightarrow> u64 option" where
  "checked_add x y = (if unat x + unat y < 2 ^ 64 then Some (x + y) else None)"

text \<open>\<open>u16::try_from\<close>, \<open>u32::try_from\<close> and \<open>i64::try_from\<close> on a \<open>u64\<close>.\<close>

definition u16_try_from :: "u64 \<Rightarrow> u16 option" where
  "u16_try_from n = (if unat n < 2 ^ 16 then Some (ucast n) else None)"

definition u32_try_from :: "u64 \<Rightarrow> u32 option" where
  "u32_try_from n = (if unat n < 2 ^ 32 then Some (ucast n) else None)"

definition i64_try_from :: "u64 \<Rightarrow> i64 option" where
  "i64_try_from n = (if unat n < 2 ^ 63 then Some n else None)"

section \<open>Results\<close>

text \<open>
  \<open>Result<T, E>\<close> is \<open>'e + 'a\<close>, with \<open>Inl\<close> the error.  \<open>and_then\<close> is the
  question-mark operator: an error returns at once.
\<close>

definition and_then :: "'e + 'a \<Rightarrow> ('a \<Rightarrow> 'e + 'b) \<Rightarrow> 'e + 'b" where
  "and_then r f = (case r of Inl e \<Rightarrow> Inl e | Inr x \<Rightarrow> f x)"

lemma and_then_simps [simp]:
  "and_then (Inl e) f = Inl e"
  "and_then (Inr x) f = f x"
  by (simp_all add: and_then_def)

lemma and_then_eq_Inr [result_simps]: "and_then r f = Inr y \<longleftrightarrow> (\<exists>x. r = Inr x \<and> f x = Inr y)"
  by (cases r) auto

lemma and_then_eq_Inl:
  "and_then r f = Inl e \<longleftrightarrow> r = Inl e \<or> (\<exists>x. r = Inr x \<and> f x = Inl e)"
  by (cases r) auto

lemma and_then_split:
  "P (and_then r f) \<longleftrightarrow> (\<forall>e. r = Inl e \<longrightarrow> P (Inl e)) \<and> (\<forall>x. r = Inr x \<longrightarrow> P (f x))"
  by (cases r) auto

text \<open>\<open>Option::ok_or\<close>.\<close>

definition ok_or :: "'a option \<Rightarrow> 'e \<Rightarrow> 'e + 'a" where
  "ok_or x e = (case x of None \<Rightarrow> Inl e | Some v \<Rightarrow> Inr v)"

lemma ok_or_simps [simp]: "ok_or None e = Inl e" "ok_or (Some v) e = Inr v"
  by (simp_all add: ok_or_def)

lemma ok_or_eq [simp]:
  "ok_or x e = Inr v \<longleftrightarrow> x = Some v"
  "ok_or x e = Inl e' \<longleftrightarrow> x = None \<and> e' = e"
  by (cases x; auto)+

text \<open>\<open>Result::ok\<close>.\<close>

definition ok_of :: "'e + 'a \<Rightarrow> 'a option" where
  "ok_of r = (case r of Inl _ \<Rightarrow> None | Inr x \<Rightarrow> Some x)"

lemma ok_of_simps [simp]: "ok_of (Inl e) = None" "ok_of (Inr x) = Some x"
  by (simp_all add: ok_of_def)

lemma ok_of_eq_Some [simp]: "ok_of r = Some x \<longleftrightarrow> r = Inr x"
  by (cases r) auto

text \<open>\<open>Result::map_err\<close>.\<close>

definition map_err :: "('e \<Rightarrow> 'f) \<Rightarrow> 'e + 'a \<Rightarrow> 'f + 'a" where
  "map_err g r = (case r of Inl e \<Rightarrow> Inl (g e) | Inr x \<Rightarrow> Inr x)"

lemma map_err_simps [result_simps]: "map_err g (Inl e) = Inl (g e)" "map_err g (Inr x) = Inr x"
  by (simp_all add: map_err_def)

lemma map_err_eq_Inr [result_simps]: "map_err g r = Inr x \<longleftrightarrow> r = Inr x"
  by (cases r) (simp_all add: map_err_def)

section \<open>Characters and strings\<close>

text \<open>
  A Rust \<open>char\<close> is a Unicode scalar value: a \<open>u32\<close> up to \<open>0x10FFFF\<close> outside the
  surrogate range.  \<open>char_from_u32\<close> is \<open>char::from_u32\<close>.  A \<open>String\<close> is the list
  of its chars; that every element is a scalar value is the type invariant
  \<open>str_ok\<close>.
\<close>

type_synonym rchar = u32
type_synonym rstr = "rchar list"

definition is_scalar :: "u32 \<Rightarrow> bool" where
  "is_scalar c \<longleftrightarrow> unat c < 0xD800 \<or> (0xE000 \<le> unat c \<and> unat c < 0x110000)"

definition char_from_u32 :: "u32 \<Rightarrow> rchar option" where
  "char_from_u32 c = (if is_scalar c then Some c else None)"

definition str_ok :: "rstr \<Rightarrow> bool" where
  "str_ok s \<longleftrightarrow> list_all is_scalar s \<and> length s < 2 ^ 63"

text \<open>An ASCII literal as a Rust string.\<close>

definition str :: "string \<Rightarrow> rstr" where
  "str s = map (\<lambda>c. word_of_nat (of_char c)) s"

text \<open>The UTF-8 bytes of a char, and \<open>str::as_bytes\<close>.\<close>

definition utf8_char :: "rchar \<Rightarrow> bytes" where
  "utf8_char c =
    (let n = unat c in
     if n < 0x80 then [word_of_nat n]
     else if n < 0x800 then
       [word_of_nat (0xC0 + n div 64), word_of_nat (0x80 + n mod 64)]
     else if n < 0x10000 then
       [word_of_nat (0xE0 + n div 4096), word_of_nat (0x80 + n div 64 mod 64),
        word_of_nat (0x80 + n mod 64)]
     else
       [word_of_nat (0xF0 + n div 262144), word_of_nat (0x80 + n div 4096 mod 64),
        word_of_nat (0x80 + n div 64 mod 64), word_of_nat (0x80 + n mod 64)])"

definition as_bytes :: "rstr \<Rightarrow> bytes" where
  "as_bytes s = concat (map utf8_char s)"

lemma utf8_char_nonempty [simp]: "utf8_char c \<noteq> []"
  by (simp add: utf8_char_def Let_def)

lemma as_bytes_Nil_iff [simp]: "as_bytes s = [] \<longleftrightarrow> s = []"
  by (cases s) (simp_all add: as_bytes_def)

section \<open>Generic facts\<close>

lemma word_of_nat_unat_small:
  "n < 2 ^ 64 \<Longrightarrow> unat (word_of_nat n :: u64) = n"
  by (simp add: unat_of_nat take_bit_nat_eq_self)

lemma ucast_scast_id:
  fixes x :: "'a::len word"
  assumes "LENGTH('a) \<le> LENGTH('b::len)"
  shows "ucast (scast x :: 'b word) = x"
  using assms by (intro bit_eqI) (auto simp: bit_simps)

lemma strict_prefix_append_cases:
  "strict_prefix p (xs @ ys) \<Longrightarrow>
    strict_prefix p xs \<or> (\<exists>q. p = xs @ q \<and> strict_prefix q ys)"
  by (auto simp: strict_prefix_def prefix_append)

end
