(* ===== verification/Text.thy ===== *)
theory Text
  imports Prelude
begin

text \<open>
  The string operations of the Rust standard library that the host's parsers use,
  on UTF-8 text: a \<open>string\<close> here is the sequence of bytes of a Rust \<open>&str\<close>.  All the
  separators are ASCII, and in UTF-8 no ASCII byte occurs inside a longer character, so
  splitting bytes and splitting characters agree.  The theory gives \<open>split\<close> and \<open>join\<close>,
  \<open>rsplit_once\<close>, the ASCII classes, decimal printing and parsing with overflow, and the
  characters of a text as byte chunks, and the UTF-8 validity and repair of byte strings.
\<close>

section \<open>ASCII classes\<close>

definition is_ascii_digit :: "char \<Rightarrow> bool" where
  "is_ascii_digit c \<longleftrightarrow> 48 \<le> (of_char c :: nat) \<and> (of_char c :: nat) \<le> 57"

definition is_ascii_lower :: "char \<Rightarrow> bool" where
  "is_ascii_lower c \<longleftrightarrow> 97 \<le> (of_char c :: nat) \<and> (of_char c :: nat) \<le> 122"

definition is_ascii_upper :: "char \<Rightarrow> bool" where
  "is_ascii_upper c \<longleftrightarrow> 65 \<le> (of_char c :: nat) \<and> (of_char c :: nat) \<le> 90"

definition is_ascii_alnum :: "char \<Rightarrow> bool" where
  "is_ascii_alnum c \<longleftrightarrow> is_ascii_digit c \<or> is_ascii_lower c \<or> is_ascii_upper c"

definition to_ascii_lower :: "char \<Rightarrow> char" where
  "to_ascii_lower c = (if is_ascii_upper c then char_of ((of_char c :: nat) + 32) else c)"

lemmas ascii_defs = is_ascii_digit_def is_ascii_lower_def is_ascii_upper_def is_ascii_alnum_def

section \<open>Splitting and joining\<close>

text \<open>\<open>str::split\<close> on one ASCII character: always at least one piece.\<close>

fun split_on :: "char \<Rightarrow> string \<Rightarrow> string list" where
  "split_on c [] = [[]]"
| "split_on c (x # xs) =
     (if x = c then [] # split_on c xs
      else case split_on c xs of [] \<Rightarrow> [[x]] | w # ws \<Rightarrow> (x # w) # ws)"

text \<open>\<open>[String]::join\<close>.\<close>

fun join :: "string \<Rightarrow> string list \<Rightarrow> string" where
  "join sep [] = []"
| "join sep [w] = w"
| "join sep (w # w' # ws) = w @ sep @ join sep (w' # ws)"

text \<open>\<open>str::rsplit_once\<close>: at the last occurrence.\<close>

fun rsplit_once :: "char \<Rightarrow> string \<Rightarrow> (string \<times> string) option" where
  "rsplit_once c [] = None"
| "rsplit_once c (x # xs) = (case rsplit_once c xs of
       Some (a, b) \<Rightarrow> Some (x # a, b)
     | None \<Rightarrow> if x = c then Some ([], xs) else None)"

lemma split_on_not_Nil [simp]: "split_on c s \<noteq> []"
  by (cases s) (auto split: list.splits)

lemma split_on_plain: "c \<notin> set w \<Longrightarrow> split_on c w = [w]"
  by (induction w) auto

lemma split_on_Cons_sep: "c \<notin> set w \<Longrightarrow> split_on c (w @ c # s) = w # split_on c s"
  by (induction w) auto

lemma split_on_join:
  "ws \<noteq> [] \<Longrightarrow> list_all (\<lambda>w. c \<notin> set w) ws \<Longrightarrow> split_on c (join [c] ws) = ws"
  by (induction "[c]" ws rule: join.induct) (auto simp: split_on_plain split_on_Cons_sep)

lemma join_split_on: "join [c] (split_on c s) = s"
proof (induction s)
  case (Cons x s)
  then show ?case
    by (cases "split_on c s"; cases "tl (split_on c s)") (auto split: list.splits)
qed simp

lemma rsplit_once_plain: "c \<notin> set w \<Longrightarrow> rsplit_once c w = None"
  by (induction w) auto

lemma rsplit_once_last: "c \<notin> set b \<Longrightarrow> rsplit_once c (a @ c # b) = Some (a, b)"
  by (induction a) (auto simp: rsplit_once_plain)

lemma rsplit_once_Some: "rsplit_once c s = Some (a, b) \<Longrightarrow> s = a @ c # b \<and> c \<notin> set b"
proof (induction s arbitrary: a b)
  case (Cons x s)
  show ?case
  proof (cases "rsplit_once c s")
    case None
    have "c \<notin> set s" using None
      by (induction s) (auto split: option.splits if_splits)
    then show ?thesis using Cons.prems None by (auto split: if_splits)
  next
    case (Some ab)
    then show ?thesis using Cons.prems Cons.IH by (cases ab) auto
  qed
qed simp

section \<open>Decimal numbers\<close>

definition digit_char :: "nat \<Rightarrow> char" where
  "digit_char d = char_of (48 + d)"

fun show_nat :: "nat \<Rightarrow> string" where
  "show_nat n = (if n < 10 then [digit_char n] else show_nat (n div 10) @ [digit_char (n mod 10)])"

declare show_nat.simps [simp del]

definition digit_value :: "char \<Rightarrow> nat" where
  "digit_value c = of_char c - 48"

definition digits_value :: "string \<Rightarrow> nat" where
  "digits_value s = foldl (\<lambda>n c. 10 * n + digit_value c) 0 s"

text \<open>
  \<open>str::parse\<close> for a 64-bit unsigned integer: an optional plus sign, then at least one
  digit, and no overflow.
\<close>

definition parse_u64 :: "string \<Rightarrow> nat option" where
  "parse_u64 s =
    (let ds = (case s of c # cs \<Rightarrow> if c = CHR ''+'' then cs else s | [] \<Rightarrow> []) in
     if ds = [] \<or> \<not> list_all is_ascii_digit ds then None
     else if digits_value ds < 2 ^ 64 then Some (digits_value ds) else None)"

lemma digit_char:
  assumes "d < 10"
  shows "is_ascii_digit (digit_char d)" "digit_value (digit_char d) = d"
  using assms by (simp_all add: is_ascii_digit_def digit_value_def digit_char_def)

lemma digits_value_snoc: "digits_value (s @ [c]) = 10 * digits_value s + digit_value c"
  by (simp add: digits_value_def)

lemma show_nat_digits: "list_all is_ascii_digit (show_nat n) \<and> digits_value (show_nat n) = n"
proof (induction n rule: show_nat.induct)
  case (1 n)
  then show ?case
    by (subst (1 2) show_nat.simps)
      (auto simp: digit_char digits_value_snoc, simp add: digits_value_def digit_char)
qed

lemma show_nat_not_Nil [simp]: "show_nat n \<noteq> []"
  by (subst show_nat.simps) simp

lemma show_nat_no_plus: "hd (show_nat n) \<noteq> CHR ''+''"
proof -
  have "is_ascii_digit (hd (show_nat n))"
    using show_nat_digits [of n] by (cases "show_nat n") auto
  then show ?thesis by (auto simp: is_ascii_digit_def)
qed

lemma parse_show_nat: "n < 2 ^ 64 \<Longrightarrow> parse_u64 (show_nat n) = Some n"
  using show_nat_digits [of n] show_nat_no_plus [of n]
  by (cases "show_nat n") (auto simp: parse_u64_def Let_def)

lemma show_nat_no_sep: "\<not> is_ascii_digit c \<Longrightarrow> c \<notin> set (show_nat n)"
  using show_nat_digits [of n] by (auto simp: list_all_iff)

section \<open>Characters\<close>

text \<open>The characters of a text as byte chunks: a lead byte and its continuation bytes.\<close>

definition is_continuation :: "char \<Rightarrow> bool" where
  "is_continuation c \<longleftrightarrow> 128 \<le> (of_char c :: nat) \<and> (of_char c :: nat) < 192"

function chars :: "string \<Rightarrow> string list" where
  "chars [] = []"
| "chars (x # xs) = (x # takeWhile is_continuation xs) # chars (dropWhile is_continuation xs)"
  by pat_completeness auto
termination
  by (relation "measure length") (auto simp: le_imp_less_Suc length_dropWhile_le)

lemma concat_chars: "concat (chars s) = s"
  by (induction s rule: chars.induct) auto

lemma chars_ascii: "list_all (\<lambda>c. (of_char c :: nat) < 128) s \<Longrightarrow> chars s = map (\<lambda>c. [c]) s"
proof (induction s)
  case (Cons x s)
  then have "takeWhile is_continuation s = []" "dropWhile is_continuation s = s"
    by (cases s; simp add: is_continuation_def)+
  with Cons show ?case by simp
qed simp

section \<open>UTF-8\<close>

abbreviation code_of :: "char \<Rightarrow> nat" where "code_of c \<equiv> of_char c"

text \<open>
  The sequence at the front of a nonempty byte string: how many bytes it takes, and
  whether they are a character.  A malformed sequence is its longest well-formed part.
\<close>

definition second_ok :: "nat \<Rightarrow> nat \<Rightarrow> bool" where
  "second_ok lead b =
     (if lead = 0xE0 then 0xA0 \<le> b \<and> b \<le> 0xBF
      else if lead = 0xED then 0x80 \<le> b \<and> b \<le> 0x9F
      else if lead = 0xF0 then 0x90 \<le> b \<and> b \<le> 0xBF
      else if lead = 0xF4 then 0x80 \<le> b \<and> b \<le> 0x8F
      else 0x80 \<le> b \<and> b \<le> 0xBF)"

fun utf8_seq :: "string \<Rightarrow> nat \<times> bool" where
  "utf8_seq [] = (0, False)"
| "utf8_seq (x # xs) =
     (let n = code_of x in
      if n < 0x80 then (1, True)
      else if n < 0xC2 \<or> 0xF4 < n then (1, False)
      else case xs of [] \<Rightarrow> (1, False)
        | y # ys \<Rightarrow>
          if \<not> second_ok n (code_of y) then (1, False)
          else if n < 0xE0 then (2, True)
          else case ys of [] \<Rightarrow> (2, False)
            | z # zs \<Rightarrow>
              if \<not> is_continuation z then (2, False)
              else if n < 0xF0 then (3, True)
              else case zs of [] \<Rightarrow> (3, False)
                | w # _ \<Rightarrow> if is_continuation w then (4, True) else (3, False))"

lemma utf8_seq_pos: "s \<noteq> [] \<Longrightarrow> 0 < fst (utf8_seq s)"
  by (cases s) (auto simp: Let_def split: list.splits)

lemma utf8_drop: "s \<noteq> [] \<Longrightarrow> (n, ok) = utf8_seq s \<Longrightarrow> length (drop n s) < length s"
  using utf8_seq_pos [of s] by (cases s) (simp, metis diff_less fst_conv length_drop length_greater_0_conv list.distinct(1))

definition replacement_char :: string where
  "replacement_char = [CHR 0xEF, CHR 0xBF, CHR 0xBD]"

text \<open>\<open>String::from_utf8_lossy\<close>, and whether \<open>read_to_string\<close> accepts the bytes.\<close>

function lossy :: "string \<Rightarrow> string" where
  "lossy s = (if s = [] then [] else
     case utf8_seq s of (n, ok) \<Rightarrow> (if ok then take n s else replacement_char) @ lossy (drop n s))"
  by pat_completeness auto
termination
  by (relation "measure length") (simp, metis utf8_drop in_measure)

function utf8_valid :: "string \<Rightarrow> bool" where
  "utf8_valid s = (if s = [] then True else
     case utf8_seq s of (n, ok) \<Rightarrow> ok \<and> utf8_valid (drop n s))"
  by pat_completeness auto
termination
  by (relation "measure length") (simp, metis utf8_drop in_measure)

declare lossy.simps [simp del] utf8_valid.simps [simp del]

end
