(* ===== verification/Snapshot.thy ===== *)
theory Snapshot
  imports Text
begin

text \<open>
  The universe snapshot of \<open>crates/guestlang-host/src/hostgen.rs\<close> (lines 56-610): the
  snapshot types and items, the recursive-descent type parser with its depth bound, and
  the line parser with its open item and its structured errors.  The writer of the
  format is the Lean module \<open>SchemaLang.Snapshot\<close>; its printer is modelled too
  (\<open>ty_to_snapshot\<close>, \<open>item_lines\<close>, \<open>render\<close>, \<open>names_encodable\<close>), so that the loss-free
  round trip the two sides promise each other can be stated: the parser inverts the
  printer (\<open>parse_ty_render\<close>, \<open>parse_render\<close>).
\<close>

section \<open>Types\<close>

datatype sty =
    SBool | SU8 | SU16 | SU32 | SU64 | SI8 | SI16 | SI32 | SI64 | SF32 | SF64 | SString | SBytes
  | SOption sty | SResult sty sty | SList sty | SMap sty sty | SSet sty
  | SFuture sty | SStream sty | STensor "u64 list" sty | SNamed string

definition MAX_TY_DEPTH :: nat where
  "MAX_TY_DEPTH = 64"

definition is_key_ty :: "sty \<Rightarrow> bool" where
  "is_key_ty t \<longleftrightarrow> t \<in> {SBool, SU8, SU16, SU32, SU64, SI8, SI16, SI32, SI64, SString}"

text \<open>The corruption classes; each stands for one message of the parser.\<close>

datatype snap_error =
    DepthExceeded
  | ExpectedOpen string
  | ExpectedClose string
  | ExpectedComma string
  | KeyNotScalar string
  | NoCloseAfterRef
  | EmptyRef
  | BadDim
  | ExpectedSemicolon
  | UnknownToken string
  | TrailingGarbage string
  | BadNullSem string
  | BadDeterminism string
  | NoRet string
  | Outside string
  | ParamAfterRet
  | DuplicateRet
  | DuplicateSem
  | SemBeforeRet
  | UnrecognizedLine string

section \<open>The type parser\<close>

definition scalar_tokens :: "(string \<times> sty) list" where
  "scalar_tokens =
    [(''bool'', SBool), (''u8'', SU8), (''u16'', SU16), (''u32'', SU32), (''u64'', SU64),
     (''i8'', SI8), (''i16'', SI16), (''i32'', SI32), (''i64'', SI64),
     (''f32'', SF32), (''f64'', SF64), (''string'', SString), (''bytes'', SBytes)]"

text \<open>One expected delimiter.\<close>

definition expect :: "char \<Rightarrow> snap_error \<Rightarrow> string \<Rightarrow> snap_error + string" where
  "expect c e s = (case s of x # r \<Rightarrow> if x = c then Inr r else Inl e | [] \<Rightarrow> Inl e)"

text \<open>The loop over the dimensions of a tensor, each with its semicolon.\<close>

function parse_dims :: "string \<Rightarrow> snap_error + u64 list \<times> string" where
  "parse_dims r =
     (if takeWhile is_ascii_digit r = [] then Inr ([], r)
      else case parse_u64 (takeWhile is_ascii_digit r) of
        None \<Rightarrow> Inl BadDim
      | Some d \<Rightarrow> (case dropWhile is_ascii_digit r of
          [] \<Rightarrow> Inl ExpectedSemicolon
        | c # r' \<Rightarrow>
            if c = CHR '';'' then
              and_then (parse_dims r') (\<lambda>(dims, r''). Inr (word_of_nat d # dims, r''))
            else Inl ExpectedSemicolon))"
  by pat_completeness auto
termination
proof (relation "measure length")
  fix r :: string and c r'
  assume "dropWhile is_ascii_digit r = c # r'"
  then have "length (c # r') \<le> length r"
    by (metis length_dropWhile_le)
  then show "(r', r) \<in> measure length" by simp
qed simp

declare parse_dims.simps [simp del]

function parse_ty_at :: "string \<Rightarrow> nat \<Rightarrow> snap_error + sty \<times> string" where
  "parse_ty_at cs depth =
    (if MAX_TY_DEPTH < depth then Inl DepthExceeded
     else let kw = takeWhile is_ascii_alnum cs; rest = dropWhile is_ascii_alnum cs in
     case map_of scalar_tokens kw of Some t \<Rightarrow> Inr (t, rest) | None \<Rightarrow>
     if kw \<in> {''option'', ''list'', ''future'', ''stream''} then
       and_then (expect (CHR ''('') (ExpectedOpen kw) rest) (\<lambda>r.
       and_then (parse_ty_at r (depth + 1)) (\<lambda>(t, r).
       and_then (expect (CHR '')'') (ExpectedClose kw) r) (\<lambda>r.
         Inr ((if kw = ''option'' then SOption else if kw = ''list'' then SList
               else if kw = ''future'' then SFuture else SStream) t, r))))
     else if kw = ''set'' then
       and_then (expect (CHR ''('') (ExpectedOpen kw) rest) (\<lambda>r.
       and_then (parse_ty_at r (depth + 1)) (\<lambda>(t, r).
         if \<not> is_key_ty t then Inl (KeyNotScalar kw)
         else and_then (expect (CHR '')'') (ExpectedClose kw) r) (\<lambda>r. Inr (SSet t, r))))
     else if kw = ''map'' then
       and_then (expect (CHR ''('') (ExpectedOpen kw) rest) (\<lambda>r.
       and_then (parse_ty_at r (depth + 1)) (\<lambda>(kt, r).
         if \<not> is_key_ty kt then Inl (KeyNotScalar kw)
         else and_then (expect (CHR '','') (ExpectedComma kw) r) (\<lambda>r.
         and_then (parse_ty_at r (depth + 1)) (\<lambda>(vt, r).
         and_then (expect (CHR '')'') (ExpectedClose kw) r) (\<lambda>r. Inr (SMap kt vt, r))))))
     else if kw = ''result'' then
       and_then (expect (CHR ''('') (ExpectedOpen kw) rest) (\<lambda>r.
       and_then (parse_ty_at r (depth + 1)) (\<lambda>(ok, r).
       and_then (expect (CHR '','') (ExpectedComma kw) r) (\<lambda>r.
       and_then (parse_ty_at r (depth + 1)) (\<lambda>(err, r).
       and_then (expect (CHR '')'') (ExpectedClose kw) r) (\<lambda>r. Inr (SResult ok err, r))))))
     else if kw = ''ty'' then
       and_then (expect (CHR ''('') (ExpectedOpen kw) rest) (\<lambda>r.
         let name = takeWhile (\<lambda>b. b \<noteq> CHR '')'') r in
         case dropWhile (\<lambda>b. b \<noteq> CHR '')'') r of
           [] \<Rightarrow> Inl NoCloseAfterRef
         | _ # r' \<Rightarrow> if name = [] then Inl EmptyRef else Inr (SNamed name, r'))
     else if kw = ''tensor'' then
       and_then (expect (CHR ''('') (ExpectedOpen kw) rest) (\<lambda>r.
       and_then (parse_dims r) (\<lambda>(dims, r).
       and_then (parse_ty_at r (depth + 1)) (\<lambda>(elem, r).
       and_then (expect (CHR '')'') (ExpectedClose kw) r) (\<lambda>r. Inr (STensor dims elem, r)))))
     else Inl (UnknownToken kw))"
  by pat_completeness auto
termination
  by (relation "measure (\<lambda>(cs, depth). 65 - depth)") (auto simp: MAX_TY_DEPTH_def)

declare parse_ty_at.simps [simp del]

definition parse_ty_text :: "string \<Rightarrow> snap_error + sty" where
  "parse_ty_text s = and_then (parse_ty_at s 0) (\<lambda>(t, rest).
     if rest = [] then Inr t else Inl (TrailingGarbage rest))"

section \<open>Items\<close>

record func_sem =
  null_sem :: string
  determinism :: string
  sem_stream :: bool

datatype item =
    IRecord string "(string \<times> sty) list"
  | IVariant string "(string \<times> sty option) list"
  | IFunc string "(string \<times> sty) list" sty "func_sem option"
  | IResource string

datatype open_item =
    ORecord string "(string \<times> sty) list"
  | OVariant string "(string \<times> sty option) list"
  | OFunc string "(string \<times> sty) list" "sty option" "func_sem option"
  | OResource string

fun close_item :: "open_item \<Rightarrow> snap_error + item" where
  "close_item (ORecord n fs) = Inr (IRecord n fs)"
| "close_item (OVariant n cs) = Inr (IVariant n cs)"
| "close_item (OFunc n ps (Some ret) sem) = Inr (IFunc n ps ret sem)"
| "close_item (OFunc n ps None sem) = Inl (NoRet n)"
| "close_item (OResource n) = Inr (IResource n)"

text \<open>The tokens of a \<open>sem\<close> line; the caller gives three or four.\<close>

definition parse_sem :: "string list \<Rightarrow> snap_error + func_sem" where
  "parse_sem tokens = (let ns = tokens ! 1; ds = tokens ! 2 in
     if ns \<notin> {''strict'', ''propagate'', ''custom''} then Inl (BadNullSem ns)
     else if ds \<notin> {''pure'', ''stable'', ''volatile''} then Inl (BadDeterminism ds)
     else Inr \<lparr>null_sem = ns, determinism = ds,
               sem_stream = (length tokens = 4 \<and> tokens ! 3 = ''stream'')\<rparr>)"

section \<open>The line parser\<close>

text \<open>A parse error: the line, counted from one in the raw text, and its class.\<close>

record parse_error =
  err_line :: nat
  err_message :: snap_error

definition at_line :: "nat \<Rightarrow> snap_error + 'a \<Rightarrow> parse_error + 'a" where
  "at_line n r = (case r of Inl e \<Rightarrow> Inl \<lparr>err_line = n, err_message = e\<rparr> | Inr x \<Rightarrow> Inr x)"

type_synonym parse_state = "item list \<times> open_item option"

text \<open>The closure \<open>restart\<close>: close the open item, if any, and start the new one.\<close>

definition restart :: "open_item \<Rightarrow> parse_state \<Rightarrow> snap_error + parse_state" where
  "restart new st = (case st of
       (finished, None) \<Rightarrow> Inr (finished, Some new)
     | (finished, Some opened) \<Rightarrow>
         and_then (close_item opened) (\<lambda>it. Inr (finished @ [it], Some new)))"

definition sem_line :: "string list \<Rightarrow> parse_state \<Rightarrow> snap_error + parse_state" where
  "sem_line tokens st = (let (finished, cur) = st in case cur of
       Some (OFunc n ps (Some r) None) \<Rightarrow>
         and_then (parse_sem tokens) (\<lambda>s. Inr (finished, Some (OFunc n ps (Some r) (Some s))))
     | Some (OFunc n ps r (Some s)) \<Rightarrow> Inl DuplicateSem
     | Some (OFunc n ps None None) \<Rightarrow> Inl SemBeforeRet
     | _ \<Rightarrow> Inl (Outside ''sem''))"

definition parse_line :: "string \<Rightarrow> parse_state \<Rightarrow> snap_error + parse_state" where
  "parse_line line st = (let tokens = split_on (CHR '' '') line; (finished, cur) = st in
     case tokens of
       [kind, a] \<Rightarrow>
         if kind = ''record'' then restart (ORecord a []) st
         else if kind = ''variant'' then restart (OVariant a []) st
         else if kind = ''func'' then restart (OFunc a [] None None) st
         else if kind = ''resource'' then restart (OResource a) st
         else if kind = ''case'' then (case cur of
             Some (OVariant n cs) \<Rightarrow> Inr (finished, Some (OVariant n (cs @ [(a, None)])))
           | _ \<Rightarrow> Inl (Outside kind))
         else if kind = ''ret'' then (case cur of
             Some (OFunc n ps None sem) \<Rightarrow>
               and_then (parse_ty_text a) (\<lambda>t. Inr (finished, Some (OFunc n ps (Some t) sem)))
           | Some (OFunc n ps (Some r) sem) \<Rightarrow> Inl DuplicateRet
           | _ \<Rightarrow> Inl (Outside kind))
         else Inl (UnrecognizedLine line)
     | [kind, a, b] \<Rightarrow>
         if kind = ''field'' then (case cur of
             Some (ORecord n fs) \<Rightarrow>
               and_then (parse_ty_text b) (\<lambda>t. Inr (finished, Some (ORecord n (fs @ [(a, t)]))))
           | _ \<Rightarrow> Inl (Outside kind))
         else if kind = ''case'' then (case cur of
             Some (OVariant n cs) \<Rightarrow>
               and_then (parse_ty_text b) (\<lambda>t. Inr (finished, Some (OVariant n (cs @ [(a, Some t)]))))
           | _ \<Rightarrow> Inl (Outside kind))
         else if kind = ''param'' then (case cur of
             Some (OFunc n ps None sem) \<Rightarrow>
               and_then (parse_ty_text b) (\<lambda>t. Inr (finished, Some (OFunc n (ps @ [(a, t)]) None sem)))
           | Some (OFunc n ps (Some r) sem) \<Rightarrow> Inl ParamAfterRet
           | _ \<Rightarrow> Inl (Outside kind))
         else if kind = ''sem'' then sem_line tokens st
         else Inl (UnrecognizedLine line)
     | [kind, a, b, c] \<Rightarrow>
         if kind = ''sem'' \<and> c = ''stream'' then sem_line tokens st
         else Inl (UnrecognizedLine line)
     | _ \<Rightarrow> Inl (UnrecognizedLine line))"

text \<open>The loop over the lines: the line number, the last non-blank line, the state.\<close>

fun parse_lines :: "nat \<Rightarrow> nat \<Rightarrow> string list \<Rightarrow> parse_state \<Rightarrow> parse_error + nat \<times> parse_state" where
  "parse_lines n last_line [] st = Inr (last_line, st)"
| "parse_lines n last_line (l # ls) st =
     (if l = [] then parse_lines (n + 1) last_line ls st
      else and_then (at_line n (parse_line l st)) (\<lambda>st'. parse_lines (n + 1) n ls st'))"

definition parse_snapshot :: "string \<Rightarrow> parse_error + item list" where
  "parse_snapshot text =
     and_then (parse_lines 1 0 (split_on (CHR 0x0A) text) ([], None)) (\<lambda>(last_line, finished, cur).
     case cur of
       None \<Rightarrow> Inr finished
     | Some opened \<Rightarrow> and_then (at_line last_line (close_item opened)) (\<lambda>it. Inr (finished @ [it])))"

section \<open>The printer\<close>

primrec ty_to_snapshot :: "sty \<Rightarrow> string" where
  "ty_to_snapshot SBool = ''bool''"
| "ty_to_snapshot SU8 = ''u8''"
| "ty_to_snapshot SU16 = ''u16''"
| "ty_to_snapshot SU32 = ''u32''"
| "ty_to_snapshot SU64 = ''u64''"
| "ty_to_snapshot SI8 = ''i8''"
| "ty_to_snapshot SI16 = ''i16''"
| "ty_to_snapshot SI32 = ''i32''"
| "ty_to_snapshot SI64 = ''i64''"
| "ty_to_snapshot SF32 = ''f32''"
| "ty_to_snapshot SF64 = ''f64''"
| "ty_to_snapshot SString = ''string''"
| "ty_to_snapshot SBytes = ''bytes''"
| "ty_to_snapshot (SOption a) = ''option('' @ ty_to_snapshot a @ '')''"
| "ty_to_snapshot (SResult ok err) = ''result('' @ ty_to_snapshot ok @ '','' @ ty_to_snapshot err @ '')''"
| "ty_to_snapshot (SList a) = ''list('' @ ty_to_snapshot a @ '')''"
| "ty_to_snapshot (SMap k v) = ''map('' @ ty_to_snapshot k @ '','' @ ty_to_snapshot v @ '')''"
| "ty_to_snapshot (SSet k) = ''set('' @ ty_to_snapshot k @ '')''"
| "ty_to_snapshot (SFuture a) = ''future('' @ ty_to_snapshot a @ '')''"
| "ty_to_snapshot (SStream a) = ''stream('' @ ty_to_snapshot a @ '')''"
| "ty_to_snapshot (STensor dims a) =
     ''tensor('' @ concat (map (\<lambda>d. show_nat (unat d) @ '';'') dims) @ ty_to_snapshot a @ '')''"
| "ty_to_snapshot (SNamed n) = ''ty('' @ n @ '')''"

text \<open>
  The lines of an item.  The writer omits the \<open>sem\<close> line of a function whose semantics are
  the defaults; the parser reads an absent line as no semantics.
\<close>

definition member_line :: "string \<Rightarrow> string \<times> sty \<Rightarrow> string" where
  "member_line kind m = (case m of (n, t) \<Rightarrow> kind @ '' '' @ n @ '' '' @ ty_to_snapshot t)"

definition case_line :: "string \<times> sty option \<Rightarrow> string" where
  "case_line c = (case c of
       (n, Some t) \<Rightarrow> ''case '' @ n @ '' '' @ ty_to_snapshot t
     | (n, None) \<Rightarrow> ''case '' @ n)"

definition sem_text :: "func_sem \<Rightarrow> string" where
  "sem_text s = ''sem '' @ null_sem s @ '' '' @ determinism s @ (if sem_stream s then '' stream'' else [])"

fun item_lines :: "item \<Rightarrow> string list" where
  "item_lines (IRecord n fs) = (''record '' @ n) # map (member_line ''field'') fs"
| "item_lines (IVariant n cs) = (''variant '' @ n) # map case_line cs"
| "item_lines (IFunc n ps ret sem) =
     (''func '' @ n) # map (member_line ''param'') ps @ [''ret '' @ ty_to_snapshot ret] @
     (case sem of None \<Rightarrow> [] | Some s \<Rightarrow> [sem_text s])"
| "item_lines (IResource n) = [''resource '' @ n]"

definition render :: "item list \<Rightarrow> string" where
  "render items = concat (map (\<lambda>l. l @ [CHR 0x0A]) (concat (map item_lines items)))"

definition name_ok :: "string \<Rightarrow> bool" where
  "name_ok s \<longleftrightarrow> s \<noteq> [] \<and> list_all (\<lambda>c. is_ascii_alnum c \<or> c \<in> {CHR ''-'', CHR ''_'', CHR ''.''}) s"

section \<open>The type parser inverts the printer\<close>

text \<open>Well-formed types: scalar keys, encodable references.  \<open>sty_depth\<close> counts the nesting.\<close>

primrec sty_ok :: "sty \<Rightarrow> bool" where
  "sty_ok SBool = True"
| "sty_ok SU8 = True"
| "sty_ok SU16 = True"
| "sty_ok SU32 = True"
| "sty_ok SU64 = True"
| "sty_ok SI8 = True"
| "sty_ok SI16 = True"
| "sty_ok SI32 = True"
| "sty_ok SI64 = True"
| "sty_ok SF32 = True"
| "sty_ok SF64 = True"
| "sty_ok SString = True"
| "sty_ok SBytes = True"
| "sty_ok (SOption a) = sty_ok a"
| "sty_ok (SResult ok err) = (sty_ok ok \<and> sty_ok err)"
| "sty_ok (SList a) = sty_ok a"
| "sty_ok (SMap k v) = (is_key_ty k \<and> sty_ok k \<and> sty_ok v)"
| "sty_ok (SSet k) = (is_key_ty k \<and> sty_ok k)"
| "sty_ok (SFuture a) = sty_ok a"
| "sty_ok (SStream a) = sty_ok a"
| "sty_ok (STensor dims a) = sty_ok a"
| "sty_ok (SNamed n) = name_ok n"

primrec sty_depth :: "sty \<Rightarrow> nat" where
  "sty_depth SBool = 0"
| "sty_depth SU8 = 0"
| "sty_depth SU16 = 0"
| "sty_depth SU32 = 0"
| "sty_depth SU64 = 0"
| "sty_depth SI8 = 0"
| "sty_depth SI16 = 0"
| "sty_depth SI32 = 0"
| "sty_depth SI64 = 0"
| "sty_depth SF32 = 0"
| "sty_depth SF64 = 0"
| "sty_depth SString = 0"
| "sty_depth SBytes = 0"
| "sty_depth (SOption a) = sty_depth a + 1"
| "sty_depth (SResult ok err) = max (sty_depth ok) (sty_depth err) + 1"
| "sty_depth (SList a) = sty_depth a + 1"
| "sty_depth (SMap k v) = max (sty_depth k) (sty_depth v) + 1"
| "sty_depth (SSet k) = sty_depth k + 1"
| "sty_depth (SFuture a) = sty_depth a + 1"
| "sty_depth (SStream a) = sty_depth a + 1"
| "sty_depth (STensor dims a) = sty_depth a + 1"
| "sty_depth (SNamed n) = 0"

text \<open>What may follow a type: nothing, or a delimiter.\<close>

definition delimited :: "string \<Rightarrow> bool" where
  "delimited rest \<longleftrightarrow> (case rest of [] \<Rightarrow> True | c # _ \<Rightarrow> \<not> is_ascii_alnum c)"

lemma delimited_while:
  "delimited rest \<Longrightarrow> takeWhile is_ascii_alnum rest = [] \<and> dropWhile is_ascii_alnum rest = rest"
  by (cases rest) (simp_all add: delimited_def)

lemma delimited_simps [simp]:
  "delimited []" "delimited (CHR '')'' # s)" "delimited (CHR '','' # s)" "delimited (CHR ''('' # s)"
  by (simp_all add: delimited_def ascii_defs)

lemma parse_head:
  assumes "list_all is_ascii_alnum kw" "delimited rest"
  shows "takeWhile is_ascii_alnum (kw @ rest) = kw" "dropWhile is_ascii_alnum (kw @ rest) = rest"
  using assms delimited_while [of rest] by (simp_all add: list_all_iff takeWhile_append dropWhile_append)

lemma parse_scalar:
  assumes "map_of scalar_tokens kw = Some t" "delimited rest" "d \<le> 64"
  shows "parse_ty_at (kw @ rest) d = Inr (t, rest)"
proof -
  have "kw \<in> fst ` set scalar_tokens"
    using assms(1) by (metis (no_types) domI dom_map_of_conv_image_fst)
  then have "list_all is_ascii_alnum kw"
    by (auto simp: scalar_tokens_def ascii_defs)
  then show ?thesis
    using assms by (simp add: parse_ty_at.simps MAX_TY_DEPTH_def parse_head Let_def)
qed

lemma ty_to_snapshot_start:
  "sty_ok t \<Longrightarrow> \<exists>c s. ty_to_snapshot t = c # s \<and> \<not> is_ascii_digit c"
  by (cases t) (auto simp: is_ascii_digit_def)

lemma parse_dims_show:
  assumes "s = c # s'" "\<not> is_ascii_digit c"
  shows "parse_dims (concat (map (\<lambda>d. show_nat (unat d) @ '';'') dims) @ s) = Inr (dims, s)"
proof (induction dims)
  case Nil
  then show ?case using assms by (subst parse_dims.simps) simp
next
  case (Cons d dims)
  let ?r = "concat (map (\<lambda>d. show_nat (unat d) @ '';'') dims) @ s"
  have nd: "\<not> is_ascii_digit (CHR '';'')" by (simp add: is_ascii_digit_def)
  have "takeWhile is_ascii_digit (show_nat (unat d) @ CHR '';'' # ?r) = show_nat (unat d)"
    "dropWhile is_ascii_digit (show_nat (unat d) @ CHR '';'' # ?r) = CHR '';'' # ?r"
    using show_nat_digits [of "unat d"] nd
    by (simp_all add: list_all_iff takeWhile_append dropWhile_append)
  moreover have "parse_u64 (show_nat (unat d)) = Some (unat d)"
    using unsigned_less [of d] by (intro parse_show_nat) simp
  ultimately show ?case
    using Cons by (subst parse_dims.simps) simp
qed

lemma applied_head:
  assumes "kw \<in> {''option'', ''list'', ''future'', ''stream'', ''set'', ''map'', ''result'', ''ty'', ''tensor''}"
  shows "takeWhile is_ascii_alnum (kw @ CHR ''('' # s) = kw"
    and "dropWhile is_ascii_alnum (kw @ CHR ''('' # s) = CHR ''('' # s"
proof -
  have "list_all is_ascii_alnum kw"
    using assms by (elim insertE emptyE) (simp_all add: ascii_defs)
  then show "takeWhile is_ascii_alnum (kw @ CHR ''('' # s) = kw"
    "dropWhile is_ascii_alnum (kw @ CHR ''('' # s) = CHR ''('' # s"
    by (simp_all add: parse_head)
qed

lemma applied_not_scalar [simp]:
  "kw \<in> {''option'', ''list'', ''future'', ''stream'', ''set'', ''map'', ''result'', ''ty'', ''tensor''} \<Longrightarrow>
   map_of scalar_tokens kw = None"
  by (elim insertE emptyE) (simp_all add: scalar_tokens_def)

lemma parse_named:
  assumes "name_ok n" "d \<le> 64"
  shows "parse_ty_at (''ty('' @ n @ '')'' @ rest) d = Inr (SNamed n, rest)"
proof -
  have "CHR '')'' \<notin> set n"
    using assms(1) by (auto simp: name_ok_def list_all_iff ascii_defs)
  then have "takeWhile (\<lambda>b. b \<noteq> CHR '')'') (n @ CHR '')'' # rest) = n"
    "dropWhile (\<lambda>b. b \<noteq> CHR '')'') (n @ CHR '')'' # rest) = CHR '')'' # rest"
    by (auto simp: takeWhile_append dropWhile_append)
  then show ?thesis
    using applied_head [of "''ty''" "n @ CHR '')'' # rest"] assms
    by (subst parse_ty_at.simps) (simp add: MAX_TY_DEPTH_def expect_def name_ok_def Let_def)
qed

lemma parse_ty_render:
  "sty_ok t \<Longrightarrow> d + sty_depth t \<le> 64 \<Longrightarrow> delimited rest \<Longrightarrow>
   parse_ty_at (ty_to_snapshot t @ rest) d = Inr (t, rest)"
proof (induction t arbitrary: d rest)
  case (SOption t)
  then show ?case
    using applied_head [of "''option''" "ty_to_snapshot t @ CHR '')'' # rest"]
    by (subst parse_ty_at.simps) (simp add: MAX_TY_DEPTH_def expect_def Let_def)
next
  case (SList t)
  then show ?case
    using applied_head [of "''list''" "ty_to_snapshot t @ CHR '')'' # rest"]
    by (subst parse_ty_at.simps) (simp add: MAX_TY_DEPTH_def expect_def Let_def)
next
  case (SFuture t)
  then show ?case
    using applied_head [of "''future''" "ty_to_snapshot t @ CHR '')'' # rest"]
    by (subst parse_ty_at.simps) (simp add: MAX_TY_DEPTH_def expect_def Let_def)
next
  case (SStream t)
  then show ?case
    using applied_head [of "''stream''" "ty_to_snapshot t @ CHR '')'' # rest"]
    by (subst parse_ty_at.simps) (simp add: MAX_TY_DEPTH_def expect_def Let_def)
next
  case (SSet t)
  then show ?case
    using applied_head [of "''set''" "ty_to_snapshot t @ CHR '')'' # rest"]
    by (subst parse_ty_at.simps) (simp add: MAX_TY_DEPTH_def expect_def Let_def)
next
  case (SResult t1 t2)
  then show ?case
    using applied_head [of "''result''" "ty_to_snapshot t1 @ CHR '','' # ty_to_snapshot t2 @ CHR '')'' # rest"]
    by (subst parse_ty_at.simps) (simp add: MAX_TY_DEPTH_def expect_def Let_def)
next
  case (SMap t1 t2)
  then show ?case
    using applied_head [of "''map''" "ty_to_snapshot t1 @ CHR '','' # ty_to_snapshot t2 @ CHR '')'' # rest"]
    by (subst parse_ty_at.simps) (simp add: MAX_TY_DEPTH_def expect_def Let_def)
next
  case (STensor dims t)
  let ?elem = "ty_to_snapshot t @ CHR '')'' # rest"
  obtain c s where "ty_to_snapshot t = c # s" "\<not> is_ascii_digit c"
    using ty_to_snapshot_start [of t] STensor.prems(1) by force
  then have "parse_dims (concat (map (\<lambda>d. show_nat (unat d) @ '';'') dims) @ ?elem) = Inr (dims, ?elem)"
    by (intro parse_dims_show) auto
  then show ?case
    using applied_head [of "''tensor''" "concat (map (\<lambda>d. show_nat (unat d) @ '';'') dims) @ ?elem"] STensor
    by (subst parse_ty_at.simps) (simp add: MAX_TY_DEPTH_def expect_def Let_def)
next
  case (SNamed n)
  then show ?case using parse_named by simp
qed (simp only: ty_to_snapshot.simps, rule parse_scalar, simp add: scalar_tokens_def, assumption, simp)+

lemma parse_ty_text_render:
  assumes "sty_ok t" "sty_depth t \<le> 64"
  shows "parse_ty_text (ty_to_snapshot t) = Inr t"
  using parse_ty_render [OF assms(1), of 0 "[]"] assms(2) by (simp add: parse_ty_text_def)

section \<open>The line parser inverts the printer\<close>

lemma name_ok_no_sep: "name_ok n \<Longrightarrow> CHR '' '' \<notin> set n \<and> CHR 0x0A \<notin> set n"
  by (auto simp: name_ok_def list_all_iff ascii_defs)

lemma snapshot_no_sep:
  "sty_ok t \<Longrightarrow> CHR '' '' \<notin> set (ty_to_snapshot t) \<and> CHR 0x0A \<notin> set (ty_to_snapshot t)"
proof (induction t)
  case (STensor dims t)
  have "CHR '' '' \<notin> set (show_nat (unat d)) \<and> CHR 0x0A \<notin> set (show_nat (unat d))" for d :: u64
    by (simp add: show_nat_no_sep is_ascii_digit_def)
  with STensor show ?case by auto
next
  case (SNamed n)
  then show ?case by (auto dest: name_ok_no_sep)
qed auto

definition member_ok :: "string \<times> sty \<Rightarrow> bool" where
  "member_ok m \<longleftrightarrow> name_ok (fst m) \<and> sty_ok (snd m) \<and> sty_depth (snd m) \<le> 64"

definition sem_ok :: "func_sem \<Rightarrow> bool" where
  "sem_ok s \<longleftrightarrow> null_sem s \<in> {''strict'', ''propagate'', ''custom''} \<and>
     determinism s \<in> {''pure'', ''stable'', ''volatile''}"

fun item_ok :: "item \<Rightarrow> bool" where
  "item_ok (IRecord n fs) \<longleftrightarrow> name_ok n \<and> list_all member_ok fs"
| "item_ok (IVariant n cs) \<longleftrightarrow> name_ok n \<and>
     list_all (\<lambda>(c, p). case p of None \<Rightarrow> name_ok c | Some t \<Rightarrow> member_ok (c, t)) cs"
| "item_ok (IFunc n ps ret sem) \<longleftrightarrow> name_ok n \<and> list_all member_ok ps \<and> member_ok (n, ret) \<and> pred_option sem_ok sem"
| "item_ok (IResource n) \<longleftrightarrow> name_ok n"

fun open_of :: "item \<Rightarrow> open_item" where
  "open_of (IRecord n fs) = ORecord n fs"
| "open_of (IVariant n cs) = OVariant n cs"
| "open_of (IFunc n ps ret sem) = OFunc n ps (Some ret) sem"
| "open_of (IResource n) = OResource n"

lemma close_open_of [simp]: "close_item (open_of it) = Inr it"
  by (cases it) auto

lemma split_two: "CHR '' '' \<notin> set a \<Longrightarrow> CHR '' '' \<notin> set b \<Longrightarrow> split_on (CHR '' '') (a @ CHR '' '' # b) = [a, b]"
  by (simp add: split_on_Cons_sep split_on_plain)

lemma split_three:
  "CHR '' '' \<notin> set a \<Longrightarrow> CHR '' '' \<notin> set b \<Longrightarrow> CHR '' '' \<notin> set c \<Longrightarrow>
   split_on (CHR '' '') (a @ CHR '' '' # b @ CHR '' '' # c) = [a, b, c]"
  by (simp add: split_on_Cons_sep split_on_plain)

lemma split_member:
  assumes "member_ok m" "CHR '' '' \<notin> set kind"
  shows "split_on (CHR '' '') (member_line kind m) = [kind, fst m, ty_to_snapshot (snd m)]"
  using assms split_three [of kind "fst m" "ty_to_snapshot (snd m)"] name_ok_no_sep [of "fst m"]
    snapshot_no_sep [of "snd m"]
  by (cases m) (simp add: member_line_def member_ok_def)

lemma parse_members:
  "list_all member_ok fs \<Longrightarrow> \<exists>n' l'.
    parse_lines n l (map (member_line ''field'') fs @ ls) (finished, Some (ORecord m acc)) =
    parse_lines n' l' ls (finished, Some (ORecord m (acc @ fs)))"
proof (induction fs arbitrary: n l acc)
  case (Cons f fs)
  have "parse_line (member_line ''field'' f) (finished, Some (ORecord m acc)) =
      Inr (finished, Some (ORecord m (acc @ [f])))"
    using split_member [of f "''field''"] Cons.prems parse_ty_text_render
    by (simp add: parse_line_def member_ok_def)
  then show ?case
    using Cons.IH [of "n + 1" n "acc @ [f]"] Cons.prems
    by (auto simp: at_line_def member_line_def split: prod.splits)
qed auto

lemma parse_params:
  "list_all member_ok ps \<Longrightarrow> \<exists>n' l'.
    parse_lines n l (map (member_line ''param'') ps @ ls) (finished, Some (OFunc m acc None sem)) =
    parse_lines n' l' ls (finished, Some (OFunc m (acc @ ps) None sem))"
proof (induction ps arbitrary: n l acc)
  case (Cons p ps)
  have "parse_line (member_line ''param'' p) (finished, Some (OFunc m acc None sem)) =
      Inr (finished, Some (OFunc m (acc @ [p]) None sem))"
    using split_member [of p "''param''"] Cons.prems parse_ty_text_render
    by (simp add: parse_line_def member_ok_def)
  then show ?case
    using Cons.IH [of "n + 1" n "acc @ [p]"] Cons.prems
    by (auto simp: at_line_def member_line_def split: prod.splits)
qed auto

lemma parse_cases:
  "list_all (\<lambda>(c, p). case p of None \<Rightarrow> name_ok c | Some t \<Rightarrow> member_ok (c, t)) cs \<Longrightarrow> \<exists>n' l'.
    parse_lines n l (map case_line cs @ ls) (finished, Some (OVariant m acc)) =
    parse_lines n' l' ls (finished, Some (OVariant m (acc @ cs)))"
proof (induction cs arbitrary: n l acc)
  case (Cons c cs)
  have "parse_line (case_line c) (finished, Some (OVariant m acc)) =
      Inr (finished, Some (OVariant m (acc @ [c])))"
  proof (cases "snd c")
    case None
    then show ?thesis
      using Cons.prems split_two [of "''case''" "fst c"] name_ok_no_sep [of "fst c"]
      by (cases c) (simp add: parse_line_def case_line_def)
  next
    case (Some t)
    then show ?thesis
      using Cons.prems split_member [of "(fst c, t)" "''case''"] parse_ty_text_render [of t]
      by (cases c) (simp add: parse_line_def case_line_def member_line_def member_ok_def)
  qed
  then show ?case
    using Cons.IH [of "n + 1" n "acc @ [c]"] Cons.prems
    by (auto simp: at_line_def case_line_def split: prod.splits option.splits)
qed auto

lemma parse_sem_text:
  assumes "sem_ok s"
  shows "parse_line (sem_text s) (finished, Some (OFunc n ps (Some r) None)) =
    Inr (finished, Some (OFunc n ps (Some r) (Some s)))"
proof -
  obtain a b st where s: "s = \<lparr>null_sem = a, determinism = b, sem_stream = st\<rparr>" by (cases s)
  have ab: "a \<in> {''strict'', ''propagate'', ''custom''}" "b \<in> {''pure'', ''stable'', ''volatile''}"
    using assms s by (simp_all add: sem_ok_def)
  then have "CHR '' '' \<notin> set a" "CHR '' '' \<notin> set b" by auto
  then have "split_on (CHR '' '') (sem_text s) = [''sem'', a, b] @ (if st then [''stream''] else [])"
    using s split_three [of "''sem''" a b]
    by (simp add: sem_text_def split_on_Cons_sep split_on_plain)
  moreover have "parse_sem ([''sem'', a, b] @ (if st then [''stream''] else [])) = Inr s"
    using ab s by (simp add: parse_sem_def)
  ultimately show ?thesis
    by (cases st) (simp_all add: parse_line_def sem_line_def)
qed

text \<open>A header line closes the open item and opens its own.\<close>

lemma parse_header:
  assumes "name_ok n" "(kind, new) \<in> {(''record'', ORecord n []), (''variant'', OVariant n []),
      (''func'', OFunc n [] None None), (''resource'', OResource n)}"
  shows "parse_line (kind @ '' '' @ n) (finished, cur) = restart new (finished, cur)"
proof -
  have "CHR '' '' \<notin> set kind" using assms(2) by auto
  then have "split_on (CHR '' '') (kind @ '' '' @ n) = [kind, n]"
    using split_two name_ok_no_sep [OF assms(1)] by simp
  then show ?thesis
    using assms(2) by (elim insertE emptyE) (simp_all add: parse_line_def)
qed

text \<open>What the state holds once its open item is closed.\<close>

definition settles :: "parse_state \<Rightarrow> item list \<Rightarrow> bool" where
  "settles st items \<longleftrightarrow> (case st of
       (finished, None) \<Rightarrow> items = finished
     | (finished, Some o') \<Rightarrow> (\<exists>it. close_item o' = Inr it \<and> items = finished @ [it]))"

lemma restart_settles: "settles st items \<Longrightarrow> restart new st = Inr (items, Some new)"
  by (cases st) (auto simp: settles_def restart_def split: option.splits)

lemma settles_open: "settles (items, Some (open_of it)) (items @ [it])"
  by (simp add: settles_def)

lemma parse_header_lines:
  assumes "settles st items" "name_ok n" "(kind, new) \<in> {(''record'', ORecord n []), (''variant'', OVariant n []),
      (''func'', OFunc n [] None None), (''resource'', OResource n)}"
  shows "parse_lines k l ((kind @ '' '' @ n) # ls) st = parse_lines (k + 1) k ls (items, Some new)"
  using parse_header [OF assms(2,3), of "fst st" "snd st"] restart_settles [OF assms(1), of new]
  by (simp add: at_line_def)

lemma parse_item:
  assumes "item_ok it" "settles st items"
  shows "\<exists>k' l'. parse_lines k l (item_lines it @ ls) st = parse_lines k' l' ls (items, Some (open_of it))"
proof (cases it)
  case (IRecord n fs)
  then have "name_ok n" "list_all member_ok fs" using assms(1) by simp_all
  then show ?thesis
    using parse_header_lines [OF assms(2), of n "''record''" "ORecord n []"] IRecord
      parse_members [of fs "k + 1" k ls items n "[]"] by simp
next
  case (IVariant n cs)
  then show ?thesis
    using assms(1) parse_header_lines [OF assms(2), of n "''variant''" "OVariant n []"]
      parse_cases [of cs "k + 1" k ls items n "[]"] by simp
next
  case (IResource n)
  then show ?thesis
    using assms(1) parse_header_lines [OF assms(2), of n "''resource''" "OResource n"] by auto
next
  case (IFunc n ps ret sem)
  then have ok: "name_ok n" "list_all member_ok ps" "sty_ok ret" "sty_depth ret \<le> 64" "pred_option sem_ok sem"
    using assms(1) by (simp_all add: member_ok_def)
  let ?sem = "case sem of None \<Rightarrow> [] | Some s \<Rightarrow> [sem_text s]"
  have "split_on (CHR '' '') (''ret '' @ ty_to_snapshot ret) = [''ret'', ty_to_snapshot ret]"
    using split_two [of "''ret''" "ty_to_snapshot ret"] snapshot_no_sep [OF ok(3)] by simp
  then have ret: "parse_line (''ret '' @ ty_to_snapshot ret) (items, Some (OFunc n ps None None)) =
      Inr (items, Some (OFunc n ps (Some ret) None))"
    using parse_ty_text_render [OF ok(3,4)] by (simp add: parse_line_def)
  obtain k1 l1 where ps: "parse_lines (k + 1) k (map (member_line ''param'') ps @ (''ret '' @ ty_to_snapshot ret) # ?sem @ ls)
      (items, Some (OFunc n [] None None)) =
      parse_lines k1 l1 ((''ret '' @ ty_to_snapshot ret) # ?sem @ ls) (items, Some (OFunc n ps None None))"
    using parse_params [OF ok(2), of "k + 1" k "(''ret '' @ ty_to_snapshot ret) # ?sem @ ls" items n "[]" None] by auto
  have "parse_lines (k1 + 1) k1 (?sem @ ls) (items, Some (OFunc n ps (Some ret) None)) =
      parse_lines (k1 + 1 + length ?sem) (if sem = None then k1 else k1 + 1) ls (items, Some (open_of it))"
  proof (cases sem)
    case (Some s)
    moreover have "sem_text s \<noteq> []" by (simp add: sem_text_def)
    ultimately show ?thesis
      using IFunc ok(5) parse_sem_text [of s items n ps ret] by (simp add: at_line_def)
  qed (simp add: IFunc)
  moreover have "parse_lines k l (item_lines it @ ls) st =
      parse_lines (k + 1) k (map (member_line ''param'') ps @ (''ret '' @ ty_to_snapshot ret) # ?sem @ ls)
        (items, Some (OFunc n [] None None))"
    using parse_header_lines [OF assms(2) ok(1), of "''func''" "OFunc n [] None None"] IFunc by simp
  moreover have "parse_lines k1 l1 ((''ret '' @ ty_to_snapshot ret) # ?sem @ ls) (items, Some (OFunc n ps None None)) =
      parse_lines (k1 + 1) k1 (?sem @ ls) (items, Some (OFunc n ps (Some ret) None))"
    using ret by (simp add: at_line_def)
  ultimately show ?thesis using ps by auto
qed

lemma parse_items:
  "list_all item_ok its \<Longrightarrow> settles st items \<Longrightarrow> \<exists>k' l' st'.
    parse_lines k l (concat (map item_lines its) @ ls) st = parse_lines k' l' ls st' \<and> settles st' (items @ its)"
proof (induction its arbitrary: k l st items)
  case Nil
  then show ?case by (intro exI [of _ k] exI [of _ l] exI [of _ st]) simp
next
  case (Cons it its)
  then obtain k1 l1 where "parse_lines k l (item_lines it @ concat (map item_lines its) @ ls) st =
      parse_lines k1 l1 (concat (map item_lines its) @ ls) (items, Some (open_of it))"
    using parse_item [of it st items k l "concat (map item_lines its) @ ls"] by auto
  then show ?case
    using Cons.IH [OF _ settles_open, of k1 l1 items it] Cons.prems by auto
qed

lemma split_on_terminated:
  "list_all (\<lambda>l. c \<notin> set l) ls \<Longrightarrow> split_on c (concat (map (\<lambda>l. l @ [c]) ls)) = ls @ [[]]"
  by (induction ls) (simp_all add: split_on_Cons_sep)

lemma item_lines_no_newline: "item_ok it \<Longrightarrow> list_all (\<lambda>l. CHR 0x0A \<notin> set l) (item_lines it)"
proof -
  have m: "CHR 0x0A \<notin> set (member_line kind m)" if "member_ok m" "CHR 0x0A \<notin> set kind" for kind m
    using that name_ok_no_sep [of "fst m"] snapshot_no_sep [of "snd m"]
    by (cases m) (auto simp: member_line_def member_ok_def)
  have c: "CHR 0x0A \<notin> set (case_line c)" if "case snd c of None \<Rightarrow> name_ok (fst c) | Some t \<Rightarrow> member_ok (fst c, t)" for c
    using that name_ok_no_sep [of "fst c"] snapshot_no_sep [of "the (snd c)"]
    by (cases c) (auto simp: case_line_def member_ok_def split: option.splits)
  have s: "CHR 0x0A \<notin> set (sem_text s)" if "sem_ok s" for s
    using that by (cases s) (auto simp: sem_ok_def sem_text_def)
  assume ok: "item_ok it"
  show ?thesis
  proof (cases it)
    case (IRecord n fs)
    then show ?thesis using ok m [of _ "''field''"] name_ok_no_sep [of n] by (auto simp: list_all_iff)
  next
    case (IVariant n cs)
    have "CHR 0x0A \<notin> set (case_line d)" if "d \<in> set cs" for d
      using c [of d] that ok IVariant
      by (cases d; cases "snd d") (auto simp: list_all_iff)
    then show ?thesis using ok IVariant name_ok_no_sep [of n] by (auto simp: list_all_iff)
  next
    case (IFunc n ps ret sem)
    then show ?thesis
      using ok m [of _ "''param''"] s name_ok_no_sep [of n] snapshot_no_sep [of ret]
      by (auto simp: list_all_iff member_ok_def split: option.splits)
  next
    case (IResource n)
    then show ?thesis using ok name_ok_no_sep [of n] by auto
  qed
qed

lemma parse_render:
  assumes "list_all item_ok items"
  shows "parse_snapshot (render items) = Inr items"
proof -
  let ?ls = "concat (map item_lines items)"
  have "list_all (\<lambda>l. CHR 0x0A \<notin> set l) ?ls"
    using assms item_lines_no_newline by (fastforce simp: list_all_iff)
  then have split: "split_on (CHR 0x0A) (render items) = ?ls @ [[]]"
    unfolding render_def by (rule split_on_terminated)
  obtain k l st where "parse_lines 1 0 (?ls @ [[]]) ([], None) = parse_lines k l [[]] st" "settles st items"
    using parse_items [OF assms, of "([], None)" "[]" 1 0 "[[]]"] by (auto simp: settles_def)
  then show ?thesis
    using split by (cases st) (auto simp: parse_snapshot_def settles_def at_line_def split: option.splits)
qed

end
