(* ===== verification/Surface.thy ===== *)
theory Surface
  imports Snapshot
begin

text \<open>
  The surface contract between host and guest: \<open>crates/guestlang-host/src/schema.rs\<close>
  (surface strings, the component's export surface, the version-skew check) and the
  projection half of \<open>hostgen.rs\<close> (the universe, its flat arities and kebab-cased surface,
  the contract check and the startup gate \<open>validate_committed\<close>).

  The component type of the runtime is third-party data; it enters as the list of exports
  with the shape the code matches on.  Whether a character outside ASCII is upper case is
  the table \<open>other_upper\<close> of the Unicode data, a parameter of \<open>kebab\<close>.
\<close>

section \<open>Surface strings\<close>

type_synonym surface = "(string \<times> nat) list"

definition EXPECTED_DEMO_SURFACE :: string where
  "EXPECTED_DEMO_SURFACE =
    ''double/1,is-big/1,adder/2,double-area/1,run-paps/1,total/3,pick/3,str-len-demo/1,greet/1,get-user/1,'' @
    ''watch-counts/1,watch-users/1,user-valid/4,order-error-valid/2,user-complete/4,verify-witness/1,place-order/1''"

definition parse_surface :: "string \<Rightarrow> surface" where
  "parse_surface s = List.map_filter (\<lambda>entry.
     Option.bind (rsplit_once (CHR ''/'') entry) (\<lambda>(f, n).
     Option.bind (parse_u64 n) (\<lambda>k. Some (f, k)))) (split_on (CHR '','') s)"

definition render_surface :: "surface \<Rightarrow> string" where
  "render_surface pairs = join '','' (map (\<lambda>(f, n). f @ ''/'' @ show_nat n) pairs)"

section \<open>The guest's surface\<close>

datatype abi_type = AbiRecord "string list" | AbiVariant | AbiLeaf

datatype export = ComponentFunc "(string \<times> abi_type) list" | OtherExport

definition abi_flat_arity :: "abi_type \<Rightarrow> nat" where
  "abi_flat_arity t = (case t of AbiRecord fs \<Rightarrow> length fs | AbiVariant \<Rightarrow> 2 | AbiLeaf \<Rightarrow> 1)"

definition surface_of :: "(string \<times> export) list \<Rightarrow> surface" where
  "surface_of exports = List.map_filter (\<lambda>(name, it). case it of
       ComponentFunc params \<Rightarrow> Some (name, sum_list (map (\<lambda>(_, t). abi_flat_arity t) params))
     | OtherExport \<Rightarrow> None) exports"

datatype skew_detail = MissingExport string nat | ArityMismatch string nat nat | Vacuous

record schema_skew =
  sk_expected :: string
  sk_actual :: string
  sk_detail :: skew_detail

text \<open>The arity of the first entry of that name.\<close>

definition find_arity :: "surface \<Rightarrow> string \<Rightarrow> nat option" where
  "find_arity s f = map_option snd (find (\<lambda>(g, _). g = f) s)"

text \<open>The walk over the expected surface, left at the first divergence.\<close>

fun verify_loop :: "(skew_detail \<Rightarrow> schema_skew) \<Rightarrow> surface \<Rightarrow> surface \<Rightarrow> schema_skew + unit" where
  "verify_loop skew got [] = Inr ()"
| "verify_loop skew got ((f, n) # want) = (case find_arity got f of
       None \<Rightarrow> Inl (skew (MissingExport f n))
     | Some m \<Rightarrow> if m \<noteq> n then Inl (skew (ArityMismatch f n m)) else verify_loop skew got want)"

definition verify_surface :: "(string \<times> export) list \<Rightarrow> string \<Rightarrow> schema_skew + unit" where
  "verify_surface exports expected =
     (let want = parse_surface expected; got = surface_of exports;
          skew = (\<lambda>d. \<lparr>sk_expected = expected, sk_actual = render_surface got, sk_detail = d\<rparr>)
      in verify_loop skew got want)"

section \<open>The universe and its surface\<close>

text \<open>\<open>char::is_uppercase\<close>, with the Unicode table for the characters outside ASCII.\<close>

definition is_uppercase :: "(string \<Rightarrow> bool) \<Rightarrow> string \<Rightarrow> bool" where
  "is_uppercase other_upper c = (case c of
       [b] \<Rightarrow> if (of_char b :: nat) < 128 then is_ascii_upper b else other_upper c
     | _ \<Rightarrow> other_upper c)"

definition kebab :: "(string \<Rightarrow> bool) \<Rightarrow> string \<Rightarrow> string" where
  "kebab other_upper s = concat (map (\<lambda>(i, c).
     (if is_uppercase other_upper c \<and> 0 < i then ''-'' else []) @ map to_ascii_lower c)
     (enumerate 0 (chars s)))"

record universe =
  uitems :: "item list"

definition universe_new :: "item list \<Rightarrow> universe" where
  "universe_new its = \<lparr>uitems = its\<rparr>"

fun item_name :: "item \<Rightarrow> string" where
  "item_name (IRecord n fs) = n"
| "item_name (IVariant n cs) = n"
| "item_name (IFunc n ps ret sem) = n"
| "item_name (IResource n) = n"

definition universe_find :: "universe \<Rightarrow> string \<Rightarrow> item option" where
  "universe_find u name = find (\<lambda>it. item_name it = name) (uitems u)"

text \<open>The only failure is a named type that does not resolve; the error carries the name.\<close>

definition flat_arity :: "universe \<Rightarrow> sty \<Rightarrow> string + nat" where
  "flat_arity u t = (case t of
       SNamed n \<Rightarrow> (case universe_find u n of
           Some (IRecord _ fs) \<Rightarrow> Inr (length fs)
         | Some (IVariant _ _) \<Rightarrow> Inr 2
         | Some _ \<Rightarrow> Inr 1
         | None \<Rightarrow> Inl n)
     | _ \<Rightarrow> Inr 1)"

fun params_arity :: "universe \<Rightarrow> (string \<times> sty) list \<Rightarrow> nat \<Rightarrow> string + nat" where
  "params_arity u [] arity = Inr arity"
| "params_arity u ((_, t) # ps) arity = and_then (flat_arity u t) (\<lambda>a. params_arity u ps (arity + a))"

fun entries_loop :: "(string \<Rightarrow> bool) \<Rightarrow> universe \<Rightarrow> item list \<Rightarrow> string + surface" where
  "entries_loop up u [] = Inr []"
| "entries_loop up u (IFunc name params _ _ # its) =
     and_then (params_arity u params 0) (\<lambda>a.
     and_then (entries_loop up u its) (\<lambda>rest. Inr ((kebab up name, a) # rest)))"
| "entries_loop up u (_ # its) = entries_loop up u its"

definition surface_entries :: "(string \<Rightarrow> bool) \<Rightarrow> universe \<Rightarrow> string + surface" where
  "surface_entries up u = entries_loop up u (uitems u)"

section \<open>The contract check\<close>

record contract_coverage =
  covered :: surface
  out_of_contract :: surface

fun contract_loop :: "(skew_detail \<Rightarrow> schema_skew) \<Rightarrow> surface \<Rightarrow> surface \<Rightarrow> contract_coverage \<Rightarrow>
    schema_skew + contract_coverage" where
  "contract_loop skew contract [] cov = Inr cov"
| "contract_loop skew contract ((f, n) # entries) cov = (case find_arity contract f of
       None \<Rightarrow> contract_loop skew contract entries (cov\<lparr>out_of_contract := out_of_contract cov @ [(f, n)]\<rparr>)
     | Some m \<Rightarrow>
         if m \<noteq> n then Inl (skew (ArityMismatch f n m))
         else contract_loop skew contract entries (cov\<lparr>covered := covered cov @ [(f, n)]\<rparr>))"

definition check_contract :: "surface \<Rightarrow> string \<Rightarrow> schema_skew + contract_coverage" where
  "check_contract entries expected =
     (let contract = parse_surface expected;
          skew = (\<lambda>d. \<lparr>sk_expected = expected, sk_actual = render_surface entries, sk_detail = d\<rparr>)
      in and_then (contract_loop skew contract entries \<lparr>covered = [], out_of_contract = []\<rparr>) (\<lambda>cov.
         if covered cov = [] then Inl (skew Vacuous) else Inr cov))"

datatype hostgen_error = ParseFailed parse_error | SurfaceUnresolved string | ContractSkew schema_skew

definition validate_committed ::
  "(string \<Rightarrow> bool) \<Rightarrow> string \<Rightarrow> string \<Rightarrow> hostgen_error + contract_coverage" where
  "validate_committed up snapshot_text expected_surface =
     and_then (map_err ParseFailed (parse_snapshot snapshot_text)) (\<lambda>its.
     and_then (map_err SurfaceUnresolved (surface_entries up (universe_new its))) (\<lambda>entries.
       map_err ContractSkew (check_contract entries expected_surface)))"

section \<open>What the checks establish\<close>

lemma verify_loop_ok:
  "verify_loop skew got want = Inr () \<longleftrightarrow> list_all (\<lambda>(f, n). find_arity got f = Some n) want"
  by (induction skew got want rule: verify_loop.induct) (auto split: option.splits)

lemma verify_loop_err: "verify_loop skew got want = Inl e \<Longrightarrow> \<exists>d. e = skew d"
  by (induction skew got want rule: verify_loop.induct) (auto split: option.splits if_splits)

lemma verify_surface_err: "verify_surface exports expected = Inl e \<Longrightarrow> sk_expected e = expected"
  by (auto simp: verify_surface_def Let_def dest: verify_loop_err)

definition agrees :: "surface \<Rightarrow> string \<times> nat \<Rightarrow> bool" where
  "agrees contract e = (case find_arity contract (fst e) of None \<Rightarrow> True | Some m \<Rightarrow> m = snd e)"

lemma contract_loop_ok:
  "contract_loop skew contract entries cov = Inr cov' \<longleftrightarrow>
    list_all (agrees contract) entries \<and>
    cov' = cov\<lparr>covered := covered cov @ filter (\<lambda>e. find_arity contract (fst e) \<noteq> None) entries,
      out_of_contract := out_of_contract cov @ filter (\<lambda>e. find_arity contract (fst e) = None) entries\<rparr>"
proof (induction skew contract entries cov rule: contract_loop.induct)
  case (2 skew contract f n entries cov)
  then show ?case by (cases "find_arity contract f") (auto simp: agrees_def)
qed auto

lemma contract_loop_err:
  "contract_loop skew contract entries cov = Inl e \<Longrightarrow>
    \<exists>f n m. (f, n) \<in> set entries \<and> find_arity contract f = Some m \<and> m \<noteq> n \<and> e = skew (ArityMismatch f n m)"
  by (induction skew contract entries cov rule: contract_loop.induct) (auto split: option.splits if_splits)

lemma find_arity_mem: "find_arity s f = Some n \<Longrightarrow> (f, n) \<in> set s"
  by (auto simp: find_arity_def find_Some_iff in_set_conv_nth)

lemma find_arity_None: "find_arity s f = None \<longleftrightarrow> f \<notin> fst ` set s"
  by (induction s) (auto simp: find_arity_def)

lemma find_arity_distinct: "(f, n) \<in> set s \<Longrightarrow> distinct (map fst s) \<Longrightarrow> find_arity s f = Some n"
proof (induction s)
  case (Cons a s)
  then show ?case by (cases a) (force simp: find_arity_def)
qed simp

definition surface_name_ok :: "string \<Rightarrow> bool" where
  "surface_name_ok f \<longleftrightarrow> CHR '','' \<notin> set f"

lemma parse_render_surface:
  assumes "list_all (\<lambda>(f, n). surface_name_ok f \<and> n < 2 ^ 64) ps"
  shows "parse_surface (render_surface ps) = ps"
proof -
  let ?entry = "\<lambda>(f, n). f @ ''/'' @ show_nat n"
  let ?read = "\<lambda>entry. Option.bind (rsplit_once (CHR ''/'') entry) (\<lambda>(f, n).
     Option.bind (parse_u64 n) (\<lambda>k. Some (f, k)))"
  have no: "CHR '','' \<notin> set (show_nat n)" "CHR ''/'' \<notin> set (show_nat n)" for n
    by (simp_all add: show_nat_no_sep is_ascii_digit_def)
  have read: "List.map_filter ?read (map ?entry ps) = ps"
    using assms no(2) by (induction ps) (auto simp: List.map_filter_simps rsplit_once_last parse_show_nat)
  show ?thesis
  proof (cases "ps = []")
    case True
    then show ?thesis by (simp add: parse_surface_def render_surface_def List.map_filter_simps)
  next
    case False
    have "list_all (\<lambda>w. CHR '','' \<notin> set w) (map ?entry ps)"
      using assms no(1) by (auto simp: list_all_iff surface_name_ok_def)
    then have "split_on (CHR '','') (render_surface ps) = map ?entry ps"
      unfolding render_surface_def using False by (intro split_on_join) auto
    then show ?thesis using read by (simp add: parse_surface_def)
  qed
qed

end
