(* ===== verification/Json.thy ===== *)
theory Json
  imports Text
begin

text \<open>
  JSON values as the sources use them.  The JSON crate is third-party code, so a client
  takes the operations it calls as a record \<open>json_ops\<close>: the accessors (indexing yields the
  null value on a missing key), the constructors of the \<open>json!\<close> macro, the parser and the
  pretty printer.  \<open>doc_ops\<close> is a concrete instance on a small document type, for
  evaluating the clients; its text form is left open.
\<close>

record 'j json_ops =
  js_index :: "'j \<Rightarrow> string \<Rightarrow> 'j"
  js_str :: "'j \<Rightarrow> string option"
  js_array :: "'j \<Rightarrow> 'j list option"
  js_object :: "'j \<Rightarrow> (string \<Rightarrow> 'j option) option"
  js_mk_str :: "string \<Rightarrow> 'j"
  js_mk_num :: "nat \<Rightarrow> 'j"
  js_mk_arr :: "'j list \<Rightarrow> 'j"
  js_mk_obj :: "(string \<times> 'j) list \<Rightarrow> 'j"
  js_parse :: "string \<Rightarrow> 'j option"
  js_pretty :: "'j \<Rightarrow> string"

text \<open>What the crate documents of reading back a value that \<open>json!\<close> built.\<close>

definition json_laws :: "'j json_ops \<Rightarrow> bool" where
  "json_laws js \<longleftrightarrow>
    (\<forall>s. js_str js (js_mk_str js s) = Some s) \<and>
    (\<forall>xs. js_array js (js_mk_arr js xs) = Some xs) \<and>
    (\<forall>fs k v. distinct (map fst fs) \<longrightarrow> (k, v) \<in> set fs \<longrightarrow> js_index js (js_mk_obj js fs) k = v) \<and>
    (\<forall>fs k k'. k \<notin> fst ` set fs \<longrightarrow> js_str js (js_index js (js_index js (js_mk_obj js fs) k) k') = None)"

lemma json_laws_simps:
  assumes "json_laws js"
  shows "js_str js (js_mk_str js s) = Some s" "js_array js (js_mk_arr js xs) = Some xs"
    "distinct (map fst fs) \<Longrightarrow> (k, v) \<in> set fs \<Longrightarrow> js_index js (js_mk_obj js fs) k = v"
    "k \<notin> fst ` set fs \<Longrightarrow> js_str js (js_index js (js_index js (js_mk_obj js fs) k) k') = None"
  using assms unfolding json_laws_def by blast+

datatype json_doc = JNull | JNum nat | JStr string | JArr "json_doc list" | JObj "(string \<times> json_doc) list"

definition doc_ops :: "(string \<Rightarrow> json_doc option) \<Rightarrow> (json_doc \<Rightarrow> string) \<Rightarrow> json_doc json_ops" where
  "doc_ops parse pretty = \<lparr>
     js_index = (\<lambda>j k. case j of JObj fs \<Rightarrow> (case map_of fs k of Some v \<Rightarrow> v | None \<Rightarrow> JNull) | _ \<Rightarrow> JNull),
     js_str = (\<lambda>j. case j of JStr s \<Rightarrow> Some s | _ \<Rightarrow> None),
     js_array = (\<lambda>j. case j of JArr xs \<Rightarrow> Some xs | _ \<Rightarrow> None),
     js_object = (\<lambda>j. case j of JObj fs \<Rightarrow> Some (map_of fs) | _ \<Rightarrow> None),
     js_mk_str = JStr, js_mk_num = JNum, js_mk_arr = JArr, js_mk_obj = JObj,
     js_parse = parse, js_pretty = pretty\<rparr>"

lemma doc_ops_simps [simp]:
  "js_index (doc_ops p q) (JObj fs) k = (case map_of fs k of Some v \<Rightarrow> v | None \<Rightarrow> JNull)"
  "js_index (doc_ops p q) JNull k = JNull"
  "js_str (doc_ops p q) (JStr s) = Some s"
  "js_str (doc_ops p q) JNull = None"
  "js_array (doc_ops p q) (JArr xs) = Some xs"
  "js_object (doc_ops p q) (JObj fs) = Some (map_of fs)"
  "js_mk_str (doc_ops p q) = JStr" "js_mk_num (doc_ops p q) = JNum"
  "js_mk_arr (doc_ops p q) = JArr" "js_mk_obj (doc_ops p q) = JObj"
  "js_parse (doc_ops p q) = p" "js_pretty (doc_ops p q) = q"
  by (simp_all add: doc_ops_def)

lemma doc_ops_laws: "json_laws (doc_ops p q)"
  by (force simp: json_laws_def split: option.splits dest: map_of_SomeD)

end
