(* ===== verification/Oracle.thy ===== *)
theory Oracle
  imports Surface Json
begin

text \<open>
  The differential oracle: the generated comparison contract
  (\<open>oracle_mirror_generated.rs\<close>) and the input side of the driver around it
  (\<open>crates/oracle-runner/src/main.rs\<close>): reading manifest rows and the flat-argument
  conventions.  The replay itself is \<open>Replay\<close>, on the component runtime.

  Third-party code enters as parameters: the accessors of parsed JSON values
  (\<open>json_ops\<close>), JSON string quoting, and the text of floating-point numbers
  (\<open>float_ops\<close>).  The runtime's value type is the
  datatype \<open>wval\<close> of the cases the code matches; \<open>WOther\<close> carries the debug text of the rest.
\<close>

section \<open>Outcomes and comparison\<close>

datatype compare_mode = Ignore | Identity | Full

datatype error_id = UnknownFn | ArityDrift | Trap

fun error_id_str :: "error_id \<Rightarrow> string" where
  "error_id_str UnknownFn = ''unknownFn''"
| "error_id_str ArityDrift = ''arityDrift''"
| "error_id_str Trap = ''trap''"

record outcome =
  oc_error :: "error_id option"
  oc_payload :: string

definition outcome_value :: "string \<Rightarrow> outcome" where
  "outcome_value s = \<lparr>oc_error = None, oc_payload = s\<rparr>"

definition outcome_trap :: outcome where
  "outcome_trap = \<lparr>oc_error = Some Trap, oc_payload = []\<rparr>"

datatype err_pat = PatAny | PatNone | PatSome

datatype compare_result = Pass | Fail | PayloadEq | IdEq | IdAndPayloadEq

record compare_row =
  cr_mode :: compare_mode
  cr_expected :: err_pat
  cr_got :: err_pat
  cr_result :: compare_result

definition compare_row :: "compare_mode \<Rightarrow> err_pat \<Rightarrow> err_pat \<Rightarrow> compare_result \<Rightarrow> compare_row" where
  "compare_row m e g r = \<lparr>cr_mode = m, cr_expected = e, cr_got = g, cr_result = r\<rparr>"

definition COMPARE_TABLE :: "compare_row list" where
  "COMPARE_TABLE =
    [compare_row Ignore PatSome PatAny Pass,
     compare_row Ignore PatAny PatSome Pass,
     compare_row Ignore PatNone PatNone PayloadEq,
     compare_row Identity PatSome PatSome IdEq,
     compare_row Identity PatNone PatNone Pass,
     compare_row Identity PatAny PatAny Fail,
     compare_row Full PatSome PatSome IdAndPayloadEq,
     compare_row Full PatNone PatNone PayloadEq,
     compare_row Full PatAny PatAny Fail]"

fun pat_matches :: "err_pat \<Rightarrow> error_id option \<Rightarrow> bool" where
  "pat_matches PatAny _ = True"
| "pat_matches PatNone None = True"
| "pat_matches PatSome (Some _) = True"
| "pat_matches _ _ = False"

fun compare_apply :: "compare_result \<Rightarrow> outcome \<Rightarrow> outcome \<Rightarrow> bool" where
  "compare_apply Pass e g = True"
| "compare_apply Fail e g = False"
| "compare_apply PayloadEq e g = (oc_payload e = oc_payload g)"
| "compare_apply IdEq e g = (case (oc_error e, oc_error g) of (Some x, Some y) \<Rightarrow> x = y | _ \<Rightarrow> False)"
| "compare_apply IdAndPayloadEq e g = (case (oc_error e, oc_error g) of
     (Some x, Some y) \<Rightarrow> x = y \<and> oc_payload e = oc_payload g | _ \<Rightarrow> False)"

fun compare_loop :: "compare_row list \<Rightarrow> compare_mode \<Rightarrow> outcome \<Rightarrow> outcome \<Rightarrow> bool" where
  "compare_loop [] mode e g = False"
| "compare_loop (row # rows) mode e g =
     (if cr_mode row = mode \<and> pat_matches (cr_expected row) (oc_error e) \<and> pat_matches (cr_got row) (oc_error g)
      then compare_apply (cr_result row) e g
      else compare_loop rows mode e g)"

definition compare_outcomes :: "compare_mode \<Rightarrow> outcome \<Rightarrow> outcome \<Rightarrow> bool" where
  "compare_outcomes mode e g = compare_loop COMPARE_TABLE mode e g"

section \<open>Classification and verdicts\<close>

datatype divergence_category =
    ValueMismatch | ExpectedValueGotError | ExpectedErrorGotValue | ErrorIdentityMismatch | ErrorPayloadMismatch

fun category_str :: "divergence_category \<Rightarrow> string" where
  "category_str ValueMismatch = ''valueMismatch''"
| "category_str ExpectedValueGotError = ''expectedValueGotError''"
| "category_str ExpectedErrorGotValue = ''expectedErrorGotValue''"
| "category_str ErrorIdentityMismatch = ''errorIdentityMismatch''"
| "category_str ErrorPayloadMismatch = ''errorPayloadMismatch''"

datatype classify_result = Fixed divergence_category | IdDependent

definition CLASSIFY_TABLE :: "(err_pat \<times> err_pat \<times> classify_result) list" where
  "CLASSIFY_TABLE =
    [(PatNone, PatNone, Fixed ValueMismatch),
     (PatNone, PatSome, Fixed ExpectedValueGotError),
     (PatSome, PatNone, Fixed ExpectedErrorGotValue),
     (PatSome, PatSome, IdDependent)]"

fun classify_loop ::
  "(err_pat \<times> err_pat \<times> classify_result) list \<Rightarrow> outcome \<Rightarrow> outcome \<Rightarrow> divergence_category" where
  "classify_loop [] e g = ErrorIdentityMismatch"
| "classify_loop ((pe, pg, r) # rows) e g =
     (if pat_matches pe (oc_error e) \<and> pat_matches pg (oc_error g) then
        (case r of
           Fixed c \<Rightarrow> c
         | IdDependent \<Rightarrow> (case (oc_error e, oc_error g) of
             (Some x, Some y) \<Rightarrow> if x = y then ErrorPayloadMismatch else ErrorIdentityMismatch
           | _ \<Rightarrow> ErrorIdentityMismatch))
      else classify_loop rows e g)"

definition classify :: "outcome \<Rightarrow> outcome \<Rightarrow> divergence_category" where
  "classify e g = classify_loop CLASSIFY_TABLE e g"

fun first_diff_loop :: "nat \<Rightarrow> string list \<Rightarrow> string list \<Rightarrow> nat option" where
  "first_diff_loop i [] [] = None"
| "first_diff_loop i [] (_ # _) = Some i"
| "first_diff_loop i (_ # _) [] = Some i"
| "first_diff_loop i (x # xs) (y # ys) = (if x = y then first_diff_loop (i + 1) xs ys else Some i)"

definition first_diff_at :: "string \<Rightarrow> string \<Rightarrow> nat option" where
  "first_diff_at a b = first_diff_loop 0 (chars a) (chars b)"

record divergence =
  dv_expected :: outcome
  dv_observed :: outcome
  dv_category :: divergence_category
  dv_payload_diff_at :: "nat option"

definition verdict :: "compare_mode \<Rightarrow> outcome \<Rightarrow> outcome \<Rightarrow> divergence option" where
  "verdict mode e g =
     (if compare_outcomes mode e g then None
      else Some \<lparr>dv_expected = e, dv_observed = g, dv_category = classify e g,
                 dv_payload_diff_at = first_diff_at (oc_payload e) (oc_payload g)\<rparr>)"

definition outcome_json :: "(string \<Rightarrow> string) \<Rightarrow> outcome \<Rightarrow> string" where
  "outcome_json json_str o' =
     ''{\"error\": '' @ (case oc_error o' of None \<Rightarrow> ''null'' | Some e \<Rightarrow> json_str (error_id_str e)) @
     '', \"payload\": '' @ json_str (oc_payload o') @ ''}''"

definition verdict_json :: "(string \<Rightarrow> string) \<Rightarrow> divergence option \<Rightarrow> string \<Rightarrow> string" where
  "verdict_json json_str v schema_surface = (case v of
       None \<Rightarrow> ''{\"ok\": true, \"schema\": '' @ json_str schema_surface @ ''}''
     | Some d \<Rightarrow>
         ''{\"ok\": false, \"category\": '' @ json_str (category_str (dv_category d)) @
         '', \"expected\": '' @ outcome_json json_str (dv_expected d) @
         '', \"observed\": '' @ outcome_json json_str (dv_observed d) @
         '', \"payload_diff_at\": '' @ (case dv_payload_diff_at d of None \<Rightarrow> ''null'' | Some n \<Rightarrow> show_nat n) @
         '', \"schema\": '' @ json_str schema_surface @ ''}'')"

section \<open>The serialized forms\<close>

datatype wval =
    WBool bool | WU8 u8 | WU16 u16 | WU32 u32 | WU64 u64 | WS8 i8 | WS16 i16 | WS32 i32 | WS64 i64
  | WFloat32 u32 | WFloat64 u64 | WChar string | WString string
  | WOption "wval option" | WRecord "(string \<times> wval) list" | WList "wval list" | WStream
  | WOk "wval option" | WErr "wval option" | WVariant string "wval option" | WOther string

record float_ops =
  f32_text :: "u32 \<Rightarrow> string"
  f64_text :: "u64 \<Rightarrow> string"
  f64_parse :: "string \<Rightarrow> u64 option"

definition show_int :: "int \<Rightarrow> string" where
  "show_int i = (if i < 0 then ''-'' @ show_nat (nat (- i)) else show_nat (nat i))"

fun ser_val :: "float_ops \<Rightarrow> wval \<Rightarrow> string" where
  "ser_val fo (WBool b) = (if b then ''1'' else ''0'')"
| "ser_val fo (WU8 n) = show_nat (unat n)"
| "ser_val fo (WU16 n) = show_nat (unat n)"
| "ser_val fo (WU32 n) = show_nat (unat n)"
| "ser_val fo (WU64 n) = show_nat (unat n)"
| "ser_val fo (WS8 n) = show_int (sint n)"
| "ser_val fo (WS16 n) = show_int (sint n)"
| "ser_val fo (WS32 n) = show_int (sint n)"
| "ser_val fo (WS64 n) = show_int (sint n)"
| "ser_val fo (WFloat32 f) = f32_text fo f"
| "ser_val fo (WFloat64 f) = f64_text fo f"
| "ser_val fo (WChar c) = c"
| "ser_val fo (WString s) = s"
| "ser_val fo (WOption None) = ''none''"
| "ser_val fo (WOption (Some v)) = ''some('' @ ser_val fo v @ '')''"
| "ser_val fo (WRecord fs) = ''{ '' @ join '', '' (map (\<lambda>(k, v). k @ ''='' @ ser_val fo v) fs) @ '' }''"
| "ser_val fo (WList vs) = ''('' @ join '','' (map (ser_val fo) vs) @ '')''"
| "ser_val fo WStream = ''<stream>''"
| "ser_val fo (WOk None) = ''ok''"
| "ser_val fo (WOk (Some v)) = ''ok('' @ ser_val fo v @ '')''"
| "ser_val fo (WErr None) = ''err''"
| "ser_val fo (WErr (Some v)) = ''err('' @ ser_val fo v @ '')''"
| "ser_val fo (WVariant n None) = n"
| "ser_val fo (WVariant n (Some v)) = n @ ''('' @ ser_val fo v @ '')''"
| "ser_val fo (WOther d) = d"

section \<open>Manifest rows\<close>

text \<open>The driver's input faults, with the row and field they name.\<close>

datatype oracle_fault =
    ReadFailed string
  | ParseFault string
  | TooFewRows nat
  | MissingStr nat string
  | MissingArr nat string
  | NonStringArg nat
  | MissingArg nat string
  | BadU64 nat string string
  | BadF64 nat string string

definition row_str :: "'j json_ops \<Rightarrow> 'j \<Rightarrow> nat \<Rightarrow> string \<Rightarrow> oracle_fault + string" where
  "row_str js row i key = ok_or (js_str js (js_index js row key)) (MissingStr i key)"

definition row_arr :: "'j json_ops \<Rightarrow> 'j \<Rightarrow> nat \<Rightarrow> string \<Rightarrow> oracle_fault + 'j list" where
  "row_arr js row i key = ok_or (js_array js (js_index js row key)) (MissingArr i key)"

fun surface_loop :: "'j json_ops \<Rightarrow> nat \<Rightarrow> 'j list \<Rightarrow> surface \<Rightarrow> oracle_fault + surface" where
  "surface_loop js i [] seen = Inr seen"
| "surface_loop js i (row # rows) seen =
     and_then (row_str js row i ''fn'') (\<lambda>f.
     and_then (row_arr js row i ''args'') (\<lambda>args.
       surface_loop js (i + 1) rows
         (if list_ex (\<lambda>(g, _). g = f) seen then seen else seen @ [(f, length args)])))"

definition manifest_surface :: "'j json_ops \<Rightarrow> 'j list \<Rightarrow> oracle_fault + string" where
  "manifest_surface js rows = and_then (surface_loop js 0 rows []) (\<lambda>seen.
     Inr (join '','' (map (\<lambda>(f, n). f @ ''/'' @ show_nat n) seen)))"

record mrow =
  mr_fn :: string
  mr_args :: "string list"
  mr_expected :: string

fun load_args :: "'j json_ops \<Rightarrow> nat \<Rightarrow> 'j list \<Rightarrow> oracle_fault + string list" where
  "load_args js i [] = Inr []"
| "load_args js i (a # as) =
     and_then (ok_or (js_str js a) (NonStringArg i)) (\<lambda>s.
     and_then (load_args js i as) (\<lambda>ss. Inr (s # ss)))"

fun load_rows :: "'j json_ops \<Rightarrow> nat \<Rightarrow> 'j list \<Rightarrow> oracle_fault + mrow list" where
  "load_rows js i [] = Inr []"
| "load_rows js i (r # rs) =
     and_then (row_arr js r i ''args'') (\<lambda>arr.
     and_then (load_args js i arr) (\<lambda>args.
     and_then (row_str js r i ''fn'') (\<lambda>f.
     and_then (row_str js r i ''expected'') (\<lambda>expected.
     and_then (load_rows js (i + 1) rs) (\<lambda>rows.
       Inr (\<lparr>mr_fn = f, mr_args = args, mr_expected = expected\<rparr> # rows))))))"

text \<open>The file's text or its I/O error, and the JSON parser, are arguments.\<close>

definition load_manifest ::
  "'j json_ops \<Rightarrow> (string \<Rightarrow> string + 'j list) \<Rightarrow> string + string \<Rightarrow> oracle_fault + mrow list" where
  "load_manifest js parse_json contents =
     and_then (map_err ReadFailed contents) (\<lambda>raw.
     and_then (map_err ParseFault (parse_json raw)) (\<lambda>rows.
       if length rows < 100 then Inl (TooFewRows (length rows)) else load_rows js 0 rows))"

section \<open>The flat-argument conventions\<close>

definition flat_arg :: "string list \<Rightarrow> nat \<Rightarrow> string \<Rightarrow> oracle_fault + string" where
  "flat_arg strs idx what = (if idx < length strs then Inr (strs ! idx) else Inl (MissingArg idx what))"

definition arg_u64 :: "string list \<Rightarrow> nat \<Rightarrow> string \<Rightarrow> oracle_fault + u64" where
  "arg_u64 strs idx what = and_then (flat_arg strs idx what) (\<lambda>s.
     and_then (ok_or (parse_u64 s) (BadU64 idx what s)) (\<lambda>n. Inr (word_of_nat n)))"

definition arg_f64 :: "float_ops \<Rightarrow> string list \<Rightarrow> nat \<Rightarrow> string \<Rightarrow> oracle_fault + u64" where
  "arg_f64 fo strs idx what = and_then (flat_arg strs idx what) (\<lambda>s. ok_or (f64_parse fo s) (BadF64 idx what s))"

definition user_record :: "string list \<Rightarrow> oracle_fault + wval" where
  "user_record strs =
     and_then (arg_u64 strs 0 ''user id'') (\<lambda>uid.
     and_then (flat_arg strs 1 ''name'') (\<lambda>name.
     and_then (flat_arg strs 2 ''email'') (\<lambda>email.
     and_then (flat_arg strs 3 ''tags'') (\<lambda>tags.
       Inr (WRecord [(''id'', WU64 uid), (''name'', WString name), (''email'', WString email),
         (''tags'', WList (map WString (split_on (CHR '','') tags)))])))))"

definition order_error_variant :: "float_ops \<Rightarrow> string list \<Rightarrow> oracle_fault + wval" where
  "order_error_variant fo strs =
     and_then (flat_arg strs 0 ''order-error discr'') (\<lambda>d.
       if d = ''0'' then Inr (WVariant ''empty-cart'' None)
       else if d = ''1'' then
         and_then (arg_u64 strs 1 ''invalid-item payload'') (\<lambda>n. Inr (WVariant ''invalid-item'' (Some (WU64 n))))
       else
         and_then (arg_f64 fo strs 1 ''insufficient-funds payload'') (\<lambda>x.
           Inr (WVariant ''insufficient-funds'' (Some (WFloat64 x)))))"

fun plain_args :: "string \<Rightarrow> string list \<Rightarrow> nat \<Rightarrow> string list \<Rightarrow> oracle_fault + wval list" where
  "plain_args f strs i [] = Inr []"
| "plain_args f strs i (a # as) =
     and_then (if f = ''pick'' \<and> i = 0 \<and> (a = ''0'' \<or> a = ''1'') then Inr (WBool (a = ''1''))
               else and_then (arg_u64 strs i ''u64 arg'') (\<lambda>n. Inr (WU64 n))) (\<lambda>v.
     and_then (plain_args f strs (i + 1) as) (\<lambda>vs. Inr (v # vs)))"

definition build_args :: "float_ops \<Rightarrow> string \<Rightarrow> string list \<Rightarrow> oracle_fault + wval list" where
  "build_args fo f strs =
     (if f = ''user-valid'' \<or> f = ''user-complete'' then and_then (user_record strs) (\<lambda>v. Inr [v])
      else if f = ''order-error-valid'' then and_then (order_error_variant fo strs) (\<lambda>v. Inr [v])
      else plain_args f strs 0 strs)"

lemma load_rows_length: "load_rows js i rs = Inr rows \<Longrightarrow> length rows = length rs"
  by (induction rs arbitrary: i rows) (auto simp: and_then_eq_Inr)

end
