(* ===== verification/Runtime.thy ===== *)
theory Runtime
  imports Oracle
begin

text \<open>
  The component runtime of the host (\<open>crates/guestlang-host/src/lib.rs\<close> and \<open>runtime.rs\<close>):
  capability sets and what they wire up, the construction of a runtime with its fuel and
  its epoch deadline, instantiation with and without the surface check, untyped calls with
  their pre-filled result slots, and the epoch threads that run on the shared engine.

  The component engine is third-party code: compiling, linking, running and the permission
  flags are the record \<open>wasmtime\<close>.  What the code relies on of them is stated where a
  theorem needs it (\<open>epoch_law\<close>, \<open>flags_ok\<close>).  The engine's epoch is a natural number, and
  one interval of wall-clock time is the step \<open>tick\<close>, in which each thread increments it.
\<close>

section \<open>Capabilities\<close>

record capability_set =
  cap_bits :: u64

definition CAP_NONE :: capability_set where "CAP_NONE = \<lparr>cap_bits = 0\<rparr>"
definition CAP_STDIO :: capability_set where "CAP_STDIO = \<lparr>cap_bits = 1\<rparr>"
definition CAP_FS_READ :: capability_set where "CAP_FS_READ = \<lparr>cap_bits = 2\<rparr>"
definition CAP_FS_WRITE :: capability_set where "CAP_FS_WRITE = \<lparr>cap_bits = 4\<rparr>"
definition CAP_CLOCK :: capability_set where "CAP_CLOCK = \<lparr>cap_bits = 8\<rparr>"
definition CAP_RANDOM :: capability_set where "CAP_RANDOM = \<lparr>cap_bits = 16\<rparr>"

lemmas cap_consts = CAP_NONE_def CAP_STDIO_def CAP_FS_READ_def CAP_FS_WRITE_def CAP_CLOCK_def CAP_RANDOM_def

definition cap_contains :: "capability_set \<Rightarrow> capability_set \<Rightarrow> bool" where
  "cap_contains s t \<longleftrightarrow> cap_bits s AND cap_bits t = cap_bits t"

definition cap_union :: "capability_set \<Rightarrow> capability_set \<Rightarrow> capability_set" where
  "cap_union s t = \<lparr>cap_bits = cap_bits s OR cap_bits t\<rparr>"

definition CAP_ALL :: capability_set where
  "CAP_ALL = cap_union (cap_union (cap_union (cap_union CAP_STDIO CAP_FS_READ) CAP_FS_WRITE) CAP_CLOCK) CAP_RANDOM"

definition cap_fs_read :: "capability_set \<Rightarrow> bool" where
  "cap_fs_read s \<longleftrightarrow> cap_contains s CAP_FS_READ \<or> cap_contains s CAP_FS_WRITE"

definition cap_fs_write :: "capability_set \<Rightarrow> bool" where
  "cap_fs_write s \<longleftrightarrow> cap_contains s CAP_FS_WRITE"

definition cap_stdio :: "capability_set \<Rightarrow> bool" where
  "cap_stdio s \<longleftrightarrow> cap_contains s CAP_STDIO"

section \<open>The engine\<close>

text \<open>The permission flags of the WASI implementation.\<close>

record flag_consts =
  dir_READ :: u32
  dir_MUTATE :: u32
  file_READ :: u32
  file_WRITE :: u32

text \<open>A preopened directory: host path, guest path, directory and file permissions.\<close>

record wasi_ctx =
  wasi_stdio :: bool
  wasi_preopens :: "(string \<times> string \<times> u32 \<times> u32) list"

text \<open>A result type of an export, with the cases the code matches.\<close>

datatype rty =
    RBool | RS8 | RU8 | RS16 | RU16 | RS32 | RU32 | RS64 | RU64 | RFloat32 | RFloat64 | RChar | RString
  | ROption rty | RRecord "(string \<times> rty) list" | RList rty | RStream | RFuture | RResult | ROther string

record ('c, 'i) wasmtime =
  wt_flags :: flag_consts
  wt_preopen :: "string \<Rightarrow> string \<Rightarrow> u32 \<Rightarrow> u32 \<Rightarrow> string + unit"
  wt_set_fuel :: "u64 \<Rightarrow> string + unit"
  wt_link :: "string + unit"
  wt_exports :: "'c \<Rightarrow> (string \<times> export) list"
  wt_instantiate :: "nat \<Rightarrow> nat \<Rightarrow> u64 \<Rightarrow> 'c \<Rightarrow> (string + 'i) \<times> u64"
  wt_results :: "'i \<Rightarrow> string \<Rightarrow> rty list option"
  wt_call :: "nat \<Rightarrow> nat \<Rightarrow> u64 \<Rightarrow> 'i \<Rightarrow> string \<Rightarrow> wval list \<Rightarrow> wval list \<Rightarrow> (string + wval list) \<times> 'i \<times> u64"

text \<open>
  \<open>wt_instantiate\<close> and \<open>wt_call\<close> are given the current epoch, the store's deadline and the
  fuel, and return the fuel that is left; a call is also given the pre-filled slots.
\<close>

record host_engine =
  he_epoch :: nat
  he_threads :: nat

text \<open>\<open>start_epoch_thread\<close>, and one interval of all the threads.\<close>

definition start_epoch_thread :: "host_engine \<Rightarrow> host_engine" where
  "start_epoch_thread en = en\<lparr>he_threads := he_threads en + 1\<rparr>"

definition tick :: "host_engine \<Rightarrow> host_engine" where
  "tick en = en\<lparr>he_epoch := he_epoch en + he_threads en\<rparr>"

section \<open>The runtime\<close>

datatype host_fault =
    NotInstantiated | HostMissingExport string | UnsupportedResult string | EngineFault string

definition DEFAULT_FUEL :: u64 where
  "DEFAULT_FUEL = 10000000"

record 'i component_runtime =
  cr_caps :: capability_set
  cr_wasi :: wasi_ctx
  cr_fuel :: u64
  cr_deadline :: nat
  cr_instance :: "'i option"
  cr_spans :: "(string \<times> string) list"

text \<open>What the capabilities wire up.\<close>

definition wasi_for :: "flag_consts \<Rightarrow> capability_set \<Rightarrow> wasi_ctx" where
  "wasi_for k caps = \<lparr>wasi_stdio = cap_stdio caps,
     wasi_preopens = (if cap_fs_read caps then
       [(''.'', ''/'', if cap_fs_write caps then dir_MUTATE k else dir_READ k,
         if cap_fs_write caps then file_WRITE k else file_READ k)] else [])\<rparr>"

definition runtime_new :: "('c, 'i) wasmtime \<Rightarrow> host_engine \<Rightarrow> capability_set \<Rightarrow> host_fault + 'i component_runtime" where
  "runtime_new wt en caps =
     (let wasi = wasi_for (wt_flags wt) caps in
      and_then (case wasi_preopens wasi of
          [] \<Rightarrow> Inr ()
        | (host, guest, dp, fp) # _ \<Rightarrow> map_err EngineFault (wt_preopen wt host guest dp fp)) (\<lambda>_.
      and_then (map_err EngineFault (wt_set_fuel wt DEFAULT_FUEL)) (\<lambda>_.
      and_then (map_err EngineFault (wt_link wt)) (\<lambda>_.
        Inr \<lparr>cr_caps = caps, cr_wasi = wasi, cr_fuel = DEFAULT_FUEL, cr_deadline = he_epoch en + 1,
             cr_instance = None, cr_spans = []\<rparr>))))"

definition instantiate :: "('c, 'i) wasmtime \<Rightarrow> 'c \<Rightarrow> host_engine \<times> 'i component_runtime \<Rightarrow>
    (host_fault + unit) \<times> host_engine \<times> 'i component_runtime" where
  "instantiate wt c st = (case st of (en, rt) \<Rightarrow>
     let en' = start_epoch_thread en in
     case wt_instantiate wt (he_epoch en) (cr_deadline rt) (cr_fuel rt) c of
       (Inl e, fuel) \<Rightarrow> (Inl (EngineFault e), en', rt\<lparr>cr_fuel := fuel\<rparr>)
     | (Inr i, fuel) \<Rightarrow> (Inr (), en', rt\<lparr>cr_fuel := fuel, cr_instance := Some i\<rparr>))"

text \<open>\<open>default_val\<close>: the slot for a result type, or the type that has none.\<close>

fun default_val :: "rty \<Rightarrow> host_fault + wval"
  and default_fields :: "(string \<times> rty) list \<Rightarrow> host_fault + (string \<times> wval) list" where
  "default_val RBool = Inr (WBool False)"
| "default_val RS8 = Inr (WS8 0)"
| "default_val RU8 = Inr (WU8 0)"
| "default_val RS16 = Inr (WS16 0)"
| "default_val RU16 = Inr (WU16 0)"
| "default_val RS32 = Inr (WS32 0)"
| "default_val RU32 = Inr (WU32 0)"
| "default_val RS64 = Inr (WS64 0)"
| "default_val RU64 = Inr (WU64 0)"
| "default_val RFloat32 = Inr (WFloat32 0)"
| "default_val RFloat64 = Inr (WFloat64 0)"
| "default_val RChar = Inr (WChar [CHR 0x00])"
| "default_val RString = Inr (WString [])"
| "default_val (ROption t) = and_then (default_val t) (\<lambda>v. Inr (WOption (Some v)))"
| "default_val (RRecord fs) = and_then (default_fields fs) (\<lambda>vs. Inr (WRecord vs))"
| "default_val (RList t) = Inr (WList [])"
| "default_val RStream = Inr (WList [])"
| "default_val RFuture = Inr (WList [])"
| "default_val RResult = Inr (WOk None)"
| "default_val (ROther t) = Inl (UnsupportedResult t)"
| "default_fields [] = Inr []"
| "default_fields ((n, t) # fs) =
     and_then (default_val t) (\<lambda>v. and_then (default_fields fs) (\<lambda>vs. Inr ((n, v) # vs)))"

fun default_slots :: "rty list \<Rightarrow> host_fault + wval list" where
  "default_slots [] = Inr []"
| "default_slots (t # ts) = and_then (default_val t) (\<lambda>v. and_then (default_slots ts) (\<lambda>vs. Inr (v # vs)))"

text \<open>The observed exports (\<open>observability_generated.rs\<close>), in the order of the world: name, delivery, fields with their types.\<close>

record span_spec =
  ss_name :: string
  ss_delivery :: string
  ss_fields :: "(string \<times> string) list"

definition SPANS :: "span_spec list" where
  "SPANS = map (\<lambda>(n, d, fs). \<lparr>ss_name = n, ss_delivery = d, ss_fields = fs\<rparr>) [
     (''double'', ''once'', [(''x'', ''u64'')]),
     (''is-big'', ''once'', [(''x'', ''u64'')]),
     (''adder'', ''once'', [(''a'', ''u64''), (''b'', ''u64'')]),
     (''double-area'', ''once'', [(''r'', ''u64'')]),
     (''pick'', ''once'', [(''b'', ''bool''), (''a'', ''u64''), (''x'', ''u64'')]),
     (''run-paps'', ''once'', [(''x'', ''u64'')]),
     (''total'', ''once'', [(''a'', ''u64''), (''b'', ''u64''), (''c'', ''u64'')]),
     (''verify-witness'', ''once'', [(''bs'', ''list<u8>'')]),
     (''get-user'', ''once'', [(''id'', ''u64'')]),
     (''greet'', ''once'', [(''n'', ''u64'')]),
     (''str-len-demo'', ''once'', [(''n'', ''u64'')]),
     (''watch-orders'', ''once'', [(''into'', ''order-error'')]),
     (''watch-counts'', ''stream'', [(''n'', ''u64'')]),
     (''watch-users'', ''stream'', [(''n'', ''u64'')]),
     (''user-valid'', ''once'', [(''u'', ''user'')]),
     (''user-complete'', ''once'', [(''u'', ''user'')]),
     (''order-error-valid'', ''once'', [(''e'', ''order-error'')]),
     (''place-order'', ''once'', [(''id'', ''u64'')])]"

definition rt_call :: "('c, 'i) wasmtime \<Rightarrow> string \<Rightarrow> wval list \<Rightarrow> host_engine \<times> 'i component_runtime \<Rightarrow>
    (host_fault + wval list) \<times> host_engine \<times> 'i component_runtime" where
  "rt_call wt func args st = (case st of (en, rt) \<Rightarrow> case cr_instance rt of
       None \<Rightarrow> (Inl NotInstantiated, en, rt)
     | Some i \<Rightarrow>
         let rt1 = (case find (\<lambda>s. ss_name s = func) SPANS of
               Some s \<Rightarrow> rt\<lparr>cr_spans := cr_spans rt @ [(ss_name s, ss_delivery s)]\<rparr> | None \<Rightarrow> rt) in
         case wt_results wt i func of
           None \<Rightarrow> (Inl (HostMissingExport func), en, rt1)
         | Some tys \<Rightarrow> (case default_slots tys of
             Inl e \<Rightarrow> (Inl e, en, rt1)
           | Inr slots \<Rightarrow>
               (case wt_call wt (he_epoch en) (cr_deadline rt) (cr_fuel rt) i func args slots of
                  (r, i', fuel) \<Rightarrow> (map_err EngineFault r, en, rt1\<lparr>cr_instance := Some i', cr_fuel := fuel\<rparr>))))"

definition fuel_left :: "'i component_runtime \<Rightarrow> u64" where
  "fuel_left rt = cr_fuel rt"

datatype start_error = StartSkew schema_skew | StartEngine host_fault

definition instantiate_checked :: "('c, 'i) wasmtime \<Rightarrow> 'c \<Rightarrow> string \<Rightarrow> host_engine \<times> 'i component_runtime \<Rightarrow>
    (start_error + unit) \<times> host_engine \<times> 'i component_runtime" where
  "instantiate_checked wt c expected st = (case verify_surface (wt_exports wt c) expected of
       Inl skew \<Rightarrow> (Inl (StartSkew skew), st)
     | Inr _ \<Rightarrow> (case instantiate wt c st of (r, st') \<Rightarrow> (map_err StartEngine r, st')))"

section \<open>Histories\<close>

text \<open>
  What can happen to a runtime on a shared engine: its own operations, what a caller does with the
  store and the instance that \<open>store_mut\<close> and \<open>instance\<close> lend out, an interval of
  time, and the instantiation of another runtime on the same engine.

  A use of the store (\<open>OpStore\<close>: typed calls, the concurrent calls of \<open>oracle-runner\<close>)
  runs in the engine and is an arbitrary function: it may leave any instance state and any fuel.  It reaches neither
  the runtime's own instance field, so it can neither create nor drop the instance, nor the spans, which only
  \<open>call\<close> enters.  It is taken to leave the store's deadline and its wiring, as every use in
  the repository does.
\<close>

datatype ('c, 'i) host_op =
    OpInstantiate 'c | OpChecked 'c string | OpCall string "wval list"
  | OpStore "'i option \<Rightarrow> u64 \<Rightarrow> 'i \<times> u64" | OpTick | OpOther

definition use_store :: "('i option \<Rightarrow> u64 \<Rightarrow> 'i \<times> u64) \<Rightarrow> 'i component_runtime \<Rightarrow> 'i component_runtime" where
  "use_store g rt = (case g (cr_instance rt) (cr_fuel rt) of (i, fuel) \<Rightarrow>
     rt\<lparr>cr_instance := map_option (\<lambda>_. i) (cr_instance rt), cr_fuel := fuel\<rparr>)"

fun host_step :: "('c, 'i) wasmtime \<Rightarrow> ('c, 'i) host_op \<Rightarrow> host_engine \<times> 'i component_runtime \<Rightarrow> host_engine \<times> 'i component_runtime" where
  "host_step wt (OpInstantiate c) st = snd (instantiate wt c st)"
| "host_step wt (OpChecked c s) st = snd (instantiate_checked wt c s st)"
| "host_step wt (OpCall f args) st = snd (rt_call wt f args st)"
| "host_step wt (OpStore g) st = (fst st, use_store g (snd st))"
| "host_step wt OpTick st = (tick (fst st), snd st)"
| "host_step wt OpOther st = (start_epoch_thread (fst st), snd st)"

definition host_run :: "('c, 'i) wasmtime \<Rightarrow> ('c, 'i) host_op list \<Rightarrow> host_engine \<times> 'i component_runtime \<Rightarrow> host_engine \<times> 'i component_runtime" where
  "host_run wt ops st = fold (host_step wt) ops st"

lemma instantiate_keeps:
  "instantiate wt c (en, rt) = (r, en', rt') \<Longrightarrow>
    cr_deadline rt' = cr_deadline rt \<and> cr_caps rt' = cr_caps rt \<and> cr_wasi rt' = cr_wasi rt \<and> he_epoch en' = he_epoch en \<and>
    he_threads en' = he_threads en + 1"
  by (auto simp: instantiate_def start_epoch_thread_def Let_def split: prod.splits sum.splits)

lemma rt_call_keeps:
  "rt_call wt f args (en, rt) = (r, en', rt') \<Longrightarrow>
    cr_deadline rt' = cr_deadline rt \<and> cr_caps rt' = cr_caps rt \<and> cr_wasi rt' = cr_wasi rt \<and> en' = en"
  by (auto simp: rt_call_def Let_def split: prod.splits sum.splits option.splits)

lemma instantiate_checked_keeps:
  "instantiate_checked wt c s (en, rt) = (r, en', rt') \<Longrightarrow>
    cr_deadline rt' = cr_deadline rt \<and> cr_caps rt' = cr_caps rt \<and> cr_wasi rt' = cr_wasi rt \<and> he_epoch en' = he_epoch en \<and>
    he_threads en \<le> he_threads en'"
  by (auto simp: instantiate_checked_def split: prod.splits sum.splits dest: instantiate_keeps)

text \<open>No operation moves the deadline or the wiring; the epoch and the threads only grow.\<close>

lemma host_step_keeps:
  fixes wt :: "('c, 'i) wasmtime"
  shows "host_step wt op (en, rt) = (en', rt') \<Longrightarrow>
    cr_deadline rt' = cr_deadline rt \<and> cr_caps rt' = cr_caps rt \<and> cr_wasi rt' = cr_wasi rt \<and>
    he_epoch en \<le> he_epoch en' \<and> he_threads en \<le> he_threads en'"
proof -
  assume step: "host_step wt op (en, rt) = (en', rt')"
  have split: "x = (fst x, en', rt')" if "snd x = (en', rt')" for x :: "'z \<times> host_engine \<times> 'i component_runtime"
    using that by (metis prod.collapse)
  show ?thesis
  proof (cases op)
    case (OpInstantiate c)
    then show ?thesis using step instantiate_keeps [OF split, of wt c en rt] by simp
  next
    case (OpChecked c s)
    then show ?thesis using step instantiate_checked_keeps [OF split, of wt c s en rt] by simp
  next
    case (OpCall f args)
    then show ?thesis using step rt_call_keeps [OF split, of wt f args en rt] by simp
  qed (use step in \<open>auto simp: tick_def start_epoch_thread_def use_store_def split: prod.splits\<close>)
qed

lemma host_run_Cons: "host_run wt (op # ops) st = host_run wt ops (host_step wt op st)"
  by (simp add: host_run_def)

lemma host_run_keeps:
  "host_run wt ops (en, rt) = (en', rt') \<Longrightarrow>
    cr_deadline rt' = cr_deadline rt \<and> cr_caps rt' = cr_caps rt \<and> cr_wasi rt' = cr_wasi rt \<and>
    he_epoch en \<le> he_epoch en' \<and> he_threads en \<le> he_threads en'"
proof (induction ops arbitrary: en rt)
  case Nil
  then show ?case by (simp add: host_run_def)
next
  case (Cons op ops)
  obtain en1 rt1 where s: "host_step wt op (en, rt) = (en1, rt1)" by (rule prod.exhaust)
  then have "host_run wt ops (en1, rt1) = (en', rt')"
    using Cons.prems by (simp add: host_run_Cons)
  then show ?case
    using Cons.IH [of en1 rt1] host_step_keeps [OF s] by auto
qed

end
