(* ===== verification/HostTheorems.thy ===== *)
theory HostTheorems
  imports Surface
begin

text \<open>
  The properties of the host's contract generation: the snapshot parser inverts the
  printer of the Lean side and is gated and depth-bounded on every input, the surface
  strings round-trip, the two contract checks accept exactly the surfaces that agree
  with the committed expectation, and the startup gate is computed from the universe.
\<close>

section \<open>The snapshot\<close>

text \<open>C7: The snapshot is lossless.  For every universe whose names the writer's gate admits and whose types nest
  at most 64 deep, parsing the printed text gives back exactly the same items, in order and verbatim.\<close>

theorem snapshot_lossless:
  assumes "list_all item_ok its"
  shows "parse_snapshot (render its) = Inr its"
  using assms by (rule parse_render)

theorem snapshot_lossless_witness:
  "parse_snapshot (render [IRecord ''User'' [(''id'', SU64), (''dims'', STensor [2, 30] SF32)],
      IVariant ''E'' [(''none'', None), (''bad'', Some (SMap SString (SNamed ''User'')))],
      IFunc ''get'' [(''id'', SU64)] (SFuture (SOption (SNamed ''User'')))
        (Some \<lparr>null_sem = ''strict'', determinism = ''pure'', sem_stream = True\<rparr>), IResource ''Db'']) =
    Inr [IRecord ''User'' [(''id'', SU64), (''dims'', STensor [2, 30] SF32)],
      IVariant ''E'' [(''none'', None), (''bad'', Some (SMap SString (SNamed ''User'')))],
      IFunc ''get'' [(''id'', SU64)] (SFuture (SOption (SNamed ''User'')))
        (Some \<lparr>null_sem = ''strict'', determinism = ''pure'', sem_stream = True\<rparr>), IResource ''Db'']"
  by (rule snapshot_lossless)
    (simp add: member_ok_def name_ok_def sem_ok_def ascii_defs is_key_ty_def)

text \<open>What the parser guarantees of an accepted type, at a nesting depth.\<close>

primrec gated :: "sty \<Rightarrow> bool" where
  "gated SBool = True"
| "gated SU8 = True"
| "gated SU16 = True"
| "gated SU32 = True"
| "gated SU64 = True"
| "gated SI8 = True"
| "gated SI16 = True"
| "gated SI32 = True"
| "gated SI64 = True"
| "gated SF32 = True"
| "gated SF64 = True"
| "gated SString = True"
| "gated SBytes = True"
| "gated (SOption a) = gated a"
| "gated (SResult ok err) = (gated ok \<and> gated err)"
| "gated (SList a) = gated a"
| "gated (SMap k v) = (is_key_ty k \<and> gated v)"
| "gated (SSet k) = is_key_ty k"
| "gated (SFuture a) = gated a"
| "gated (SStream a) = gated a"
| "gated (STensor dims a) = gated a"
| "gated (SNamed n) = (n \<noteq> [] \<and> CHR '')'' \<notin> set n)"

lemma expect_Inr: "expect c e s = Inr r \<longleftrightarrow> s = c # r"
  by (auto simp: expect_def split: list.splits)

lemma scalar_tokens_gated: "map_of scalar_tokens kw = Some t \<Longrightarrow> gated t \<and> sty_depth t = 0"
  by (drule map_of_SomeD) (auto simp: scalar_tokens_def)

lemma parse_ty_at_gated:
  "parse_ty_at cs d = Inr (t, r) \<Longrightarrow> gated t \<and> d + sty_depth t \<le> 64"
proof (induction "65 - d" arbitrary: cs d t r rule: less_induct)
  case less
  let ?kw = "takeWhile is_ascii_alnum cs"
  have d: "d \<le> 64"
    using less.prems by (subst (asm) parse_ty_at.simps) (auto simp: MAX_TY_DEPTH_def split: if_splits)
  show ?case
  proof (cases "map_of scalar_tokens ?kw")
    case (Some u)
    then show ?thesis
      using less.prems scalar_tokens_gated [OF Some] d
      by (subst (asm) parse_ty_at.simps) (auto simp: MAX_TY_DEPTH_def Let_def)
  next
    case None
    have IH: "gated t'" "d + sty_depth t' \<le> 63" if "parse_ty_at cs' (Suc d) = Inr (t', r')" for cs' t' r'
      using less.hyps [of "Suc d" cs' t' r'] that d by auto
    have name: "CHR '')'' \<notin> set (takeWhile (\<lambda>b. b \<noteq> CHR '')'') s)" for s
      by (auto dest: set_takeWhileD)
    show ?thesis
    proof (cases "?kw = ''ty''")
      case True
      then obtain x where x: "dropWhile is_ascii_alnum cs = CHR ''('' # x"
        using less.prems d None
        by (subst (asm) parse_ty_at.simps) (auto simp: MAX_TY_DEPTH_def Let_def and_then_eq_Inr expect_Inr)
      show ?thesis
        using less.prems d None name [of x] True x
        by (subst (asm) parse_ty_at.simps, cases "dropWhile (\<lambda>b. b \<noteq> CHR '')'') x")
          (auto simp: MAX_TY_DEPTH_def Let_def expect_def split: if_splits)
    next
      case False
      then show ?thesis
        using less.prems d None
        by (subst (asm) parse_ty_at.simps)
          (auto simp: MAX_TY_DEPTH_def Let_def and_then_eq_Inr expect_Inr nat_add_max_right
            split: if_splits dest: IH)
    qed
  qed
qed

lemma option_chain_deep:
  "d \<le> 65 \<Longrightarrow> 64 < d + n \<Longrightarrow>
   parse_ty_at (ty_to_snapshot ((SOption ^^ n) SBool) @ rest) d = Inl DepthExceeded"
proof (induction n arbitrary: d rest)
  case (Suc n)
  show ?case
  proof (cases "d = 65")
    case False
    then have "parse_ty_at (ty_to_snapshot ((SOption ^^ n) SBool) @ CHR '')'' # rest) (Suc d) = Inl DepthExceeded"
      using Suc by (intro Suc.IH) auto
    then show ?thesis
      using applied_head [of "''option''" "ty_to_snapshot ((SOption ^^ n) SBool) @ CHR '')'' # rest"] False Suc.prems
      by (subst parse_ty_at.simps) (simp add: MAX_TY_DEPTH_def expect_def Let_def)
  qed (subst parse_ty_at.simps, simp add: MAX_TY_DEPTH_def)
qed (subst parse_ty_at.simps, simp add: MAX_TY_DEPTH_def)

lemma option_chain_shallow: "sty_ok ((SOption ^^ n) SBool) \<and> sty_depth ((SOption ^^ n) SBool) = n"
  by (induction n) auto

text \<open>The type parser is gated and bounded.  Every type it accepts has scalar map keys and set elements, non-empty
  references and nesting of at most 64; a chain of options is accepted exactly up to that depth and refused as too deep
  beyond it, though the printer has no such bound.\<close>

theorem snapshot_types_gated:
  assumes "parse_ty_text s = Inr t"
  shows "gated t \<and> sty_depth t \<le> 64 \<and>
    parse_ty_text (ty_to_snapshot ((SOption ^^ n) SBool)) =
      (if n \<le> 64 then Inr ((SOption ^^ n) SBool) else Inl DepthExceeded)"
proof -
  obtain r where "parse_ty_at s 0 = Inr (t, r)"
    using assms by (auto simp: parse_ty_text_def and_then_eq_Inr split: if_splits)
  then have "gated t \<and> sty_depth t \<le> 64"
    using parse_ty_at_gated by fastforce
  moreover have "parse_ty_text (ty_to_snapshot ((SOption ^^ n) SBool)) = Inr ((SOption ^^ n) SBool)" if "n \<le> 64"
    using parse_ty_text_render option_chain_shallow that by metis
  moreover have "parse_ty_text (ty_to_snapshot ((SOption ^^ n) SBool)) = Inl DepthExceeded" if "\<not> n \<le> 64"
    using option_chain_deep [of 0 n "[]"] that by (simp add: parse_ty_text_def)
  ultimately show ?thesis by simp
qed

theorem snapshot_types_gated_witness:
  "gated (SMap SU8 (SList SBool)) \<and> sty_depth (SMap SU8 (SList SBool)) \<le> 64 \<and>
    parse_ty_text (ty_to_snapshot ((SOption ^^ 65) SBool)) =
      (if 65 \<le> (64::nat) then Inr ((SOption ^^ 65) SBool) else Inl DepthExceeded)"
  using parse_ty_text_render [of "SMap SU8 (SList SBool)"]
  by (intro snapshot_types_gated) (simp add: is_key_ty_def)

text \<open>The spelling of a tensor without dimensions.  The printer writes no semicolon for an empty dimension list and
  the parser reads that spelling; the spelling with a leading semicolon, which the comments on both
  sides give for this case, is refused.\<close>

theorem tensor_no_dims:
  "ty_to_snapshot (STensor [] t) = ''tensor('' @ ty_to_snapshot t @ '')'' \<and>
   parse_ty_text ''tensor(u64)'' = Inr (STensor [] SU64) \<and>
   parse_ty_text ''tensor(;u64)'' = Inl (UnknownToken [])"
proof -
  have 1: "parse_ty_text ''tensor(u64)'' = Inr (STensor [] SU64)"
    using parse_ty_text_render [of "STensor [] SU64"] by simp
  have dims: "parse_dims '';u64)'' = Inr ([], '';u64)'')"
    by (subst parse_dims.simps) (simp add: is_ascii_digit_def)
  have inner: "parse_ty_at '';u64)'' 1 = Inl (UnknownToken [])"
    by (subst parse_ty_at.simps) (simp add: MAX_TY_DEPTH_def ascii_defs scalar_tokens_def)
  have 2: "parse_ty_text ''tensor(;u64)'' = Inl (UnknownToken [])"
    unfolding parse_ty_text_def
    using applied_head [of "''tensor''" "'';u64)''"] dims inner
    by (subst parse_ty_at.simps) (simp add: MAX_TY_DEPTH_def expect_def Let_def)
  show ?thesis using 1 2 by simp
qed

section \<open>Surfaces\<close>

definition demo_surface :: surface where
  "demo_surface = [(''double'', 1), (''is-big'', 1), (''adder'', 2), (''double-area'', 1), (''run-paps'', 1), 
    (''total'', 3), (''pick'', 3), (''str-len-demo'', 1), (''greet'', 1), (''get-user'', 1), 
    (''watch-counts'', 1), (''watch-users'', 1), (''user-valid'', 4), (''order-error-valid'', 2), (''user-complete'', 4), (''verify-witness'', 1), (''place-order'', 1)]"

lemma demo_surface_render: "EXPECTED_DEMO_SURFACE = render_surface demo_surface"
  by (simp add: EXPECTED_DEMO_SURFACE_def demo_surface_def render_surface_def show_nat.simps digit_char_def char_of_def bit_0)

lemma demo_surface_ok: "list_all (\<lambda>(f, n). surface_name_ok f \<and> n < 2 ^ 64) demo_surface"
  by (simp add: demo_surface_def surface_name_ok_def)

lemma demo_surface_length: "length demo_surface = 17"
  by (simp add: demo_surface_def)

text \<open>Surface strings round-trip.  Rendering a list of names and arities and parsing it back is the identity whenever no name
  holds a comma (a name may hold slashes) and every arity fits 64 bits; the committed expectation is such a rendering, of 17 functions.\<close>

theorem surface_roundtrip:
  assumes "list_all (\<lambda>(f, n). surface_name_ok f \<and> n < 2 ^ 64) ps"
  shows "parse_surface (render_surface ps) = ps \<and>
    render_surface (parse_surface EXPECTED_DEMO_SURFACE) = EXPECTED_DEMO_SURFACE \<and>
    length (parse_surface EXPECTED_DEMO_SURFACE) = 17"
  using parse_render_surface [OF assms] parse_render_surface [OF demo_surface_ok] demo_surface_length
  by (simp add: demo_surface_render)

theorem surface_roundtrip_witness:
  "parse_surface (render_surface [(''a/b'', 3), (''get-user'', 12)]) = [(''a/b'', 3), (''get-user'', 12)] \<and>
    render_surface (parse_surface EXPECTED_DEMO_SURFACE) = EXPECTED_DEMO_SURFACE \<and>
    length (parse_surface EXPECTED_DEMO_SURFACE) = 17"
  by (rule surface_roundtrip) (simp add: surface_name_ok_def)

text \<open>The version-skew check, exactly.  Starting is allowed if and only if every entry of the expectation is an exported
  function of that name whose flat arity is the expected one; when the expectation is a canonical rendering, the guest's
  surface rendered over the contract is then the expected string itself.\<close>

theorem skew_refused:
  assumes "list_all (\<lambda>(f, n). surface_name_ok f \<and> n < 2 ^ 64) ps" "expected = render_surface ps"
  shows "(verify_surface exports expected = Inr () \<longleftrightarrow>
      list_all (\<lambda>(f, n). find_arity (surface_of exports) f = Some n) ps) \<and>
    (verify_surface exports expected = Inr () \<longrightarrow>
      render_surface (map (\<lambda>(f, n). (f, the (find_arity (surface_of exports) f))) ps) = expected)"
proof -
  have iff: "verify_surface exports expected = Inr () \<longleftrightarrow>
      list_all (\<lambda>(f, n). find_arity (surface_of exports) f = Some n) ps"
    unfolding verify_surface_def Let_def assms(2) parse_render_surface [OF assms(1)] by (rule verify_loop_ok)
  moreover have "map (\<lambda>(f, n). (f, the (find_arity (surface_of exports) f))) ps = ps"
    if "list_all (\<lambda>(f, n). find_arity (surface_of exports) f = Some n) ps"
    using that by (induction ps) auto
  ultimately show ?thesis using assms(2) by simp
qed

theorem skew_refused_witness:
  "verify_surface [(''ping'', ComponentFunc [(''u'', AbiRecord [''id'', ''name'']), (''n'', AbiLeaf)]), (''mem'', OtherExport)]
      (render_surface [(''ping'', 3)]) = Inr () \<and>
    render_surface (map (\<lambda>(f, n). (f, the (find_arity (surface_of
      [(''ping'', ComponentFunc [(''u'', AbiRecord [''id'', ''name'']), (''n'', AbiLeaf)]), (''mem'', OtherExport)]) f)))
      [(''ping'', 3)]) = render_surface [(''ping'', 3)]"
  using skew_refused [of "[(''ping'', 3)]" "render_surface [(''ping'', 3)]"
      "[(''ping'', ComponentFunc [(''u'', AbiRecord [''id'', ''name'']), (''n'', AbiLeaf)]), (''mem'', OtherExport)]"]
  by (simp add: surface_name_ok_def find_arity_def surface_of_def List.map_filter_simps abi_flat_arity_def)

text \<open>An expectation without a well-formed entry.  Malformed entries are dropped, so the version-skew check accepts
  every guest against a non-empty expectation with no slash in it, while the contract check refuses such an expectation
  as vacuous whatever the snapshot's surface is.\<close>

theorem vacuous_expectation:
  assumes "CHR ''/'' \<notin> set expected"
  shows "verify_surface exports expected = Inr () \<and>
    check_contract entries expected =
      Inl \<lparr>sk_expected = expected, sk_actual = render_surface entries, sk_detail = Vacuous\<rparr>"
proof -
  have "rsplit_once (CHR ''/'') w = None" if "w \<in> set (split_on (CHR '','') expected)" for w
  proof -
    have "set w \<subseteq> set (join [CHR '',''] ws)" if "w \<in> set ws" for ws w
      using that by (induction "[CHR '','']" ws rule: join.induct) auto
    then have "set w \<subseteq> set expected"
      using that join_split_on [of "CHR '',''" expected] by metis
    then show ?thesis using assms by (intro rsplit_once_plain) auto
  qed
  then have none: "parse_surface expected = []"
    by (simp add: parse_surface_def map_filter_def)
  have "contract_loop skew [] entries cov = Inr (cov\<lparr>out_of_contract := out_of_contract cov @ entries\<rparr>)" for skew cov
    by (induction skew "[] :: surface" entries cov rule: contract_loop.induct) (auto simp: find_arity_def)
  then show ?thesis
    by (simp add: verify_surface_def check_contract_def none)
qed

theorem vacuous_expectation_witness:
  "verify_surface [] ''get-user:1'' = Inr () \<and>
    check_contract [(''get-user'', 1)] ''get-user:1'' =
      Inl \<lparr>sk_expected = ''get-user:1'', sk_actual = render_surface [(''get-user'', 1)], sk_detail = Vacuous\<rparr>"
  by (rule vacuous_expectation) simp

text \<open>The contract check, exactly.  It accepts if and only if no generated entry disagrees with the first expected entry
  of its name and at least one is covered; it then reports the covered entries and those out of contract, each in order.
  A refusal is either that vacuous case or names an entry with two different arities.\<close>

theorem contract_checked:
  "check_contract entries expected = Inr cov \<longleftrightarrow>
      list_all (agrees (parse_surface expected)) entries \<and>
      covered cov = filter (\<lambda>e. find_arity (parse_surface expected) (fst e) \<noteq> None) entries \<and>
      out_of_contract cov = filter (\<lambda>e. find_arity (parse_surface expected) (fst e) = None) entries \<and>
      covered cov \<noteq> []"
  unfolding check_contract_def Let_def and_then_eq_Inr contract_loop_ok
  by (cases cov) auto

text \<open>What the gate compares, read off the universe without its loops: the type names in the parameters of functions that no item
  declares, in order; the flat slots of a type, by the first item of its name; the functions with their flat arities.\<close>

definition param_names :: "(string \<times> sty) list \<Rightarrow> string list" where
  "param_names ps = concat (map (\<lambda>(_, t). case t of SNamed n \<Rightarrow> [n] | _ \<Rightarrow> []) ps)"

definition undeclared :: "item list \<Rightarrow> item list \<Rightarrow> string list" where
  "undeclared all its = filter (\<lambda>n. n \<notin> item_name ` set all)
     (concat (map (\<lambda>it. case it of IFunc _ ps _ _ \<Rightarrow> param_names ps | _ \<Rightarrow> []) its))"

definition slots :: "item list \<Rightarrow> sty \<Rightarrow> nat" where
  "slots all t = (case t of
       SNamed n \<Rightarrow> (case filter (\<lambda>it. item_name it = n) all of
           IRecord _ fs # _ \<Rightarrow> length fs
         | IVariant _ _ # _ \<Rightarrow> 2
         | _ \<Rightarrow> 1)
     | _ \<Rightarrow> 1)"

definition functions_of :: "(string \<Rightarrow> bool) \<Rightarrow> item list \<Rightarrow> item list \<Rightarrow> surface" where
  "functions_of up all its = concat (map (\<lambda>it. case it of
       IFunc f ps _ _ \<Rightarrow> [(kebab up f, \<Sum>(_, t) \<leftarrow> ps. slots all t)]
     | _ \<Rightarrow> []) its)"

lemma find_filter: "find P xs = (case filter P xs of [] \<Rightarrow> None | x # _ \<Rightarrow> Some x)"
  by (induction xs) auto

lemma flat_arity_slots:
  "flat_arity (universe_new all) t = (case t of
      SNamed n \<Rightarrow> if n \<in> item_name ` set all then Inr (slots all t) else Inl n
    | _ \<Rightarrow> Inr (slots all t))"
proof (cases t)
  case (SNamed n)
  show ?thesis
  proof (cases "filter (\<lambda>it. item_name it = n) all")
    case Nil
    then have "n \<notin> item_name ` set all" by (auto simp: filter_empty_conv)
    then show ?thesis using SNamed Nil by (simp add: flat_arity_def universe_find_def universe_new_def find_filter)
  next
    case (Cons it rest)
    then have "it \<in> set all \<and> item_name it = n" by (metis (mono_tags) Cons_eq_filterD in_set_conv_decomp)
    then have "n \<in> item_name ` set all" by blast
    then show ?thesis
      using SNamed Cons by (cases it) (simp_all add: flat_arity_def universe_find_def universe_new_def find_filter slots_def)
  qed
qed (simp_all add: flat_arity_def slots_def)

lemma params_arity_slots:
  "params_arity (universe_new all) ps k = (case filter (\<lambda>n. n \<notin> item_name ` set all) (param_names ps) of
      n # _ \<Rightarrow> Inl n
    | [] \<Rightarrow> Inr (k + (\<Sum>(_, t) \<leftarrow> ps. slots all t)))"
proof (induction ps arbitrary: k)
  case (Cons p ps)
  obtain x t where p: "p = (x, t)" by (rule prod.exhaust)
  show ?case
    by (cases t) (auto simp: p flat_arity_slots param_names_def Cons.IH [unfolded param_names_def] and_then_def add.assoc split: list.split)
qed (simp add: param_names_def)

lemma entries_loop_functions:
  "entries_loop up (universe_new all) its = (case undeclared all its of n # _ \<Rightarrow> Inl n | [] \<Rightarrow> Inr (functions_of up all its))"
proof (induction its)
  case (Cons it its)
  then show ?case
    by (cases it) (auto simp: undeclared_def functions_of_def params_arity_slots and_then_def split: list.split)
qed (simp add: undeclared_def functions_of_def)

lemma find_arity_map_of: "find_arity s f = map_of s f"
  by (induction s) (auto simp: find_arity_def)

lemma contract_loop_find:
  "contract_loop skew contract es cov =
    (case find (\<lambda>(f, n). map_of contract f \<notin> {None, Some n}) es of
       Some (f, n) \<Rightarrow> Inl (skew (ArityMismatch f n (the (map_of contract f))))
     | None \<Rightarrow> Inr (cov\<lparr>covered := covered cov @ filter (\<lambda>(f, n). map_of contract f \<noteq> None) es,
         out_of_contract := out_of_contract cov @ filter (\<lambda>(f, n). map_of contract f = None) es\<rparr>))"
  by (induction skew contract es cov rule: contract_loop.induct) (auto simp: find_arity_map_of split: option.split)

text \<open>C20: The startup gate, exactly, on the snapshot printed from any encodable universe.  It refuses the first type name, in the parameters
  of the functions in order, that no item declares.  Otherwise it compares every function, by its kebab-case name, with the first
  expected entry of that name: it refuses the first whose number of flat slots differs (a record counts its fields, a variant two,
  anything else one), with both numbers; it refuses a universe none of whose functions is expected; and otherwise reports the expected functions and
  the others, each in the order of the universe.\<close>

theorem startup_gate:
  assumes "list_all item_ok its"
  shows "validate_committed up (render its) expected =
    (case undeclared its its of
       n # _ \<Rightarrow> Inl (SurfaceUnresolved n)
     | [] \<Rightarrow>
         let es = functions_of up its its; want = map_of (parse_surface expected);
           skew = (\<lambda>d. Inl (ContractSkew \<lparr>sk_expected = expected, sk_actual = render_surface es, sk_detail = d\<rparr>))
         in case find (\<lambda>(f, n). want f \<notin> {None, Some n}) es of
              Some (f, n) \<Rightarrow> skew (ArityMismatch f n (the (want f)))
            | None \<Rightarrow>
                if \<forall>(f, n) \<in> set es. want f = None then skew Vacuous
                else Inr \<lparr>covered = filter (\<lambda>(f, n). want f \<noteq> None) es, out_of_contract = filter (\<lambda>(f, n). want f = None) es\<rparr>)"
proof -
  have entries: "surface_entries up (universe_new its) =
      (case undeclared its its of n # _ \<Rightarrow> Inl n | [] \<Rightarrow> Inr (functions_of up its its))"
    unfolding surface_entries_def entries_loop_functions by (simp add: universe_new_def split: list.split)
  have vacuous: "(\<forall>(f, n) \<in> set es. want f = None) \<longleftrightarrow> filter (\<lambda>(f, n). want f \<noteq> None) es = []"
    for es :: surface and want :: "string \<Rightarrow> nat option"
    by (auto simp: filter_empty_conv)
  show ?thesis
    unfolding validate_committed_def parse_render [OF assms] check_contract_def contract_loop_find Let_def vacuous
    by (simp add: entries map_err_def and_then_def split: list.split option.split)
qed

theorem startup_gate_witness:
  "validate_committed (\<lambda>_. False) (render [IRecord ''User'' [(''id'', SU64), (''name'', SString)],
      IFunc ''getUser'' [(''u'', SNamed ''User'')] SBool None, IFunc ''ping'' [] SBool None]) (render_surface [(''get-user'', 2)]) =
    Inr \<lparr>covered = [(''get-user'', 2)], out_of_contract = [(''ping'', 0)]\<rparr>"
proof -
  let ?its = "[IRecord ''User'' [(''id'', SU64), (''name'', SString)], IFunc ''getUser'' [(''u'', SNamed ''User'')] SBool None,
    IFunc ''ping'' [] SBool None]"
  have "kebab (\<lambda>_. False) ''getUser'' = ''get-user''" "kebab (\<lambda>_. False) ''ping'' = ''ping''"
    by (simp_all add: kebab_def is_uppercase_def ascii_defs to_ascii_lower_def is_continuation_def char_of_def bit_0)
  then have "functions_of (\<lambda>_. False) ?its ?its = [(''get-user'', 2), (''ping'', 0)]" "undeclared ?its ?its = []"
    by (simp_all add: functions_of_def slots_def undeclared_def param_names_def)
  moreover have "parse_surface (render_surface [(''get-user'', 2)]) = [(''get-user'', 2)]"
    by (rule parse_render_surface) (simp add: surface_name_ok_def)
  moreover have "list_all item_ok ?its"
    by (simp add: member_ok_def name_ok_def ascii_defs)
  ultimately show ?thesis
    using startup_gate [of ?its "\<lambda>_. False" "render_surface [(''get-user'', 2)]"] by simp
qed

end
