(* ===== verification/RuntimeTheorems.thy ===== *)
theory RuntimeTheorems
  imports Runtime HostTheorems
begin

text \<open>
  The properties of the component runtime: what its capabilities grant, that a component
  with a diverging surface never runs, the result slots, and how long a runtime lives.
\<close>

section \<open>Capabilities\<close>

text \<open>The flags of a permission type are different bits.\<close>

definition flags_ok :: "flag_consts \<Rightarrow> bool" where
  "flags_ok k \<longleftrightarrow> dir_READ k \<noteq> 0 \<and> file_READ k \<noteq> 0 \<and> dir_MUTATE k AND dir_READ k = 0 \<and> file_WRITE k AND file_READ k = 0"

text \<open>Whether a preopened directory of the context grants reading.\<close>

definition grants_read :: "flag_consts \<Rightarrow> wasi_ctx \<Rightarrow> bool" where
  "grants_read k w \<longleftrightarrow> (\<exists>(_, _, dp, fp) \<in> set (wasi_preopens w). dp AND dir_READ k \<noteq> 0 \<and> fp AND file_READ k \<noteq> 0)"

lemma cap_contains_iff: "cap_contains s t \<longleftrightarrow> (\<forall>n. bit (cap_bits t) n \<longrightarrow> bit (cap_bits s) n)"
proof
  show "\<forall>n. bit (cap_bits t) n \<longrightarrow> bit (cap_bits s) n" if "cap_contains s t"
    using that by (metis bit_and_iff cap_contains_def)
qed (auto simp: cap_contains_def bit_eq_iff bit_simps)

lemma cap_union_least: "cap_contains s (cap_union t u) \<longleftrightarrow> cap_contains s t \<and> cap_contains s u"
  by (auto simp: cap_contains_iff cap_union_def bit_simps)

lemma cap_none: "\<not> cap_stdio CAP_NONE" "\<not> cap_fs_read CAP_NONE" "\<not> cap_fs_write CAP_NONE"
  by (simp_all add: cap_stdio_def cap_fs_read_def cap_fs_write_def cap_contains_def cap_consts)

text \<open>C31: What capabilities grant.  The context of a runtime inherits the host's standard streams exactly with that capability, preopens the host
  root exactly with a file capability, and the empty set is a closed box.  But reading does not follow the grants: with the read capability
  alone the preopened root is readable, while any set that contains the write capability, which is said to imply reading,
  is given the mutate and write flags only and can read nothing.\<close>

theorem capabilities_gate:
  assumes "runtime_new wt en caps = Inr rt" and "flags_ok (wt_flags wt)"
  shows "(wasi_stdio (cr_wasi rt) \<longleftrightarrow> cap_contains caps CAP_STDIO) \<and>
    (wasi_preopens (cr_wasi rt) \<noteq> [] \<longleftrightarrow> cap_contains caps CAP_FS_READ \<or> cap_contains caps CAP_FS_WRITE) \<and>
    (caps = CAP_NONE \<longrightarrow> cr_wasi rt = \<lparr>wasi_stdio = False, wasi_preopens = []\<rparr>) \<and>
    (grants_read (wt_flags wt) (cr_wasi rt) \<longleftrightarrow> cap_contains caps CAP_FS_READ \<and> \<not> cap_contains caps CAP_FS_WRITE)"
proof -
  have w: "cr_wasi rt = wasi_for (wt_flags wt) caps"
    using assms(1) by (auto simp: runtime_new_def Let_def result_simps)
  show ?thesis
    using assms(2) cap_none
    by (auto simp: w wasi_for_def cap_stdio_def cap_fs_read_def cap_fs_write_def grants_read_def flags_ok_def)
qed

text \<open>An engine on which everything succeeds; a call traps once the epoch reached the deadline.\<close>

definition demo_engine :: "(unit, unit) wasmtime" where
  "demo_engine = \<lparr>wt_flags = \<lparr>dir_READ = 1, dir_MUTATE = 2, file_READ = 1, file_WRITE = 2\<rparr>,
     wt_preopen = (\<lambda>_ _ _ _. Inr ()), wt_set_fuel = (\<lambda>_. Inr ()), wt_link = Inr (),
     wt_exports = (\<lambda>_. [(''double'', ComponentFunc [(''x'', AbiLeaf)])]),
     wt_instantiate = (\<lambda>_ _ fuel _. (Inr (), fuel)), wt_results = (\<lambda>_ _. Some [RU64]),
     wt_call = (\<lambda>e d fuel _ _ args _. (if d \<le> e then Inl ''epoch'' else Inr args, (), fuel))\<rparr>"

lemma demo_flags_ok: "flags_ok (wt_flags demo_engine)"
  by (simp add: flags_ok_def demo_engine_def)


theorem capabilities_gate_witness:
  "\<exists>rt. runtime_new demo_engine \<lparr>he_epoch = 0, he_threads = 0\<rparr> (cap_union CAP_FS_READ CAP_FS_WRITE) = Inr rt \<and>
    wasi_preopens (cr_wasi rt) \<noteq> [] \<and> \<not> grants_read (wt_flags demo_engine) (cr_wasi rt)"
proof -
  let ?caps = "cap_union CAP_FS_READ CAP_FS_WRITE"
  have c: "cap_contains ?caps CAP_FS_WRITE"
    using cap_union_least [of ?caps CAP_FS_READ CAP_FS_WRITE] by (simp add: cap_contains_iff)
  have "\<exists>rt. runtime_new demo_engine \<lparr>he_epoch = 0, he_threads = 0\<rparr> ?caps = Inr rt"
    by (simp add: runtime_new_def demo_engine_def Let_def map_err_def split: list.split)
  then obtain rt where rt: "runtime_new demo_engine \<lparr>he_epoch = 0, he_threads = 0\<rparr> ?caps = Inr rt" by blast
  then show ?thesis
    using capabilities_gate [OF rt demo_flags_ok] c by blast
qed

section \<open>Starting\<close>

text \<open>Version skew.  A component whose surface lacks an expected function, or has it with another arity, is refused before it is touched: the
  error carries the skew, no instance exists, no thread was started and no fuel spent.  Otherwise the
  checked start is the plain start.\<close>

theorem skew_never_runs:
  assumes "list_all (\<lambda>(f, n). surface_name_ok f \<and> n < 2 ^ 64) ps" "expected = render_surface ps"
  shows "(if list_all (\<lambda>(f, n). find_arity (surface_of (wt_exports wt c)) f = Some n) ps
    then instantiate_checked wt c expected st = (map_err StartEngine (fst (instantiate wt c st)), snd (instantiate wt c st))
    else \<exists>skew. instantiate_checked wt c expected st = (Inl (StartSkew skew), st) \<and> sk_expected skew = expected)"
proof -
  have iff: "verify_surface (wt_exports wt c) expected = Inr () \<longleftrightarrow>
      list_all (\<lambda>(f, n). find_arity (surface_of (wt_exports wt c)) f = Some n) ps"
    unfolding verify_surface_def Let_def assms(2) parse_render_surface [OF assms(1)] by (rule verify_loop_ok)
  show ?thesis
  proof (cases "verify_surface (wt_exports wt c) expected")
    case (Inl skew)
    then show ?thesis using iff verify_surface_err [OF Inl] by (simp add: instantiate_checked_def)
  next
    case (Inr u)
    then show ?thesis using iff by (simp add: instantiate_checked_def split: prod.split)
  qed
qed

text \<open>A runtime without capabilities, before its first instantiation.\<close>

definition demo_start :: "host_engine \<times> unit component_runtime" where
  "demo_start = (\<lparr>he_epoch = 0, he_threads = 0\<rparr>, \<lparr>cr_caps = CAP_NONE, cr_wasi = \<lparr>wasi_stdio = False, wasi_preopens = []\<rparr>,
      cr_fuel = DEFAULT_FUEL, cr_deadline = 1, cr_instance = None, cr_spans = []\<rparr>)"

theorem skew_never_runs_witness:
  "\<exists>skew. instantiate_checked demo_engine () (render_surface [(''double'', 2)]) demo_start = (Inl (StartSkew skew), demo_start) \<and>
    sk_expected skew = render_surface [(''double'', 2)]"
  using skew_never_runs [of "[(''double'', 2)]" "render_surface [(''double'', 2)]" demo_engine "()" demo_start]
  by (simp add: surface_name_ok_def demo_engine_def surface_of_def find_arity_def List.map_filter_simps abi_flat_arity_def)

section \<open>Result slots\<close>

text \<open>The types of a result without a slot, in the order they are met: under options and record fields, and nowhere else.\<close>

fun unsupported :: "rty \<Rightarrow> string list" where
  "unsupported (ROption t) = unsupported t"
| "unsupported (RRecord fs) = concat (map (\<lambda>(_, t). unsupported t) fs)"
| "unsupported (ROther n) = [n]"
| "unsupported _ = []"

text \<open>The shape of a slot for a type.  The engine overwrites the slot of a stream or a future whole, and fills the payload of a
  result; their slots are the empty list and the success without payload.\<close>

fun shaped :: "rty \<Rightarrow> wval \<Rightarrow> bool" and fields_shaped :: "(string \<times> rty) list \<Rightarrow> (string \<times> wval) list \<Rightarrow> bool" where
  "shaped RBool v = (\<exists>b. v = WBool b)"
| "shaped RS8 v = (\<exists>n. v = WS8 n)"
| "shaped RU8 v = (\<exists>n. v = WU8 n)"
| "shaped RS16 v = (\<exists>n. v = WS16 n)"
| "shaped RU16 v = (\<exists>n. v = WU16 n)"
| "shaped RS32 v = (\<exists>n. v = WS32 n)"
| "shaped RU32 v = (\<exists>n. v = WU32 n)"
| "shaped RS64 v = (\<exists>n. v = WS64 n)"
| "shaped RU64 v = (\<exists>n. v = WU64 n)"
| "shaped RFloat32 v = (\<exists>n. v = WFloat32 n)"
| "shaped RFloat64 v = (\<exists>n. v = WFloat64 n)"
| "shaped RChar v = (\<exists>c. v = WChar [c])"
| "shaped RString v = (\<exists>s. v = WString s)"
| "shaped (ROption t) v = (v = WOption None \<or> (\<exists>w. v = WOption (Some w) \<and> shaped t w))"
| "shaped (RRecord fs) v = (\<exists>vs. v = WRecord vs \<and> fields_shaped fs vs)"
| "shaped (RList t) v = (\<exists>vs. v = WList vs \<and> (\<forall>w \<in> set vs. shaped t w))"
| "shaped RStream v = (v = WList [])"
| "shaped RFuture v = (v = WList [])"
| "shaped RResult v = (v = WOk None)"
| "shaped (ROther _) v = False"
| "fields_shaped [] vs = (vs = [])"
| "fields_shaped ((n, t) # fs) vs = (\<exists>v vs'. vs = (n, v) # vs' \<and> shaped t v \<and> fields_shaped fs vs')"

text \<open>A value without content: false, zero, empty, and present down to its leaves.\<close>

fun blank :: "wval \<Rightarrow> bool" where
  "blank (WBool b) = (\<not> b)"
| "blank (WU8 n) = (n = 0)" | "blank (WU16 n) = (n = 0)" | "blank (WU32 n) = (n = 0)" | "blank (WU64 n) = (n = 0)"
| "blank (WS8 n) = (n = 0)" | "blank (WS16 n) = (n = 0)" | "blank (WS32 n) = (n = 0)" | "blank (WS64 n) = (n = 0)"
| "blank (WFloat32 n) = (n = 0)" | "blank (WFloat64 n) = (n = 0)"
| "blank (WChar c) = (c = [CHR 0x00])"
| "blank (WString s) = (s = [])"
| "blank (WOption v) = (case v of None \<Rightarrow> False | Some w \<Rightarrow> blank w)"
| "blank (WRecord vs) = list_all (\<lambda>(_, v). blank v) vs"
| "blank (WList vs) = (vs = [])"
| "blank (WOk v) = (v = None)"
| "blank _ = False"

lemma default_val_spec:
  "case unsupported t of n # _ \<Rightarrow> default_val t = Inl (UnsupportedResult n)
   | [] \<Rightarrow> \<exists>v. default_val t = Inr v \<and> shaped t v \<and> blank v"
  "case concat (map (\<lambda>(_, t). unsupported t) fs) of n # _ \<Rightarrow> default_fields fs = Inl (UnsupportedResult n)
   | [] \<Rightarrow> \<exists>vs. default_fields fs = Inr vs \<and> fields_shaped fs vs \<and> list_all (\<lambda>(_, v). blank v) vs"
  by (induction t and fs rule: default_val_default_fields.induct)
    (auto simp: and_then_def simp del: concat_eq_Nil_conv split: list.splits sum.splits)

lemma default_slots_spec:
  "case concat (map unsupported ts) of n # _ \<Rightarrow> default_slots ts = Inl (UnsupportedResult n)
   | [] \<Rightarrow> \<exists>slots. default_slots ts = Inr slots \<and> list_all2 (\<lambda>t v. shaped t v \<and> blank v) ts slots"
proof (induction ts)
  case (Cons t ts)
  then show ?case
    using default_val_spec(1) [of t] by (auto simp: and_then_def simp del: concat_eq_Nil_conv split: list.splits)
qed simp

text \<open>The span a call records.\<close>

definition span_of :: "string \<Rightarrow> (string \<times> string) list" where
  "span_of f = map (\<lambda>s. (ss_name s, ss_delivery s)) (case find (\<lambda>s. ss_name s = f) SPANS of None \<Rightarrow> [] | Some s \<Rightarrow> [s])"

text \<open>C40: Result slots.  A call of an existing export whose result types contain, under options and record fields, a type without a slot
  fails with the name of the first such type, in the order of the results, before the engine is entered: only its span is
  recorded.  Otherwise the engine is given one slot per result, in order: each has the shape of its type, with the record's field
  names in order, and no content (false, zero, empty, options present down to their leaves); the slot of a stream, a future or a
  list is the empty list, that of a result the success without payload.\<close>

theorem result_slots:
  assumes "cr_instance rt = Some i" "wt_results wt i f = Some ts"
  shows "case concat (map unsupported ts) of
      n # _ \<Rightarrow> rt_call wt f args (en, rt) =
        (Inl (UnsupportedResult n), en, rt\<lparr>cr_spans := cr_spans rt @ span_of f\<rparr>)
    | [] \<Rightarrow> \<exists>slots. list_all2 (\<lambda>t v. shaped t v \<and> blank v) ts slots \<and>
        rt_call wt f args (en, rt) =
          (case wt_call wt (he_epoch en) (cr_deadline rt) (cr_fuel rt) i f args slots of (r, i', fuel) \<Rightarrow>
            (map_err EngineFault r, en,
             rt\<lparr>cr_spans := cr_spans rt @ span_of f, cr_instance := Some i', cr_fuel := fuel\<rparr>))"
proof -
  have spans: "(case find (\<lambda>s. ss_name s = f) SPANS of
      Some s \<Rightarrow> rt\<lparr>cr_spans := cr_spans rt @ [(ss_name s, ss_delivery s)]\<rparr> | None \<Rightarrow> rt) =
    rt\<lparr>cr_spans := cr_spans rt @ span_of f\<rparr>"
    by (simp add: span_of_def split: option.split)
  show ?thesis
    using default_slots_spec [of ts] assms
    by (auto simp: rt_call_def Let_def spans simp del: concat_eq_Nil_conv split: list.splits prod.splits)
qed

text \<open>An engine whose exports have an optional record, a stream and a flags value as results.\<close>

definition mixed_engine :: "rty list \<Rightarrow> (unit, unit) wasmtime" where
  "mixed_engine ts = demo_engine\<lparr>wt_results := \<lambda>_ _. Some ts, wt_call := \<lambda>_ _ fuel _ _ _ slots. (Inr slots, (), fuel)\<rparr>"

theorem result_slots_witness:
  "rt_call (mixed_engine [RU8, ROption (RRecord [(''f'', ROther ''flags''), (''g'', ROther ''map'')])]) ''double'' []
      (fst demo_start, (snd demo_start)\<lparr>cr_instance := Some ()\<rparr>) =
    (Inl (UnsupportedResult ''flags''), fst demo_start, (snd demo_start)\<lparr>cr_instance := Some (), cr_spans := [(''double'', ''once'')]\<rparr>)"
  using result_slots [of "(snd demo_start)\<lparr>cr_instance := Some ()\<rparr>" "()"
      "mixed_engine [RU8, ROption (RRecord [(''f'', ROther ''flags''), (''g'', ROther ''map'')])]" "''double''"
      "[RU8, ROption (RRecord [(''f'', ROther ''flags''), (''g'', ROther ''map'')])]" "[]" "fst demo_start"]
  by (simp add: mixed_engine_def demo_start_def span_of_def SPANS_def)

section \<open>The life of a runtime\<close>

text \<open>What the engine documents: a store whose deadline the epoch has reached traps.\<close>

definition epoch_law :: "('c, 'i) wasmtime \<Rightarrow> bool" where
  "epoch_law wt \<longleftrightarrow> (\<forall>e d fuel i f args slots. d \<le> e \<longrightarrow> (\<exists>msg. fst (wt_call wt e d fuel i f args slots) = Inl msg))"

lemma expired_call:
  assumes "epoch_law wt" "cr_deadline rt \<le> he_epoch en"
  shows "\<exists>e. fst (rt_call wt f args (en, rt)) = Inl e"
proof -
  have "\<exists>msg. fst (wt_call wt (he_epoch en) (cr_deadline rt) fuel i f args slots) = Inl msg" for fuel i slots
    using assms unfolding epoch_law_def by blast
  then have call: "\<exists>e. map_err EngineFault (fst (wt_call wt (he_epoch en) (cr_deadline rt) fuel i f args slots)) = Inl e" for fuel i slots
    by (metis map_err_simps)
  show ?thesis
  proof (cases "cr_instance rt")
    case (Some i)
    then show ?thesis
      using call [of "cr_fuel rt" i]
      by (auto simp: rt_call_def Let_def split: option.split sum.split prod.split)
        (metis fst_conv)+
  qed (simp add: rt_call_def)
qed

text \<open>C32: A runtime expires.  The deadline is set once, one increment beyond the epoch at construction, and nothing the runtime does moves it; so after
  the first increment by any thread of the shared engine, whatever happened in between, every call of the runtime fails for good.  Each
  instantiation on the engine, of this or of another runtime, adds a thread, and one interval adds all of them to the epoch.\<close>

theorem runtime_expires:
  assumes "runtime_new wt en caps = Inr rt" "host_run wt ops (en, rt) = (en', rt')"
    and "he_epoch en < he_epoch en'" "epoch_law wt"
  shows "cr_deadline rt' = he_epoch en + 1 \<and>
    (\<exists>e. fst (rt_call wt f args (en', rt')) = Inl e) \<and>
    (\<forall>more. \<exists>e. fst (rt_call wt f args (host_run wt more (en', rt'))) = Inl e) \<and>
    he_epoch (fst (host_step wt OpTick (host_step wt OpOther (en', rt')))) = he_epoch en' + he_threads en' + 1"
proof -
  have d0: "cr_deadline rt = he_epoch en + 1"
    using assms(1) by (auto simp: runtime_new_def Let_def result_simps)
  note dead = expired_call [OF assms(4)]
  have k: "cr_deadline rt' = he_epoch en + 1"
    using host_run_keeps [OF assms(2)] d0 by simp
  have "\<exists>e. fst (rt_call wt f args (host_run wt more (en', rt'))) = Inl e" for more
  proof -
    obtain en2 rt2 where h: "host_run wt more (en', rt') = (en2, rt2)" by (rule prod.exhaust)
    then show ?thesis
      using host_run_keeps [OF h] k assms(3) dead [of rt2 en2] by simp
  qed
  then show ?thesis
    using dead [of rt' en'] k assms(3) by (simp add: tick_def start_epoch_thread_def)
qed

theorem runtime_expires_witness:
  "\<exists>rt en' rt'. runtime_new demo_engine \<lparr>he_epoch = 0, he_threads = 0\<rparr> CAP_NONE = Inr rt \<and>
    host_run demo_engine [OpInstantiate (), OpTick] (\<lparr>he_epoch = 0, he_threads = 0\<rparr>, rt) = (en', rt') \<and>
    (\<exists>e. fst (rt_call demo_engine ''double'' [WU64 21] (en', rt')) = Inl e)"
proof -
  let ?en = "\<lparr>he_epoch = 0, he_threads = 0\<rparr>"
  have "\<exists>rt. runtime_new demo_engine ?en CAP_NONE = Inr rt"
    by (simp add: runtime_new_def demo_engine_def Let_def map_err_def split: list.split)
  then obtain rt where rt: "runtime_new demo_engine ?en CAP_NONE = Inr rt" by blast
  obtain en' rt' where h: "host_run demo_engine [OpInstantiate (), OpTick] (?en, rt) = (en', rt')"
    by (rule prod.exhaust)
  then have "he_epoch en' = 1"
    by (auto simp: host_run_def instantiate_def tick_def start_epoch_thread_def demo_engine_def Let_def)
  moreover have "epoch_law demo_engine"
    by (simp add: epoch_law_def demo_engine_def)
  ultimately show ?thesis
    using runtime_expires [OF rt h, of "''double''" "[WU64 21]"] rt h by auto
qed

section \<open>Histories of a runtime\<close>

text \<open>What one operation records.\<close>

fun op_spans :: "('c, 'i) host_op \<Rightarrow> (string \<times> string) list" where
  "op_spans (OpCall f args) = span_of f"
| "op_spans _ = []"

fun is_start :: "('c, 'i) host_op \<Rightarrow> bool" where
  "is_start (OpInstantiate c) = True"
| "is_start (OpChecked c s) = True"
| "is_start _ = False"

lemma rt_call_records:
  "rt_call wt f args (en, rt) = (r, en', rt') \<Longrightarrow>
    cr_spans rt' = (if cr_instance rt = None then cr_spans rt else cr_spans rt @ span_of f) \<and>
    (cr_instance rt' = None \<longleftrightarrow> cr_instance rt = None)"
  by (auto simp: rt_call_def span_of_def Let_def split: prod.splits sum.splits option.splits)

lemma instantiate_records:
  "instantiate wt c (en, rt) = (r, en', rt') \<Longrightarrow>
    cr_spans rt' = cr_spans rt \<and> (cr_instance rt \<noteq> None \<longrightarrow> cr_instance rt' \<noteq> None)"
  by (auto simp: instantiate_def Let_def split: prod.splits sum.splits)

lemma instantiate_checked_records:
  "instantiate_checked wt c s (en, rt) = (r, en', rt') \<Longrightarrow>
    cr_spans rt' = cr_spans rt \<and> (cr_instance rt \<noteq> None \<longrightarrow> cr_instance rt' \<noteq> None)"
  by (auto simp: instantiate_checked_def split: prod.splits sum.splits dest: instantiate_records)

lemma host_step_records:
  assumes "host_step wt op (en, rt) = (en', rt')"
  shows "cr_spans rt' = (if cr_instance rt = None then cr_spans rt else cr_spans rt @ op_spans op) \<and>
    (cr_instance rt \<noteq> None \<longrightarrow> cr_instance rt' \<noteq> None) \<and> (\<not> is_start op \<longrightarrow> cr_instance rt = None \<longrightarrow> cr_instance rt' = None)"
proof (cases op)
  case (OpInstantiate c)
  obtain r where r: "instantiate wt c (en, rt) = (r, en', rt')"
    using assms OpInstantiate by (cases "instantiate wt c (en, rt)") simp
  then show ?thesis using OpInstantiate instantiate_records [OF r] by auto
next
  case (OpChecked c s)
  obtain r where r: "instantiate_checked wt c s (en, rt) = (r, en', rt')"
    using assms OpChecked by (cases "instantiate_checked wt c s (en, rt)") simp
  then show ?thesis using OpChecked instantiate_checked_records [OF r] by auto
next
  case (OpCall f args)
  obtain r where r: "rt_call wt f args (en, rt) = (r, en', rt')"
    using assms OpCall by (cases "rt_call wt f args (en, rt)") simp
  then show ?thesis using OpCall rt_call_records [OF r] by auto
qed (use assms in \<open>auto simp: use_store_def split: prod.splits\<close>)

text \<open>\<open>start_split pre post\<close>: of a history, \<open>pre\<close> is the part up to the operation that first leaves an
  instance, and \<open>post\<close> the rest.\<close>

definition start_split :: "('c, 'i) wasmtime \<Rightarrow> host_engine \<times> 'i component_runtime \<Rightarrow> ('c, 'i) host_op list \<Rightarrow> ('c, 'i) host_op list \<Rightarrow> bool" where
  "start_split wt st pre post \<longleftrightarrow>
     list_all (\<lambda>n. cr_instance (snd (host_run wt (take n pre) st)) = None) [0..<length pre] \<and>
     (post \<noteq> [] \<longrightarrow> cr_instance (snd (host_run wt pre st)) \<noteq> None)"

lemma start_split_Nil: "start_split wt (en, rt) [] post \<longleftrightarrow> post = [] \<or> cr_instance rt \<noteq> None"
  by (auto simp: start_split_def host_run_def)

lemma start_split_Cons:
  "host_step wt op (en, rt) = st \<Longrightarrow> start_split wt st pre post \<Longrightarrow> cr_instance rt = None \<Longrightarrow>
    start_split wt (en, rt) (op # pre) post"
  by (auto simp: start_split_def host_run_Cons host_run_def [where ops = "[]"] list_all_iff take_Cons split: nat.splits)

lemma host_run_records:
  "host_run wt ops (en, rt) = (en', rt') \<Longrightarrow>
    (\<exists>pre post. ops = pre @ post \<and> cr_spans rt' = cr_spans rt @ concat (map op_spans post) \<and>
      start_split wt (en, rt) pre post \<and> (cr_instance rt \<noteq> None \<longrightarrow> pre = [])) \<and>
    (cr_instance rt \<noteq> None \<longrightarrow> cr_instance rt' \<noteq> None) \<and>
    (cr_instance rt = None \<longrightarrow> \<not> list_ex is_start ops \<longrightarrow> cr_instance rt' = None)"
proof (induction ops arbitrary: en rt)
  case Nil
  then show ?case by (simp add: host_run_def start_split_Nil)
next
  case (Cons op ops)
  obtain en1 rt1 where s: "host_step wt op (en, rt) = (en1, rt1)" by (rule prod.exhaust)
  note step = host_step_records [OF s]
  have run: "host_run wt ops (en1, rt1) = (en', rt')"
    using Cons.prems s by (simp add: host_run_Cons)
  obtain pre post where ih: "ops = pre @ post" "cr_spans rt' = cr_spans rt1 @ concat (map op_spans post)" "start_split wt (en1, rt1) pre post"
      "cr_instance rt1 \<noteq> None \<longrightarrow> pre = []" "cr_instance rt1 \<noteq> None \<longrightarrow> cr_instance rt' \<noteq> None"
      "cr_instance rt1 = None \<longrightarrow> \<not> list_ex is_start ops \<longrightarrow> cr_instance rt' = None"
    using Cons.IH [OF run] by (elim exE conjE)
  show ?case
  proof (cases "cr_instance rt = None")
    case True
    then show ?thesis
      using step ih start_split_Cons [OF s ih(3)] by (intro conjI exI [of _ "op # pre"] exI [of _ post]) auto
  next
    case False
    then show ?thesis
      using step ih by (intro conjI exI [of _ "[]"] exI [of _ "op # ops"]) (auto simp: start_split_Nil)
  qed
qed

text \<open>C5: The invariant of a runtime.  Whatever sequence of instantiations, checked instantiations, calls, uses of the store it lends out
  (typed and concurrent calls, with any effect on the instance's state and the fuel, but leaving the store's deadline and its wiring, as all
  of the repository's do), intervals of time and starts of other runtimes happens to a runtime and to the engine it shares,
  its capabilities, the context they wire up and
  its deadline stay as construction set them; an instance exists only after a start and is never lost; and the spans it recorded are those of the
  calls of its own after the operation that first left an instance, in order, each such call of a function the world exports
  recorded once; a call made through the store records none.\<close>

theorem runtime_invariant:
  fixes wt :: "('c, 'i) wasmtime"
  assumes "runtime_new wt en caps = Inr rt" "host_run wt ops (en, rt) = (en', rt')"
  shows "cr_caps rt' = caps \<and> cr_wasi rt' = wasi_for (wt_flags wt) caps \<and> cr_deadline rt' = he_epoch en + 1 \<and>
    he_epoch en \<le> he_epoch en' \<and> he_threads en \<le> he_threads en' \<and>
    (cr_instance rt' \<noteq> None \<longrightarrow> list_ex is_start ops \<and> (\<forall>more. cr_instance (snd (host_run wt more (en', rt'))) \<noteq> None)) \<and>
    (\<exists>pre post. ops = pre @ post \<and> start_split wt (en, rt) pre post \<and> cr_spans rt' = concat (map op_spans post)) \<and>
    set (cr_spans rt') \<subseteq> (\<lambda>s. (ss_name s, ss_delivery s)) ` set SPANS"
proof -
  have new: "cr_caps rt = caps" "cr_wasi rt = wasi_for (wt_flags wt) caps" "cr_deadline rt = he_epoch en + 1"
      "cr_instance rt = None" "cr_spans rt = []"
    using assms(1) by (auto simp: runtime_new_def Let_def result_simps)
  have known: "set (op_spans op) \<subseteq> (\<lambda>s. (ss_name s, ss_delivery s)) ` set SPANS" for op :: "('c, 'i) host_op"
  proof (cases op)
    case (OpCall f args)
    show ?thesis
    proof (cases "find (\<lambda>s. ss_name s = f) SPANS")
      case (Some s)
      then have "s \<in> set SPANS" by (metis find_Some_iff nth_mem)
      then show ?thesis using OpCall Some by (simp add: span_of_def)
    qed (simp add: OpCall span_of_def)
  qed simp_all
  obtain pre post where run: "ops = pre @ post" "cr_spans rt' = concat (map op_spans post)" "start_split wt (en, rt) pre post"
      "\<not> list_ex is_start ops \<longrightarrow> cr_instance rt' = None"
    using host_run_records [OF assms(2)] new(4,5) by auto
  have more: "cr_instance (snd (host_run wt more (en', rt'))) \<noteq> None" if "cr_instance rt' \<noteq> None" for more
    using that host_run_records [of wt more en' rt'] by (cases "host_run wt more (en', rt')") auto
  have "set (cr_spans rt') \<subseteq> (\<lambda>s. (ss_name s, ss_delivery s)) ` set SPANS"
    unfolding run(2) by (induction post) (simp_all add: known)
  then show ?thesis
    using host_run_keeps [OF assms(2)] new run more by auto
qed

theorem runtime_invariant_witness:
  "\<exists>rt en' rt'. runtime_new demo_engine \<lparr>he_epoch = 3, he_threads = 0\<rparr> CAP_NONE = Inr rt \<and>
    host_run demo_engine [OpCall ''double'' [], OpInstantiate (), OpCall ''double'' [WU64 4], OpStore (\<lambda>_ n. ((), n - 7)), OpCall ''nope'' [], OpTick] (\<lparr>he_epoch = 3, he_threads = 0\<rparr>, rt) = (en', rt') \<and>
    cr_spans rt' = [(''double'', ''once'')] \<and> cr_deadline rt' = 4 \<and>
    cr_instance (snd (host_run demo_engine [OpTick] (en', rt'))) \<noteq> None"
proof -
  let ?en = "\<lparr>he_epoch = 3, he_threads = 0\<rparr>"
  let ?ops = "[OpCall ''double'' [], OpInstantiate (), OpCall ''double'' [WU64 4], OpStore (\<lambda>_ n. ((), n - 7)), OpCall ''nope'' [], OpTick]"
  obtain rt :: "unit component_runtime" where new: "runtime_new demo_engine ?en CAP_NONE = Inr rt"
    by (auto simp: runtime_new_def wasi_for_def cap_none demo_engine_def map_err_simps)
  obtain en' rt' where h: "host_run demo_engine ?ops (?en, rt) = (en', rt')" by (rule prod.exhaust)
  have "cr_instance rt = None" "cr_spans rt = []"
    using new by (auto simp: runtime_new_def Let_def result_simps)
  then have "cr_instance rt' \<noteq> None" "cr_spans rt' = [(''double'', ''once'')]"
    using h by (auto simp: host_run_def use_store_def rt_call_def instantiate_def tick_def start_epoch_thread_def demo_engine_def SPANS_def Let_def map_err_simps)
  then show ?thesis
    using runtime_invariant [OF new h] new h by auto
qed

section \<open>The observed surface\<close>

text \<open>The flat width of a field's type: a user has its four fields, an order error a tag and a payload.\<close>

definition field_width :: "string \<Rightarrow> nat" where
  "field_width t = (if t = ''user'' then 4 else if t = ''order-error'' then 2 else 1)"

text \<open>Every function of the startup surface is observed, once and with as many flat parameters; the only other span is
  the asynchronous export.\<close>

lemma spans_cover_surface:
  "distinct (map ss_name SPANS)"
  "set (map (\<lambda>s. (ss_name s, sum_list (map (field_width \<circ> snd) (ss_fields s)))) SPANS) =
    insert (''watch-orders'', 2) (set demo_surface)"
  by (simp_all add: SPANS_def field_width_def demo_surface_def insert_commute numeral_2_eq_2 numeral_3_eq_3)

end
