(* ===== verification/Interpreter.thy ===== *)
theory Interpreter
  imports Text
begin

text \<open>
  The embeddable core interpreter (\<open>crates/guestlang-rt/src/lib.rs\<close>): the deterministic
  engine profile, the linking of every import to a trap, calls with the scalar coercions
  and the fuel account, and the snapshot of a runtime with its restore.

  The interpreter engine is third-party code: the record \<open>wasmi\<close>, whose store carries the
  linear memory and the fuel.  \<open>engine_laws\<close> states what its documentation says of them:
  a memory is whole pages, growing appends zero pages, writing replaces a prefix that fits,
  and a call does not add fuel.
\<close>

section \<open>Values and the engine\<close>

datatype val_type = TI32 | TI64 | TOther string

datatype core_val = VI32 i32 | VI64 i64 | VOther string

type_synonym func_type = "val_type list \<times> val_type list"

datatype import_type = ImportFunc func_type | ImportOther

text \<open>The feature set the engine is configured with.\<close>

record engine_profile =
  consume_fuel :: bool
  lazy_translation :: bool
  floats :: bool
  wasm_memory64 :: bool
  wasm_multi_memory :: bool
  wasm_wide_arithmetic :: bool
  wasm_custom_page_sizes :: bool

definition deterministic_profile :: engine_profile where
  "deterministic_profile = \<lparr>consume_fuel = True, lazy_translation = True, floats = False, wasm_memory64 = False,
     wasm_multi_memory = False, wasm_wide_arithmetic = False, wasm_custom_page_sizes = False\<rparr>"

record ('m, 'l, 'i, 's) wasmi =
  wi_module :: "engine_profile \<Rightarrow> bytes \<Rightarrow> string + 'm"
  wi_imports :: "'m \<Rightarrow> (string \<times> string \<times> import_type) list"
  wi_store :: "engine_profile \<Rightarrow> 's"
  wi_set_fuel :: "u64 \<Rightarrow> 's \<Rightarrow> string + 's"
  wi_get_fuel :: "'s \<Rightarrow> string + u64"
  wi_linker :: "engine_profile \<Rightarrow> 'l"
  wi_trap_func :: "string \<Rightarrow> string \<Rightarrow> func_type \<Rightarrow> string \<Rightarrow> 'l \<Rightarrow> string + 'l"
  wi_instantiate :: "'l \<Rightarrow> 'm \<Rightarrow> 's \<Rightarrow> string + 'i \<times> 's"
  wi_func :: "'i \<Rightarrow> 's \<Rightarrow> string \<Rightarrow> func_type option"
  wi_call :: "'i \<Rightarrow> string \<Rightarrow> core_val list \<Rightarrow> core_val list \<Rightarrow> 's \<Rightarrow> (string + core_val list) \<times> 's"
  wi_memory :: "'i \<Rightarrow> string \<Rightarrow> 's \<Rightarrow> bytes option"
  wi_mem_grow :: "'i \<Rightarrow> string \<Rightarrow> u64 \<Rightarrow> 's \<Rightarrow> string + 's"
  wi_mem_write :: "'i \<Rightarrow> string \<Rightarrow> nat \<Rightarrow> bytes \<Rightarrow> 's \<Rightarrow> string + 's"

text \<open>
  \<open>wi_trap_func\<close> defines an import as a function that fails with the given message;
  \<open>wi_call\<close> is given the result slots; \<open>wi_memory\<close> is the content of an exported memory.
\<close>

section \<open>Errors\<close>

datatype rt_error = RtError string

definition em_dash :: string where
  "em_dash = [CHR 0xE2, CHR 0x80, CHR 0x94]"

text \<open>\<open>From<wasmi::Error>\<close>, also the message of a failed link.\<close>

definition wasmi_error :: "string \<Rightarrow> rt_error" where
  "wasmi_error e = RtError (''wasmi: '' @ e)"

definition non_func_import :: "string \<Rightarrow> string \<Rightarrow> rt_error" where
  "non_func_import md name = RtError (''guestlang-rt: non-func import `'' @ md @ ''::'' @ name @ ''` '' @ em_dash @
     '' not supported standalone'')"

definition async_trap :: string where
  "async_trap = ''guestlang-rt: async task-intrinsic called '' @ em_dash @
     '' async requires a wasi 0.3 host (wasmtime / guestlang-host)''"

definition no_memory :: rt_error where
  "no_memory = RtError (''guestlang-rt: no `memory` export '' @ em_dash @
     '' snapshot/restore requires it (the compiler line'' @ [CHR 0x27] @ ''s modules export it)'')"

section \<open>The runtime\<close>

record ('i, 's) core_runtime =
  rt_store :: 's
  rt_instance :: 'i

text \<open>Every import is linked as a trap; an import that is not a function is refused.\<close>

fun link_imports :: "('m, 'l, 'i, 's) wasmi \<Rightarrow> (string \<times> string \<times> import_type) list \<Rightarrow> 'l \<Rightarrow> rt_error + 'l" where
  "link_imports wa [] l = Inr l"
| "link_imports wa ((md, name, ImportFunc ft) # rest) l =
     and_then (map_err wasmi_error (wi_trap_func wa md name ft async_trap l)) (link_imports wa rest)"
| "link_imports wa ((md, name, ImportOther) # rest) l = Inl (non_func_import md name)"

definition core_new :: "('m, 'l, 'i, 's) wasmi \<Rightarrow> bytes \<Rightarrow> u64 \<Rightarrow> rt_error + ('i, 's) core_runtime" where
  "core_new wa wasm fuel =
     and_then (map_err wasmi_error (wi_module wa deterministic_profile wasm)) (\<lambda>m.
     and_then (map_err wasmi_error (wi_set_fuel wa fuel (wi_store wa deterministic_profile))) (\<lambda>s.
     and_then (link_imports wa (wi_imports wa m) (wi_linker wa deterministic_profile)) (\<lambda>l.
     and_then (map_err wasmi_error (wi_instantiate wa l m s)) (\<lambda>(i, s').
       Inr \<lparr>rt_store = s', rt_instance = i\<rparr>))))"

text \<open>\<open>*a as i32\<close> keeps the low half; \<open>*x as i64\<close> extends the sign.\<close>

definition coerce_arg :: "val_type \<Rightarrow> i64 \<Rightarrow> core_val" where
  "coerce_arg t a = (case t of TI32 \<Rightarrow> VI32 (ucast a) | _ \<Rightarrow> VI64 a)"

definition scalar_of :: "core_val \<Rightarrow> i64" where
  "scalar_of v = (case v of VI64 x \<Rightarrow> x | VI32 x \<Rightarrow> scast x | VOther _ \<Rightarrow> 0)"

definition core_call :: "('m, 'l, 'i, 's) wasmi \<Rightarrow> string \<Rightarrow> i64 list \<Rightarrow> u64 \<Rightarrow> ('i, 's) core_runtime \<Rightarrow>
    (rt_error + i64 list \<times> u64) \<times> ('i, 's) core_runtime" where
  "core_call wa func args fuel rt = (case wi_func wa (rt_instance rt) (rt_store rt) func of
       None \<Rightarrow> (Inl (RtError (''no export: '' @ func)), rt)
     | Some (params, results) \<Rightarrow>
         if length params \<noteq> length args then
           (Inl (RtError (''arity: '' @ func @ '' expects '' @ show_nat (length params) @ '' args, got '' @ show_nat (length args))), rt)
         else
           let vals = map (\<lambda>(t, a). coerce_arg t a) (zip params args); slots = replicate (length results) (VI64 0) in
           case wi_set_fuel wa fuel (rt_store rt) of
             Inl e \<Rightarrow> (Inl (wasmi_error e), rt)
           | Inr s \<Rightarrow> (case wi_call wa (rt_instance rt) func vals slots s of
               (Inl e, s') \<Rightarrow> (Inl (wasmi_error e), rt\<lparr>rt_store := s'\<rparr>)
             | (Inr outs, s') \<Rightarrow> (case wi_get_fuel wa s' of
                 Inl e \<Rightarrow> (Inl (wasmi_error e), rt\<lparr>rt_store := s'\<rparr>)
               | Inr remaining \<Rightarrow> (Inr (map scalar_of outs, fuel - remaining), rt\<lparr>rt_store := s'\<rparr>))))"

definition core_fuel :: "('m, 'l, 'i, 's) wasmi \<Rightarrow> ('i, 's) core_runtime \<Rightarrow> rt_error + u64" where
  "core_fuel wa rt = map_err wasmi_error (wi_get_fuel wa (rt_store rt))"

definition core_memory :: "('m, 'l, 'i, 's) wasmi \<Rightarrow> ('i, 's) core_runtime \<Rightarrow> rt_error + bytes" where
  "core_memory wa rt = (case wi_memory wa (rt_instance rt) ''memory'' (rt_store rt) of
       None \<Rightarrow> Inl no_memory | Some d \<Rightarrow> Inr d)"

section \<open>Snapshots\<close>

record core_snapshot =
  sn_memory :: bytes
  sn_fuel :: u64

definition take_snapshot :: "('m, 'l, 'i, 's) wasmi \<Rightarrow> ('i, 's) core_runtime \<Rightarrow> rt_error + core_snapshot" where
  "take_snapshot wa rt = and_then (core_memory wa rt) (\<lambda>d.
     and_then (map_err wasmi_error (wi_get_fuel wa (rt_store rt))) (\<lambda>f. Inr \<lparr>sn_memory = d, sn_fuel = f\<rparr>))"

definition div_ceil :: "nat \<Rightarrow> nat \<Rightarrow> nat" where
  "div_ceil n d = (n + d - 1) div d"

text \<open>The memory is grown when the image is larger, then the image is written over it.\<close>

definition grow_to_fit :: "('m, 'l, 'i, 's) wasmi \<Rightarrow> nat \<Rightarrow> nat \<Rightarrow> ('i, 's) core_runtime \<Rightarrow> rt_error + 's" where
  "grow_to_fit wa want cur rt =
     (if want > cur then
        map_err (\<lambda>e. RtError (''snapshot restore: memory grow: '' @ e))
          (wi_mem_grow wa (rt_instance rt) ''memory'' (word_of_nat (div_ceil (want - cur) 65536)) (rt_store rt))
      else Inr (rt_store rt))"

definition core_restore :: "('m, 'l, 'i, 's) wasmi \<Rightarrow> core_snapshot \<Rightarrow> bytes \<Rightarrow> rt_error + ('i, 's) core_runtime" where
  "core_restore wa sn wasm =
     and_then (core_new wa wasm (sn_fuel sn)) (\<lambda>rt.
     and_then (core_memory wa rt) (\<lambda>d.
     and_then (grow_to_fit wa (length (sn_memory sn)) (length d) rt) (\<lambda>s.
     and_then (map_err (\<lambda>e. RtError (''snapshot restore: memory write: '' @ e))
         (wi_mem_write wa (rt_instance rt) ''memory'' 0 (sn_memory sn) s)) (\<lambda>s'.
       Inr (rt\<lparr>rt_store := s'\<rparr>)))))"

section \<open>One-shot calls\<close>

definition invoke_core_fueled :: "('m, 'l, 'i, 's) wasmi \<Rightarrow> bytes \<Rightarrow> string \<Rightarrow> i64 list \<Rightarrow> u64 \<Rightarrow> rt_error + i64 list \<times> u64" where
  "invoke_core_fueled wa wasm func args fuel = and_then (core_new wa wasm fuel) (\<lambda>rt. fst (core_call wa func args fuel rt))"

definition invoke_core :: "('m, 'l, 'i, 's) wasmi \<Rightarrow> bytes \<Rightarrow> string \<Rightarrow> i64 list \<Rightarrow> u64 \<Rightarrow> rt_error + i64 list" where
  "invoke_core wa wasm func args fuel = and_then (invoke_core_fueled wa wasm func args fuel) (\<lambda>(r, _). Inr r)"

definition invoke_core_vals :: "('m, 'l, 'i, 's) wasmi \<Rightarrow> bytes \<Rightarrow> string \<Rightarrow> core_val list \<Rightarrow> u64 \<Rightarrow> rt_error + i64 list" where
  "invoke_core_vals wa wasm func args fuel = invoke_core wa wasm func (map scalar_of args) fuel"

section \<open>What the engine documents\<close>

definition fuel_law :: "('m, 'l, 'i, 's) wasmi \<Rightarrow> bool" where
  "fuel_law wa \<longleftrightarrow> (\<forall>n s s'. wi_set_fuel wa n s = Inr s' \<longrightarrow> wi_get_fuel wa s' = Inr n)"

definition call_law :: "('m, 'l, 'i, 's) wasmi \<Rightarrow> bool" where
  "call_law wa \<longleftrightarrow> (\<forall>i f vals slots s n m. wi_get_fuel wa s = Inr n \<longrightarrow>
     wi_get_fuel wa (snd (wi_call wa i f vals slots s)) = Inr m \<longrightarrow> m \<le> n)"

definition page_law :: "('m, 'l, 'i, 's) wasmi \<Rightarrow> bool" where
  "page_law wa \<longleftrightarrow> (\<forall>i name s d. wi_memory wa i name s = Some d \<longrightarrow> 65536 dvd length d \<and> length d \<le> 65536 * 65536)"

definition grow_law :: "('m, 'l, 'i, 's) wasmi \<Rightarrow> bool" where
  "grow_law wa \<longleftrightarrow> (\<forall>i name p s s' d. wi_memory wa i name s = Some d \<longrightarrow> wi_mem_grow wa i name p s = Inr s' \<longrightarrow>
     wi_memory wa i name s' = Some (d @ replicate (unat p * 65536) 0) \<and> wi_get_fuel wa s' = wi_get_fuel wa s)"

definition write_law :: "('m, 'l, 'i, 's) wasmi \<Rightarrow> bool" where
  "write_law wa \<longleftrightarrow> (\<forall>i name bs s d. wi_memory wa i name s = Some d \<longrightarrow> length bs \<le> length d \<longrightarrow>
     (case wi_mem_write wa i name 0 bs s of Inl e \<Rightarrow> False
      | Inr s' \<Rightarrow> wi_memory wa i name s' = Some (bs @ drop (length bs) d) \<and> wi_get_fuel wa s' = wi_get_fuel wa s))"

definition engine_laws :: "('m, 'l, 'i, 's) wasmi \<Rightarrow> bool" where
  "engine_laws wa \<longleftrightarrow> fuel_law wa \<and> call_law wa \<and> page_law wa \<and> grow_law wa \<and> write_law wa"

lemma div_ceil_exact:
  assumes "k dvd n" "0 < k"
  shows "div_ceil n k * k = n"
proof -
  obtain m where m: "n = k * m" using assms(1) by (rule dvdE)
  have "n + k - 1 = (k - 1) + k * m" using m assms(2) by simp
  then have "(n + k - 1) div k = m + (k - 1) div k"
    using div_mult_self2 [of k "k - 1" m] assms(2) by simp
  then have "(n + k - 1) div k = m"
    using assms(2) by simp
  then show ?thesis using m by (simp add: div_ceil_def)
qed

lemma coerce_scalar_of:
  "coerce_arg TI32 (scalar_of (VI32 x)) = VI32 x" "coerce_arg TI64 (scalar_of (VI64 y)) = VI64 y"
proof -
  have "ucast (scast x :: i64) = x"
    by (rule bit_word_eqI) (simp add: bit_simps)
  then show "coerce_arg TI32 (scalar_of (VI32 x)) = VI32 x"
    by (simp add: coerce_arg_def scalar_of_def)
qed (simp add: coerce_arg_def scalar_of_def)

text \<open>The laws, as rules.\<close>

lemma law_set_fuel: "engine_laws wa \<Longrightarrow> wi_set_fuel wa n s = Inr s' \<Longrightarrow> wi_get_fuel wa s' = Inr n"
  by (simp add: engine_laws_def fuel_law_def)

lemma law_call:
  "engine_laws wa \<Longrightarrow> wi_get_fuel wa s = Inr n \<Longrightarrow> wi_get_fuel wa (snd (wi_call wa i f vals slots s)) = Inr m \<Longrightarrow> m \<le> n"
  by (simp add: engine_laws_def call_law_def)

lemma law_pages:
  assumes "engine_laws wa" "wi_memory wa i name s = Some d"
  shows "65536 dvd length d" "length d \<le> 65536 * 65536"
  using assms by (simp_all add: engine_laws_def page_law_def)

lemma law_grow:
  assumes "engine_laws wa" "wi_memory wa i name s = Some d" "wi_mem_grow wa i name p s = Inr s'"
  shows "wi_memory wa i name s' = Some (d @ replicate (unat p * 65536) 0)" "wi_get_fuel wa s' = wi_get_fuel wa s"
  using assms by (simp_all add: engine_laws_def grow_law_def)

lemma law_write:
  assumes "engine_laws wa" "wi_memory wa i name s = Some d" "length bs \<le> length d"
  obtains s' where "wi_mem_write wa i name 0 bs s = Inr s'" "wi_memory wa i name s' = Some (bs @ drop (length bs) d)"
    "wi_get_fuel wa s' = wi_get_fuel wa s"
proof -
  have "case wi_mem_write wa i name 0 bs s of Inl e \<Rightarrow> False
      | Inr s' \<Rightarrow> wi_memory wa i name s' = Some (bs @ drop (length bs) d) \<and> wi_get_fuel wa s' = wi_get_fuel wa s"
    using assms unfolding engine_laws_def write_law_def by blast
  then show thesis using that by (cases "wi_mem_write wa i name 0 bs s") auto
qed

end
