(* ===== verification/InterpreterTheorems.thy ===== *)
theory InterpreterTheorems
  imports Interpreter
begin

text \<open>
  The properties of the core interpreter: what a restore rebuilds, what a call passes to
  the engine and returns, and the fuel account.
\<close>

section \<open>Restore\<close>

lemma core_memory_Inr: "core_memory wa rt = Inr d \<longleftrightarrow> wi_memory wa (rt_instance rt) ''memory'' (rt_store rt) = Some d"
  by (auto simp: core_memory_def split: option.split)

lemma take_snapshot_Inr:
  "take_snapshot wa rt = Inr sn \<longleftrightarrow> core_memory wa rt = Inr (sn_memory sn) \<and> core_fuel wa rt = Inr (sn_fuel sn)"
  by (cases sn) (auto simp: take_snapshot_def core_fuel_def result_simps)

text \<open>Growing to fit adds exactly the missing pages, as zeros, and keeps the fuel.\<close>

lemma grow_to_fit_memory:
  assumes laws: "engine_laws wa" and mem: "core_memory wa rt = Inr d"
    and pages: "65536 dvd n" "n \<le> 65536 * 65536" and grow: "grow_to_fit wa n (length d) rt = Inr s"
  shows "wi_memory wa (rt_instance rt) ''memory'' s = Some (d @ replicate (n - length d) 0)" "wi_get_fuel wa s = wi_get_fuel wa (rt_store rt)"
proof -
  let ?p = "div_ceil (n - length d) 65536"
  have m: "wi_memory wa (rt_instance rt) ''memory'' (rt_store rt) = Some d"
    using mem by (simp add: core_memory_Inr)
  have exact: "?p * 65536 = n - length d"
    using pages(1) law_pages(1) [OF laws m] by (intro div_ceil_exact) auto
  then have "?p < 2 ^ 64" using pages(2) by auto
  then have p: "unat (word_of_nat ?p :: u64) * 65536 = n - length d"
    using exact by (simp add: unat_of_nat take_bit_nat_eq_self)
  show "wi_memory wa (rt_instance rt) ''memory'' s = Some (d @ replicate (n - length d) 0)"
    "wi_get_fuel wa s = wi_get_fuel wa (rt_store rt)"
    using law_grow [OF laws m] grow m p
    by (auto simp: grow_to_fit_def map_err_eq_Inr split: if_splits)
qed

text \<open>C35: Restore, totally.  A restore that succeeds has the captured memory image byte for byte, followed only by what a fresh memory has beyond it, and
  the fuel of a fresh instance started on the captured budget; when the image covers the fresh memory and the start function burns
  nothing, a new snapshot is the old one.  A restore fails only where a fresh runtime cannot be built, exports no memory, or refuses to grow: the
  image always fits.\<close>

theorem restore_exact:
  assumes laws: "engine_laws wa" and snap: "take_snapshot wa rt = Inr sn"
  shows "case core_restore wa sn wasm of
      Inr rt' \<Rightarrow> \<exists>fresh d. core_new wa wasm (sn_fuel sn) = Inr fresh \<and> core_memory wa fresh = Inr d \<and>
        core_memory wa rt' = Inr (sn_memory sn @ drop (length (sn_memory sn)) d) \<and>
        core_fuel wa rt' = core_fuel wa fresh \<and>
        (length d \<le> length (sn_memory sn) \<and> core_fuel wa fresh = Inr (sn_fuel sn) \<longrightarrow> take_snapshot wa rt' = Inr sn)
    | Inl e \<Rightarrow> core_new wa wasm (sn_fuel sn) = Inl e \<or> (\<exists>fresh. core_new wa wasm (sn_fuel sn) = Inr fresh \<and>
        (core_memory wa fresh = Inl e \<or> (\<exists>d. core_memory wa fresh = Inr d \<and> length d < length (sn_memory sn) \<and>
          grow_to_fit wa (length (sn_memory sn)) (length d) fresh = Inl e)))"
proof (cases "core_new wa wasm (sn_fuel sn)")
  case (Inl e)
  then show ?thesis by (simp add: core_restore_def)
next
  case new: (Inr fresh)
  let ?M = "sn_memory sn"
  have pages: "65536 dvd length ?M" "length ?M \<le> 65536 * 65536"
    using snap law_pages [OF laws] by (auto simp: take_snapshot_Inr core_memory_Inr)
  show ?thesis
  proof (cases "core_memory wa fresh")
    case (Inl e)
    then show ?thesis using new by (simp add: core_restore_def)
  next
    case mem: (Inr d)
    show ?thesis
    proof (cases "grow_to_fit wa (length ?M) (length d) fresh")
      case (Inl e)
      then have "length d < length ?M" by (simp add: grow_to_fit_def split: if_splits)
      then show ?thesis using new mem Inl by (simp add: core_restore_def)
    next
      case (Inr s)
      note grown = grow_to_fit_memory [OF laws mem pages Inr]
      obtain s' where s': "wi_mem_write wa (rt_instance fresh) ''memory'' 0 ?M s = Inr s'"
        "wi_memory wa (rt_instance fresh) ''memory'' s' = Some (?M @ drop (length ?M) (d @ replicate (length ?M - length d) 0))"
        "wi_get_fuel wa s' = wi_get_fuel wa s"
        by (rule law_write [OF laws grown(1), of ?M]) auto
      have restored: "core_restore wa sn wasm = Inr (fresh\<lparr>rt_store := s'\<rparr>)"
        using new mem Inr s'(1) by (simp add: core_restore_def result_simps)
      have "core_memory wa (fresh\<lparr>rt_store := s'\<rparr>) = Inr (?M @ drop (length ?M) d)"
        using s'(2) by (simp add: core_memory_Inr)
      moreover have "core_fuel wa (fresh\<lparr>rt_store := s'\<rparr>) = core_fuel wa fresh"
        using s'(3) grown(2) by (simp add: core_fuel_def)
      ultimately show ?thesis
        using new mem by (simp add: restored take_snapshot_Inr)
    qed
  qed
qed

text \<open>An engine whose store is a memory and the fuel; a call halves the fuel and returns its arguments.\<close>

definition demo_wasmi :: "(unit, unit, unit, bytes \<times> u64) wasmi" where
  "demo_wasmi = \<lparr>wi_module = (\<lambda>_ _. Inr ()), wi_imports = (\<lambda>_. []), wi_store = (\<lambda>_. ([], 0)),
     wi_set_fuel = (\<lambda>n s. Inr (fst s, n)), wi_get_fuel = (\<lambda>s. Inr (snd s)), wi_linker = (\<lambda>_. ()),
     wi_trap_func = (\<lambda>_ _ _ _ l. Inr l), wi_instantiate = (\<lambda>_ _ s. Inr ((), s)),
     wi_func = (\<lambda>_ _ f. if f = ''pick'' then Some ([TI32, TI64], [TI32, TI64]) else None),
     wi_call = (\<lambda>_ _ vals _ s. (Inr vals, (fst s, snd s div 2))),
     wi_memory = (\<lambda>_ name s. if 65536 dvd length (fst s) \<and> length (fst s) \<le> 65536 * 65536 then Some (fst s) else None),
     wi_mem_grow = (\<lambda>_ _ p s. if length (fst s) + unat p * 65536 \<le> 65536 * 65536
       then Inr (fst s @ replicate (unat p * 65536) 0, snd s) else Inl ''limit''),
     wi_mem_write = (\<lambda>_ _ off bs s. if off + length bs \<le> length (fst s)
       then Inr (take off (fst s) @ bs @ drop (off + length bs) (fst s), snd s) else Inl ''out of bounds'')\<rparr>"

lemma demo_wasmi_laws: "engine_laws demo_wasmi"
  unfolding engine_laws_def
proof (intro conjI)
  show "call_law demo_wasmi"
    by (auto simp: call_law_def demo_wasmi_def word_le_nat_alt unat_div)
  show "grow_law demo_wasmi"
    by (auto simp: grow_law_def demo_wasmi_def split: if_splits)
  show "write_law demo_wasmi"
    by (auto simp: write_law_def demo_wasmi_def split: if_splits)
qed (auto simp: fuel_law_def page_law_def demo_wasmi_def split: if_splits)

theorem restore_exact_witness:
  "\<exists>rt' :: (unit, bytes \<times> u64) core_runtime. \<exists>M. length M = 65536 \<and>
    core_restore demo_wasmi \<lparr>sn_memory = M, sn_fuel = 7\<rparr> [] = Inr rt' \<and>
    take_snapshot demo_wasmi rt' = Inr \<lparr>sn_memory = M, sn_fuel = 7\<rparr>"
proof -
  obtain M :: bytes where M: "length M = 65536" using Ex_list_of_length by blast
  let ?sn = "\<lparr>sn_memory = M, sn_fuel = 7\<rparr>"
  have snap: "take_snapshot demo_wasmi \<lparr>rt_store = (M, 7), rt_instance = ()\<rparr> = Inr ?sn"
    using M by (simp add: take_snapshot_def core_memory_def demo_wasmi_def result_simps)
  have new: "core_new demo_wasmi [] 7 = Inr \<lparr>rt_store = ([], 7), rt_instance = ()\<rparr>"
    by (simp add: core_new_def demo_wasmi_def result_simps)
  have mem: "core_memory demo_wasmi \<lparr>rt_store = ([], 7), rt_instance = ()\<rparr> = Inr []"
    by (simp add: core_memory_def demo_wasmi_def)
  have fuel: "core_fuel demo_wasmi \<lparr>rt_store = ([], 7), rt_instance = ()\<rparr> = Inr 7"
    by (simp add: core_fuel_def demo_wasmi_def result_simps)
  have grow: "\<exists>s. grow_to_fit demo_wasmi 65536 0 \<lparr>rt_store = ([], 7), rt_instance = ()\<rparr> = Inr s"
    by (simp add: grow_to_fit_def demo_wasmi_def result_simps div_ceil_def)
  show ?thesis
    using restore_exact [OF demo_wasmi_laws snap, of "[]"] M new mem fuel grow
    by (auto split: sum.splits)
qed

section \<open>Calls\<close>

definition typed_val :: "val_type \<Rightarrow> core_val \<Rightarrow> bool" where
  "typed_val t v \<longleftrightarrow> (case t of TI32 \<Rightarrow> \<exists>x. v = VI32 x | TI64 \<Rightarrow> \<exists>x. v = VI64 x | TOther _ \<Rightarrow> False)"

lemma coerce_typed: "typed_val t v \<Longrightarrow> coerce_arg t (scalar_of v) = v"
  by (cases t) (auto simp: typed_val_def coerce_scalar_of)

lemma coerce_args_typed:
  "list_all2 typed_val ts vs \<Longrightarrow> map (\<lambda>(t, a). coerce_arg t a) (zip ts (map scalar_of vs)) = vs"
  by (induction rule: list_all2_induct) (simp_all add: coerce_typed)

lemma core_call_typed:
  assumes "wi_func wa (rt_instance rt) (rt_store rt) func = Some (params, results)" "list_all2 typed_val params vals"
    and "wi_set_fuel wa fuel (rt_store rt) = Inr s"
    and "wi_call wa (rt_instance rt) func vals (replicate (length results) (VI64 0)) s = (r, s')"
  shows "core_call wa func (map scalar_of vals) fuel rt =
    (case r of Inl e \<Rightarrow> Inl (wasmi_error e)
     | Inr outs \<Rightarrow> map_err wasmi_error (and_then (wi_get_fuel wa s') (\<lambda>n. Inr (map scalar_of outs, fuel - n))),
     rt\<lparr>rt_store := s'\<rparr>)"
proof -
  have "length params = length vals" using assms(2) by (rule list_all2_lengthD)
  then show ?thesis
    using assms by (simp add: core_call_def coerce_args_typed result_simps split: sum.split)
qed

text \<open>Calls, exactly.  Arguments of the export's parameter types survive the detour through 64-bit scalars: the engine is called once, on a
  store refueled to the given budget, with exactly these values and one zero slot per result; the runtime keeps the engine's
  store whatever the outcome, and the results are widened back.  The one-shot call on typed values is this call on a fresh instance.  A wrong
  number of arguments touches nothing.\<close>

theorem call_exact:
  assumes "wi_func wa (rt_instance rt) (rt_store rt) func = Some (params, results)" "list_all2 typed_val params vals"
    and "wi_set_fuel wa fuel (rt_store rt) = Inr s"
    and "wi_call wa (rt_instance rt) func vals (replicate (length results) (VI64 0)) s = (r, s')"
  shows "core_call wa func (map scalar_of vals) fuel rt =
      (case r of Inl e \<Rightarrow> Inl (wasmi_error e)
       | Inr outs \<Rightarrow> map_err wasmi_error (and_then (wi_get_fuel wa s') (\<lambda>n. Inr (map scalar_of outs, fuel - n))),
       rt\<lparr>rt_store := s'\<rparr>) \<and>
    (core_new wa wasm fuel = Inr rt \<longrightarrow> invoke_core_vals wa wasm func vals fuel =
      (case r of Inl e \<Rightarrow> Inl (wasmi_error e)
       | Inr outs \<Rightarrow> map_err wasmi_error (and_then (wi_get_fuel wa s') (\<lambda>n. Inr (map scalar_of outs))))) \<and>
    (length args \<noteq> length params \<longrightarrow> (\<exists>e. core_call wa func args fuel rt = (Inl e, rt)))"
proof (intro conjI impI)
  show call: "core_call wa func (map scalar_of vals) fuel rt =
      (case r of Inl e \<Rightarrow> Inl (wasmi_error e)
       | Inr outs \<Rightarrow> map_err wasmi_error (and_then (wi_get_fuel wa s') (\<lambda>n. Inr (map scalar_of outs, fuel - n))),
       rt\<lparr>rt_store := s'\<rparr>)"
    using assms by (rule core_call_typed)
  show "invoke_core_vals wa wasm func vals fuel =
      (case r of Inl e \<Rightarrow> Inl (wasmi_error e)
       | Inr outs \<Rightarrow> map_err wasmi_error (and_then (wi_get_fuel wa s') (\<lambda>n. Inr (map scalar_of outs))))"
    if "core_new wa wasm fuel = Inr rt"
    using that by (auto simp: invoke_core_vals_def invoke_core_def invoke_core_fueled_def call and_then_def map_err_def split: sum.split)
  show "\<exists>e. core_call wa func args fuel rt = (Inl e, rt)" if "length args \<noteq> length params"
    using that assms(1) by (simp add: core_call_def)
qed

theorem call_exact_witness:
  "core_call demo_wasmi ''pick'' (map scalar_of [VI32 1, VI64 7]) 100 \<lparr>rt_store = ([], 3), rt_instance = ()\<rparr> =
    (Inr ([1, 7], 50), \<lparr>rt_store = ([], 50), rt_instance = ()\<rparr>)"
  using call_exact [of demo_wasmi "\<lparr>rt_store = ([], 3), rt_instance = ()\<rparr>" "''pick''" "[TI32, TI64]" "[TI32, TI64]"
      "[VI32 1, VI64 7]" 100 "([], 100)" "Inr [VI32 1, VI64 7]" "([], 50)" "[]" "[]"]
  by (simp add: demo_wasmi_def typed_val_def result_simps scalar_of_def)

text \<open>The fuel account.  A call that returns has consumed and left exactly its budget: the subtraction does not wrap, and what is left is what the
  runtime reports.\<close>

theorem call_fuel:
  assumes laws: "engine_laws wa" and call: "core_call wa func args fuel rt = (Inr (outs, used), rt')"
  shows "\<exists>remaining. core_fuel wa rt' = Inr remaining \<and> unat used + unat remaining = unat fuel"
proof -
  obtain f s vals slots r s' remaining where
    set: "wi_set_fuel wa fuel (rt_store rt) = Inr s" and c: "wi_call wa (rt_instance rt) f vals slots s = (Inr r, s')"
    and rem: "wi_get_fuel wa s' = Inr remaining" "used = fuel - remaining" "rt' = rt\<lparr>rt_store := s'\<rparr>"
    using call unfolding core_call_def Let_def by (auto split: option.splits prod.splits if_splits sum.splits)
  have "remaining \<le> fuel"
    using law_call [OF laws law_set_fuel [OF laws set], of "rt_instance rt" f vals slots remaining] c rem(1) by simp
  then show ?thesis
    using rem by (auto simp: core_fuel_def result_simps unat_sub word_le_nat_alt)
qed

theorem call_fuel_witness:
  "\<exists>remaining. core_fuel demo_wasmi \<lparr>rt_store = ([], 50), rt_instance = ()\<rparr> = Inr remaining \<and>
    unat (50 :: u64) + unat remaining = unat (100 :: u64)"
  by (rule call_fuel [OF demo_wasmi_laws, where func = "''pick''" and args = "[1, 7]" and outs = "[1, 7]"
        and rt = "\<lparr>rt_store = ([], 3), rt_instance = ()\<rparr>"])
    (simp add: core_call_def demo_wasmi_def coerce_arg_def scalar_of_def)

end
