(* ===== verification/Records.thy ===== *)
theory Records
  imports Prelude
begin

text \<open>
  The generated domain records (\<open>schema_generated.rs\<close>), their update rules and ticks
  (\<open>updates_generated.rs\<close>), their invariants (\<open>invariants_generated.rs\<close>) and the row changes
  (\<open>delta_generated.rs\<close> with the trait of \<open>dbsp_change_generated.rs\<close>).  A string is its list
  of chars and \<open>len\<close> its UTF-8 length; a floating-point field is kept as its 64-bit
  pattern, since no code here computes with it.
\<close>

section \<open>Records\<close>

type_synonym f64_bits = u64

record user =
  user_id :: u64
  user_name :: rstr
  user_email :: rstr
  user_tags :: "rstr list"

record order_item =
  item_id :: u64
  item_qty :: u32
  item_price :: f64_bits

record order =
  order_id :: u64
  order_items :: "order_item list"
  order_total :: f64_bits

datatype role = Admin | Editor | Viewer

datatype order_error = EmptyCart | InvalidItem u64 | InsufficientFunds f64_bits

record flag =
  flag_id :: u64
  flag_key :: rstr
  flag_enabled :: bool
  flag_rollout :: u64
  flag_tags :: "rstr list"

record audit_entry =
  audit_id :: u64
  audit_flag_key :: rstr
  audit_action :: rstr
  audit_ts :: u64

datatype flag_error = NotFound | InvalidRollout u64 | Locked rstr

definition str_len :: "rstr \<Rightarrow> u64" where
  "str_len s = word_of_nat (length (as_bytes s))"

section \<open>Updates\<close>

text \<open>Each \<open>apply\<close> maps its guarded write over the rows; a tick runs them in order.\<close>

definition apply_reset_id :: "user list \<Rightarrow> user list" where
  "apply_reset_id rs = map (\<lambda>r. if 100 < user_id r then r\<lparr>user_id := 0\<rparr> else r) rs"

definition apply_echo_email :: "user list \<Rightarrow> user list" where
  "apply_echo_email rs = map (\<lambda>r. if 3 < str_len (user_name r) then r\<lparr>user_email := user_name r\<rparr> else r) rs"

definition apply_self_bump :: "user list \<Rightarrow> user list" where
  "apply_self_bump rs = map (\<lambda>r. if (0 :: u64) = 0 then r\<lparr>user_id := user_id r\<rparr> else r) rs"

definition apply_rollout_clamp :: "flag list \<Rightarrow> flag list" where
  "apply_rollout_clamp rs = map (\<lambda>r. if 100 < flag_rollout r then r\<lparr>flag_rollout := 100\<rparr> else r) rs"

definition apply_key_echo :: "flag list \<Rightarrow> flag list" where
  "apply_key_echo rs = map (\<lambda>r. if 0 < str_len (flag_key r) then r\<lparr>flag_key := flag_key r\<rparr> else r) rs"

definition tick_user :: "user list \<Rightarrow> user list" where
  "tick_user rs = apply_self_bump (apply_echo_email (apply_reset_id rs))"

definition tick_flag :: "flag list \<Rightarrow> flag list" where
  "tick_flag rs = apply_key_echo (apply_rollout_clamp rs)"

section \<open>Invariants\<close>

definition check_id_positive :: "user \<Rightarrow> bool" where
  "check_id_positive v \<longleftrightarrow> 0 < user_id v"

definition check_name_min_length :: "user \<Rightarrow> bool" where
  "check_name_min_length v \<longleftrightarrow> 3 < str_len (user_name v)"

definition check_key_nonempty :: "flag \<Rightarrow> bool" where
  "check_key_nonempty v \<longleftrightarrow> 0 < str_len (flag_key v)"

definition check_rollout_le_100 :: "flag \<Rightarrow> bool" where
  "check_rollout_le_100 v \<longleftrightarrow> \<not> 100 < flag_rollout v"

definition check_get_sentinel_none :: "flag \<Rightarrow> bool" where
  "check_get_sentinel_none v \<longleftrightarrow> (0 :: u64) = 0"

definition validate_user :: "user \<Rightarrow> bool" where
  "validate_user v \<longleftrightarrow> 0 < user_id v \<and> 3 < str_len (user_name v)"

definition validate_flag :: "flag \<Rightarrow> bool" where
  "validate_flag v \<longleftrightarrow> 0 < str_len (flag_key v) \<and> \<not> 100 < flag_rollout v \<and> (0 :: u64) = 0"

section \<open>Row changes\<close>

text \<open>
  The trait \<open>Change\<close>: \<open>patch\<close> and \<open>valid\<close> of a change against a base row.  The five generated
  enums have the same three cases over their own record.
\<close>

datatype user_change = UserInsert user | UserUpdate user | UserRemove u64
datatype order_item_change = OrderItemInsert order_item | OrderItemUpdate order_item | OrderItemRemove u64
datatype order_change = OrderInsert order | OrderUpdate order | OrderRemove u64
datatype flag_change = FlagInsert flag | FlagUpdate flag | FlagRemove u64
datatype audit_entry_change = AuditInsert audit_entry | AuditUpdate audit_entry | AuditRemove u64

record ('c, 'r) change_ops =
  ch_patch :: "'c \<Rightarrow> 'r \<Rightarrow> 'r"
  ch_valid :: "'c \<Rightarrow> 'r \<Rightarrow> bool"

definition user_change_ops :: "(user_change, user) change_ops" where
  "user_change_ops = \<lparr>ch_patch = (\<lambda>c base. case c of
      UserInsert u \<Rightarrow> u | UserUpdate u \<Rightarrow> u | UserRemove _ \<Rightarrow> base), ch_valid = (\<lambda>_ _. True)\<rparr>"

definition order_item_change_ops :: "(order_item_change, order_item) change_ops" where
  "order_item_change_ops = \<lparr>ch_patch = (\<lambda>c base. case c of
      OrderItemInsert u \<Rightarrow> u | OrderItemUpdate u \<Rightarrow> u | OrderItemRemove _ \<Rightarrow> base), ch_valid = (\<lambda>_ _. True)\<rparr>"

definition order_change_ops :: "(order_change, order) change_ops" where
  "order_change_ops = \<lparr>ch_patch = (\<lambda>c base. case c of
      OrderInsert u \<Rightarrow> u | OrderUpdate u \<Rightarrow> u | OrderRemove _ \<Rightarrow> base), ch_valid = (\<lambda>_ _. True)\<rparr>"

definition flag_change_ops :: "(flag_change, flag) change_ops" where
  "flag_change_ops = \<lparr>ch_patch = (\<lambda>c base. case c of
      FlagInsert u \<Rightarrow> u | FlagUpdate u \<Rightarrow> u | FlagRemove _ \<Rightarrow> base), ch_valid = (\<lambda>_ _. True)\<rparr>"

definition audit_entry_change_ops :: "(audit_entry_change, audit_entry) change_ops" where
  "audit_entry_change_ops = \<lparr>ch_patch = (\<lambda>c base. case c of
      AuditInsert u \<Rightarrow> u | AuditUpdate u \<Rightarrow> u | AuditRemove _ \<Rightarrow> base), ch_valid = (\<lambda>_ _. True)\<rparr>"

text \<open>A row change is the overwriting monoid action: the last insert or update wins.\<close>

locale row_change =
  fixes ops :: "('c, 'r) change_ops"
    and writes :: "'c \<Rightarrow> 'r option"
  assumes patch_writes: "ch_patch ops c base = (case writes c of Some r \<Rightarrow> r | None \<Rightarrow> base)"
    and always_valid: "ch_valid ops c base"
begin

lemma patch_idem: "ch_patch ops c (ch_patch ops c base) = ch_patch ops c base"
  by (simp add: patch_writes split: option.splits)

lemma patch_absorbs: "writes c = Some r \<Longrightarrow> ch_patch ops c (ch_patch ops d base) = ch_patch ops c base"
  by (simp add: patch_writes)

lemma patch_none: "writes c = None \<Longrightarrow> ch_patch ops c base = base"
  by (simp add: patch_writes)

end

interpretation userc: row_change user_change_ops "\<lambda>c. case c of UserInsert u \<Rightarrow> Some u | UserUpdate u \<Rightarrow> Some u | UserRemove _ \<Rightarrow> None"
  by unfold_locales (auto simp: user_change_ops_def split: user_change.splits)

interpretation orderitemc: row_change order_item_change_ops
  "\<lambda>c. case c of OrderItemInsert u \<Rightarrow> Some u | OrderItemUpdate u \<Rightarrow> Some u | OrderItemRemove _ \<Rightarrow> None"
  by unfold_locales (auto simp: order_item_change_ops_def split: order_item_change.splits)

interpretation orderc: row_change order_change_ops "\<lambda>c. case c of OrderInsert u \<Rightarrow> Some u | OrderUpdate u \<Rightarrow> Some u | OrderRemove _ \<Rightarrow> None"
  by unfold_locales (auto simp: order_change_ops_def split: order_change.splits)

interpretation flagc: row_change flag_change_ops "\<lambda>c. case c of FlagInsert u \<Rightarrow> Some u | FlagUpdate u \<Rightarrow> Some u | FlagRemove _ \<Rightarrow> None"
  by unfold_locales (auto simp: flag_change_ops_def split: flag_change.splits)

interpretation auditc: row_change audit_entry_change_ops "\<lambda>c. case c of AuditInsert u \<Rightarrow> Some u | AuditUpdate u \<Rightarrow> Some u | AuditRemove _ \<Rightarrow> None"
  by unfold_locales (auto simp: audit_entry_change_ops_def split: audit_entry_change.splits)

section \<open>What a tick does to a row\<close>

lemma tick_user_map:
  "tick_user rs = map (\<lambda>r. r\<lparr>user_id := if 100 < user_id r then 0 else user_id r,
     user_email := if 3 < str_len (user_name r) then user_name r else user_email r\<rparr>) rs"
  by (simp add: tick_user_def apply_reset_id_def apply_echo_email_def apply_self_bump_def)

lemma tick_flag_map:
  "tick_flag rs = map (\<lambda>r. r\<lparr>flag_rollout := if 100 < flag_rollout r then 100 else flag_rollout r\<rparr>) rs"
  by (simp add: tick_flag_def apply_rollout_clamp_def apply_key_echo_def)

end
