(* ===== verification/Generators.thy ===== *)
theory Generators
  imports Records
begin

text \<open>
  The value generators of the schema records (\<open>generated/rust/gen_generated.rs\<close>).  The
  source of randomness is third-party code: the record \<open>unstructured\<close>, whose operations
  consume a state and may run out of data.  A generator is a function of that state that
  returns a result and the state left behind; the question-mark operator is \<open>gbind\<close>.
\<close>

section \<open>The randomness source\<close>

record 'u unstructured =
  un_ratio :: "u8 \<Rightarrow> u8 \<Rightarrow> 'u \<Rightarrow> (string + bool) \<times> 'u"
  un_choose :: "rstr list \<Rightarrow> 'u \<Rightarrow> (string + rstr) \<times> 'u"
  un_usize_in :: "nat \<Rightarrow> nat \<Rightarrow> 'u \<Rightarrow> (string + nat) \<times> 'u"
  un_u8_in :: "u8 \<Rightarrow> u8 \<Rightarrow> 'u \<Rightarrow> (string + u8) \<times> 'u"
  un_bool :: "'u \<Rightarrow> (string + bool) \<times> 'u"
  un_u8 :: "'u \<Rightarrow> (string + u8) \<times> 'u"
  un_u32 :: "'u \<Rightarrow> (string + u32) \<times> 'u"
  un_u64 :: "'u \<Rightarrow> (string + u64) \<times> 'u"
  un_f64 :: "'u \<Rightarrow> (string + f64_bits) \<times> 'u"

type_synonym ('u, 'a) gen = "'u \<Rightarrow> (string + 'a) \<times> 'u"

definition greturn :: "'a \<Rightarrow> ('u, 'a) gen" where
  "greturn x u = (Inr x, u)"

definition gbind :: "('u, 'a) gen \<Rightarrow> ('a \<Rightarrow> ('u, 'b) gen) \<Rightarrow> ('u, 'b) gen" where
  "gbind g f u = (case g u of (Inl e, u') \<Rightarrow> (Inl e, u') | (Inr x, u') \<Rightarrow> f x u')"

section \<open>Generators of values\<close>

definition STRING_POOL :: "rstr list" where
  "STRING_POOL = map str [''User'', ''OrderItem'', ''Order'', ''Flag'', ''AuditEntry'']"

text \<open>A loop that pushes \<open>n\<close> generated elements.\<close>

fun gen_times :: "nat \<Rightarrow> ('u, 'a) gen \<Rightarrow> ('u, 'a list) gen" where
  "gen_times 0 g = greturn []"
| "gen_times (Suc n) g = gbind g (\<lambda>x. gbind (gen_times n g) (\<lambda>xs. greturn (x # xs)))"

definition gen_string :: "'u unstructured \<Rightarrow> ('u, rstr) gen" where
  "gen_string un = gbind (un_ratio un 9 10) (\<lambda>pool.
     if pool then un_choose un STRING_POOL
     else gbind (un_usize_in un 0 8) (\<lambda>len.
       gen_times len (gbind (un_u8_in un 0 25) (\<lambda>c. greturn (ucast (97 + c))))))"

definition gen_bytes :: "'u unstructured \<Rightarrow> ('u, bytes) gen" where
  "gen_bytes un = gbind (un_usize_in un 0 8) (\<lambda>len. gen_times len (un_u8 un))"

definition gen_list :: "'u unstructured \<Rightarrow> nat \<Rightarrow> (nat \<Rightarrow> ('u, 'a) gen) \<Rightarrow> ('u, 'a list) gen" where
  "gen_list un max_depth elem =
     gbind (if max_depth = 0 then greturn 0 else un_usize_in un 0 3) (\<lambda>len. gen_times len (elem (max_depth - 1)))"

definition gen_option :: "'u unstructured \<Rightarrow> nat \<Rightarrow> (nat \<Rightarrow> ('u, 'a) gen) \<Rightarrow> ('u, 'a option) gen" where
  "gen_option un max_depth inner =
     gbind (if max_depth = 0 then greturn True else un_ratio un 1 2) (\<lambda>none.
       if none then greturn None else gbind (inner (max_depth - 1)) (\<lambda>x. greturn (Some x)))"

section \<open>Generators of records\<close>

definition gen_user :: "'u unstructured \<Rightarrow> nat \<Rightarrow> ('u, user) gen" where
  "gen_user un max_depth =
     gbind (un_u64 un) (\<lambda>i. gbind (gen_string un) (\<lambda>n. gbind (gen_string un) (\<lambda>e.
     gbind (gen_list un max_depth (\<lambda>_. gen_string un)) (\<lambda>ts.
       greturn \<lparr>user_id = i, user_name = n, user_email = e, user_tags = ts\<rparr>))))"

definition gen_order_item :: "'u unstructured \<Rightarrow> nat \<Rightarrow> ('u, order_item) gen" where
  "gen_order_item un max_depth =
     gbind (un_u64 un) (\<lambda>i. gbind (un_u32 un) (\<lambda>q. gbind (un_f64 un) (\<lambda>p.
       greturn \<lparr>item_id = i, item_qty = q, item_price = p\<rparr>)))"

definition gen_order :: "'u unstructured \<Rightarrow> nat \<Rightarrow> ('u, order) gen" where
  "gen_order un max_depth =
     gbind (un_u64 un) (\<lambda>i. gbind (gen_list un max_depth (\<lambda>d. gen_order_item un (d - 1))) (\<lambda>its.
     gbind (un_f64 un) (\<lambda>t. greturn \<lparr>order_id = i, order_items = its, order_total = t\<rparr>)))"

definition gen_flag :: "'u unstructured \<Rightarrow> nat \<Rightarrow> ('u, flag) gen" where
  "gen_flag un max_depth =
     gbind (un_u64 un) (\<lambda>i. gbind (gen_string un) (\<lambda>k. gbind (un_bool un) (\<lambda>e. gbind (un_u64 un) (\<lambda>r.
     gbind (gen_list un max_depth (\<lambda>_. gen_string un)) (\<lambda>ts.
       greturn \<lparr>flag_id = i, flag_key = k, flag_enabled = e, flag_rollout = r, flag_tags = ts\<rparr>)))))"

definition gen_audit_entry :: "'u unstructured \<Rightarrow> nat \<Rightarrow> ('u, audit_entry) gen" where
  "gen_audit_entry un max_depth =
     gbind (un_u64 un) (\<lambda>i. gbind (gen_string un) (\<lambda>k. gbind (gen_string un) (\<lambda>a. gbind (un_u64 un) (\<lambda>t.
       greturn \<lparr>audit_id = i, audit_flag_key = k, audit_action = a, audit_ts = t\<rparr>))))"

section \<open>What a generator can return\<close>

text \<open>\<open>yields P g\<close>: every result of the generator satisfies \<open>P\<close>.\<close>

definition yields :: "('a \<Rightarrow> bool) \<Rightarrow> ('u, 'a) gen \<Rightarrow> bool" where
  "yields P g \<longleftrightarrow> (\<forall>u. case fst (g u) of Inl _ \<Rightarrow> True | Inr x \<Rightarrow> P x)"

lemma yields_return: "P x \<Longrightarrow> yields P (greturn x)"
  by (simp add: yields_def greturn_def)

lemma yields_bind:
  assumes "yields Q g" "\<And>x. Q x \<Longrightarrow> yields P (f x)"
  shows "yields P (gbind g f)"
  unfolding yields_def
proof
  fix u
  obtain r u' where g: "g u = (r, u')" by (rule prod.exhaust)
  show "case fst (gbind g f u) of Inl _ \<Rightarrow> True | Inr x \<Rightarrow> P x"
  proof (cases r)
    case (Inr x)
    then have "Q x" using assms(1) g by (metis fst_conv old.sum.simps(6) yields_def)
    then show ?thesis using assms(2) [of x] g Inr by (simp add: yields_def gbind_def)
  qed (simp add: gbind_def g)
qed

lemma yields_any: "yields (\<lambda>_. True) g"
  by (simp add: yields_def split: sum.split)

lemma yields_mono: "yields Q g \<Longrightarrow> (\<And>x. Q x \<Longrightarrow> P x) \<Longrightarrow> yields P g"
  by (auto simp: yields_def split: sum.splits)

lemma yields_times: "yields P g \<Longrightarrow> yields (\<lambda>xs. length xs = n \<and> list_all P xs) (gen_times n g)"
proof (induction n)
  case (Suc n)
  then show ?case by (auto intro!: yields_bind [OF Suc.prems] yields_bind [OF Suc.IH] yields_return)
qed (simp add: yields_return)

text \<open>What the source documents: a draw stays in its range, a choice is a member.\<close>

definition draws_ok :: "'u unstructured \<Rightarrow> bool" where
  "draws_ok un \<longleftrightarrow> (\<forall>xs. yields (\<lambda>x. x \<in> set xs) (un_choose un xs)) \<and>
     (\<forall>a b. a \<le> b \<longrightarrow> yields (\<lambda>n. a \<le> n \<and> n \<le> b) (un_usize_in un a b)) \<and>
     (\<forall>a b. a \<le> b \<longrightarrow> yields (\<lambda>n. a \<le> n \<and> n \<le> b) (un_u8_in un a b))"

lemma draw_usize:
  assumes "draws_ok un"
  shows "yields (\<lambda>n. n \<le> b) (un_usize_in un 0 b)"
proof -
  have "0 \<le> b" by simp
  then have "yields (\<lambda>n. 0 \<le> n \<and> n \<le> b) (un_usize_in un 0 b)"
    using assms unfolding draws_ok_def by blast
  then show ?thesis by (rule yields_mono) simp
qed

lemma draw_u8:
  assumes "draws_ok un"
  shows "yields (\<lambda>n. n \<le> b) (un_u8_in un 0 b)"
proof -
  have "0 \<le> b" by simp
  then have "yields (\<lambda>n. 0 \<le> n \<and> n \<le> b) (un_u8_in un 0 b)"
    using assms unfolding draws_ok_def by blast
  then show ?thesis by (rule yields_mono) simp
qed

text \<open>A generated string: of the pool, or at most eight lower-case letters.\<close>

definition gen_string_ok :: "rstr \<Rightarrow> bool" where
  "gen_string_ok s \<longleftrightarrow> s \<in> set STRING_POOL \<or> (length s \<le> 8 \<and> list_all (\<lambda>c. 97 \<le> unat c \<and> unat c \<le> 122) s)"

text \<open>A generated list at a depth: at most three elements, none at depth zero.\<close>

definition gen_list_ok :: "nat \<Rightarrow> ('a \<Rightarrow> bool) \<Rightarrow> 'a list \<Rightarrow> bool" where
  "gen_list_ok d P xs \<longleftrightarrow> length xs \<le> 3 \<and> (d = 0 \<longrightarrow> xs = []) \<and> list_all P xs"

lemma letter: "c \<le> 25 \<Longrightarrow> 97 \<le> unat (ucast (97 + c :: u8) :: u32) \<and> unat (ucast (97 + c :: u8) :: u32) \<le> 122"
proof -
  assume "c \<le> 25"
  then have "unat c \<le> 25" by (simp add: word_le_nat_alt)
  moreover from this have "unat (97 + c) = 97 + unat c"
    by (subst unat_add_lem [THEN iffD1]) simp_all
  ultimately show ?thesis by (simp add: unsigned_ucast_eq take_bit_nat_eq_self)
qed

lemma yields_string:
  assumes "draws_ok un"
  shows "yields gen_string_ok (gen_string un)"
proof -
  let ?letter = "gbind (un_u8_in un 0 25) (\<lambda>c. greturn (ucast (97 + c))) :: ('a, rchar) gen"
  have one: "yields (\<lambda>c. 97 \<le> unat c \<and> unat c \<le> 122) ?letter"
    by (intro yields_bind [OF draw_u8 [OF assms]] yields_return letter)
  have fresh: "yields gen_string_ok (gbind (un_usize_in un 0 8) (\<lambda>len. gen_times len ?letter))"
    by (rule yields_bind [OF draw_usize [OF assms]], rule yields_mono [OF yields_times [OF one]]) (auto simp: gen_string_ok_def)
  have "yields gen_string_ok (un_choose un STRING_POOL)"
    by (rule yields_mono [where Q = "\<lambda>s. s \<in> set STRING_POOL"]) (use assms in \<open>auto simp: draws_ok_def gen_string_ok_def\<close>)
  then show ?thesis
    unfolding gen_string_def using fresh by (intro yields_bind [OF yields_any]) auto
qed

lemma yields_list:
  assumes "draws_ok un" "\<And>k. yields P (elem k)"
  shows "yields (gen_list_ok d P) (gen_list un d elem)"
proof (cases "d = 0")
  case True
  have "yields (gen_list_ok d P) (gen_times n (elem k))" if "n = 0" for n k
    using that by (simp add: gen_list_ok_def yields_return)
  then show ?thesis
    unfolding gen_list_def using True by (intro yields_bind [where Q = "\<lambda>n. n = 0"]) (auto intro: yields_return)
next
  case False
  have "yields (gen_list_ok d P) (gen_times n (elem k))" if "n \<le> 3" for n k
    by (rule yields_mono [OF yields_times [OF assms(2)]]) (use that False in \<open>auto simp: gen_list_ok_def\<close>)
  then show ?thesis
    unfolding gen_list_def using False by (auto intro: yields_bind [OF draw_usize [OF assms(1)]])
qed

definition user_bounded :: "nat \<Rightarrow> user \<Rightarrow> bool" where
  "user_bounded d r \<longleftrightarrow> gen_string_ok (user_name r) \<and> gen_string_ok (user_email r) \<and> gen_list_ok d gen_string_ok (user_tags r)"

definition flag_bounded :: "nat \<Rightarrow> flag \<Rightarrow> bool" where
  "flag_bounded d r \<longleftrightarrow> gen_string_ok (flag_key r) \<and> gen_list_ok d gen_string_ok (flag_tags r)"

definition audit_bounded :: "audit_entry \<Rightarrow> bool" where
  "audit_bounded r \<longleftrightarrow> gen_string_ok (audit_flag_key r) \<and> gen_string_ok (audit_action r)"

text \<open>The generators respect their budget.  Over any source whose draws stay in range, a generated string is of the pool or at most eight lower-case letters,
  every list has at most three elements and is empty at depth zero, an option is empty at depth zero, and byte strings have at
  most eight bytes.\<close>

theorem gen_bounds:
  assumes "draws_ok un"
  shows "yields (user_bounded d) (gen_user un d) \<and>
    yields (\<lambda>r. gen_list_ok d (\<lambda>_. True) (order_items r)) (gen_order un d) \<and>
    yields (flag_bounded d) (gen_flag un d) \<and>
    yields audit_bounded (gen_audit_entry un d) \<and>
    yields (\<lambda>b. length b \<le> 8) (gen_bytes un) \<and>
    gen_option un 0 inner = greturn None"
proof (intro conjI)
  note str = yields_string [OF assms]
  note tags = yields_list [OF assms, of gen_string_ok "\<lambda>_. gen_string un" d, OF str]
  show "yields (user_bounded d) (gen_user un d)"
    unfolding gen_user_def
    by (intro yields_bind [OF yields_any] yields_bind [OF str] yields_bind [OF tags] yields_return) (simp add: user_bounded_def)
  show "yields (\<lambda>r. gen_list_ok d (\<lambda>_. True) (order_items r)) (gen_order un d)"
    unfolding gen_order_def
    by (intro yields_bind [OF yields_any] yields_bind [OF yields_list [OF assms yields_any, of d]] yields_return) simp
  show "yields (flag_bounded d) (gen_flag un d)"
    unfolding gen_flag_def
    by (intro yields_bind [OF yields_any] yields_bind [OF str] yields_bind [OF tags] yields_return) (simp add: flag_bounded_def)
  show "yields audit_bounded (gen_audit_entry un d)"
    unfolding gen_audit_entry_def
    by (intro yields_bind [OF yields_any] yields_bind [OF str] yields_return) (simp add: audit_bounded_def)
  show "yields (\<lambda>b. length b \<le> 8) (gen_bytes un)"
    unfolding gen_bytes_def
    by (rule yields_bind [OF draw_usize [OF assms]], rule yields_mono [OF yields_times [OF yields_any]]) auto
  show "gen_option un 0 inner = greturn None"
    by (rule ext) (simp add: gen_option_def gbind_def greturn_def)
qed

text \<open>The source of zeros: every draw is the least value.\<close>

definition zeros :: "unit unstructured" where
  "zeros = \<lparr>un_ratio = (\<lambda>_ _ u. (Inr False, u)), un_choose = (\<lambda>xs u. (case xs of [] \<Rightarrow> Inl ''empty'' | x # _ \<Rightarrow> Inr x, u)),
     un_usize_in = (\<lambda>a _ u. (Inr a, u)), un_u8_in = (\<lambda>a _ u. (Inr a, u)), un_bool = (\<lambda>u. (Inr False, u)),
     un_u8 = (\<lambda>u. (Inr 0, u)), un_u32 = (\<lambda>u. (Inr 0, u)), un_u64 = (\<lambda>u. (Inr 0, u)), un_f64 = (\<lambda>u. (Inr 0, u))\<rparr>"

lemma zeros_ok: "draws_ok zeros"
  by (auto simp: draws_ok_def zeros_def yields_def split: list.split)

theorem gen_bounds_witness:
  "fst (gen_user zeros 2 ()) = Inr \<lparr>user_id = 0, user_name = [], user_email = [], user_tags = []\<rparr> \<and>
    user_bounded 2 \<lparr>user_id = 0, user_name = [], user_email = [], user_tags = []\<rparr>"
proof -
  have g: "fst (gen_user zeros 2 ()) = Inr \<lparr>user_id = 0, user_name = [], user_email = [], user_tags = []\<rparr>"
    by (simp add: gen_user_def gen_string_def gen_list_def gbind_def greturn_def zeros_def)
  have "yields (user_bounded 2) (gen_user zeros 2)"
    using gen_bounds [OF zeros_ok, of 2 "\<lambda>_. greturn ()"] by blast
  then have "case fst (gen_user zeros 2 ()) of Inl _ \<Rightarrow> True | Inr x \<Rightarrow> user_bounded 2 x"
    unfolding yields_def by blast
  then show ?thesis using g by simp
qed

end
