(* ===== verification/Guest.thy ===== *)
theory Guest
  imports Records
begin

text \<open>
  The guest side: the demo component (\<open>crates/guest-demo/src/lib.rs\<close>) and the counting
  middleware that is composed between a host and it (\<open>crates/splicer-mw/src/lib.rs\<close>).  The
  component the middleware wraps is wired in by the composition: the record \<open>inner\<close>, each
  operation of which may trap (\<open>None\<close>).  A stream is the handle the inner component returns.
\<close>

section \<open>The demo component\<close>

definition add_u64 :: "u64 \<Rightarrow> u64 \<Rightarrow> u64" where
  "add_u64 a b = a + b"

definition get_version :: u32 where
  "get_version = 1"

definition get_user :: "u64 \<Rightarrow> user option" where
  "get_user i =
     (if i = 42 then Some \<lparr>user_id = 42, user_name = str ''Ada'', user_email = str ''ada@example.com'', user_tags = [str ''admin'']\<rparr>
      else None)"

definition watch_orders :: "order_error \<Rightarrow> user list" where
  "watch_orders _ = [\<lparr>user_id = 7, user_name = str ''Grace'', user_email = str ''grace@example.com'', user_tags = []\<rparr>]"

section \<open>The middleware\<close>

record ('h, 's) inner =
  in_double :: "u64 \<Rightarrow> 's \<Rightarrow> u64 option \<times> 's"
  in_is_big :: "u64 \<Rightarrow> 's \<Rightarrow> bool option \<times> 's"
  in_watch_counts :: "u64 \<Rightarrow> 's \<Rightarrow> 'h option \<times> 's"

text \<open>The counter wraps as \<open>fetch_add\<close> does.\<close>

record 's middleware =
  mw_calls :: u64
  mw_inner :: 's

definition mw_count :: "'s middleware \<Rightarrow> 's middleware" where
  "mw_count m = m\<lparr>mw_calls := mw_calls m + 1\<rparr>"

definition mw_double :: "('h, 's) inner \<Rightarrow> u64 \<Rightarrow> 's middleware \<Rightarrow> u64 option \<times> 's middleware" where
  "mw_double inn x m = (let m' = mw_count m in case in_double inn x (mw_inner m') of (r, s) \<Rightarrow> (r, m'\<lparr>mw_inner := s\<rparr>))"

definition mw_is_big :: "('h, 's) inner \<Rightarrow> u64 \<Rightarrow> 's middleware \<Rightarrow> bool option \<times> 's middleware" where
  "mw_is_big inn x m = (let m' = mw_count m in case in_is_big inn x (mw_inner m') of (r, s) \<Rightarrow> (r, m'\<lparr>mw_inner := s\<rparr>))"

definition mw_watch_counts :: "('h, 's) inner \<Rightarrow> u64 \<Rightarrow> 's middleware \<Rightarrow> 'h option \<times> 's middleware" where
  "mw_watch_counts inn n m = (let m' = mw_count m in case in_watch_counts inn n (mw_inner m') of (r, s) \<Rightarrow> (r, m'\<lparr>mw_inner := s\<rparr>))"

definition mw_calls_export :: "'s middleware \<Rightarrow> u64 \<times> 's middleware" where
  "mw_calls_export m = (mw_calls m, m)"

section \<open>Histories of calls\<close>

datatype guest_call = CallDouble u64 | CallIsBig u64 | CallWatch u64 | CallCount

datatype 'h answer = AnsNat "u64 option" | AnsBool "bool option" | AnsStream "'h option"

definition wrapped :: "guest_call \<Rightarrow> bool" where
  "wrapped c \<longleftrightarrow> c \<noteq> CallCount"

text \<open>One call through the middleware, and the same call on the inner component.\<close>

definition mw_step :: "('h, 's) inner \<Rightarrow> guest_call \<Rightarrow> 's middleware \<Rightarrow> 'h answer \<times> 's middleware" where
  "mw_step inn c m = (case c of
       CallDouble x \<Rightarrow> apfst AnsNat (mw_double inn x m)
     | CallIsBig x \<Rightarrow> apfst AnsBool (mw_is_big inn x m)
     | CallWatch n \<Rightarrow> apfst AnsStream (mw_watch_counts inn n m)
     | CallCount \<Rightarrow> apfst (\<lambda>n. AnsNat (Some n)) (mw_calls_export m))"

definition inner_step :: "('h, 's) inner \<Rightarrow> guest_call \<Rightarrow> 's \<Rightarrow> 'h answer \<times> 's" where
  "inner_step inn c s = (case c of
       CallDouble x \<Rightarrow> apfst AnsNat (in_double inn x s)
     | CallIsBig x \<Rightarrow> apfst AnsBool (in_is_big inn x s)
     | CallWatch n \<Rightarrow> apfst AnsStream (in_watch_counts inn n s)
     | CallCount \<Rightarrow> (AnsNat None, s))"

fun run_calls :: "('c \<Rightarrow> 's \<Rightarrow> 'a \<times> 's) \<Rightarrow> 'c list \<Rightarrow> 's \<Rightarrow> 'a list \<times> 's" where
  "run_calls step [] s = ([], s)"
| "run_calls step (c # cs) s = (case step c s of (a, s') \<Rightarrow> apfst ((#) a) (run_calls step cs s'))"

lemma mw_step_wrapped:
  "wrapped c \<Longrightarrow> mw_step inn c m =
    (fst (inner_step inn c (mw_inner m)), \<lparr>mw_calls = mw_calls m + 1, mw_inner = snd (inner_step inn c (mw_inner m))\<rparr>)"
  by (cases c; cases m)
    (auto simp: wrapped_def mw_step_def inner_step_def mw_double_def mw_is_big_def mw_watch_counts_def mw_count_def Let_def
      split: prod.split)

lemma mw_step_count: "\<not> wrapped c \<Longrightarrow> mw_step inn c m = (AnsNat (Some (mw_calls m)), m)"
  by (simp add: wrapped_def mw_step_def mw_calls_export_def)

text \<open>What reads of the counter should report: the wrapped calls made so far.\<close>

fun counter_reads :: "u64 \<Rightarrow> guest_call list \<Rightarrow> u64 list" where
  "counter_reads n [] = []"
| "counter_reads n (c # cs) = (if wrapped c then counter_reads (n + 1) cs else n # counter_reads n cs)"

text \<open>C36: The middleware is transparent.  Any sequence of calls through it leaves the inner component in the state the wrapped calls alone would, and gives
  each of them the inner component's answer, a trap included; the counter advances by one per wrapped call, wrapping, and
  every read of it reports exactly the wrapped calls made before.\<close>

theorem middleware_transparent:
  "case run_calls (mw_step inn) cs m of (answers, m') \<Rightarrow>
     mw_inner m' = snd (run_calls (inner_step inn) (filter wrapped cs) (mw_inner m)) \<and>
     map snd (filter (\<lambda>(c, _). wrapped c) (zip cs answers)) = fst (run_calls (inner_step inn) (filter wrapped cs) (mw_inner m)) \<and>
     map snd (filter (\<lambda>(c, _). \<not> wrapped c) (zip cs answers)) = map (\<lambda>n. AnsNat (Some n)) (counter_reads (mw_calls m) cs) \<and>
     mw_calls m' = mw_calls m + word_of_nat (length (filter wrapped cs)) \<and>
     length answers = length cs"
proof (induction cs arbitrary: m)
  case Nil
  then show ?case by simp
next
  case (Cons c cs)
  obtain answers m' where r: "run_calls (mw_step inn) cs (snd (mw_step inn c m)) = (answers, m')" by (rule prod.exhaust)
  show ?case
    using Cons.IH [of "snd (mw_step inn c m)"] r
    by (cases "wrapped c") (auto simp: mw_step_wrapped mw_step_count split: prod.split)
qed

text \<open>The demo component's data against the generated invariants.  The user it returns for an id carries that id and a positive one, and the users of
  the order watch are valid; but the one user of the lookup is not: its name has three bytes where the invariant asks for more
  than three.\<close>

theorem gateway_users:
  "(case get_user i of None \<Rightarrow> i \<noteq> 42
    | Some u \<Rightarrow> user_id u = i \<and> check_id_positive u \<and> \<not> check_name_min_length u \<and> \<not> validate_user u) \<and>
   list_all validate_user (watch_orders e)"
proof -
  have "str_len (str ''Ada'') = 3" "str_len (str ''Grace'') = 5"
    by (simp_all add: str_len_def as_bytes_def str_def of_char_def utf8_char_def)
  then show ?thesis
    by (simp add: get_user_def watch_orders_def validate_user_def check_id_positive_def check_name_min_length_def)
qed

end
