(* ===== verification/Codec.thy ===== *)
theory Codec
  imports Prelude
begin

text \<open>
  The wire codec of \<open>crates/wasm-delta/src/codec.rs\<close>: LEB128 varints, bools,
  length-prefixed byte strings and the versioned envelope, with the strict
  decoders that separate torn input (it ended too early) from corrupt input.
  An encoder \<open>enc(x, out)\<close> appends to \<open>out\<close>; the model returns the appended
  bytes.  A decoder returns the value and the number of bytes consumed; the
  slice \<open>bs[u..]\<close> is \<open>drop u bs\<close>, and \<open>consumes\<close> shows that no decoder ever
  slices past the end.

  The contract of an encoder and its decoder is the locale \<open>wire_codec\<close>: the
  append-form round trip, and that every strict prefix of an encoding decodes as
  torn.  The consequences (injectivity, prefix freedom, sequencing, counted
  repetition) are proved once in it.  It is interpreted here on the varint, bool
  and byte-string codecs, and on values, rows and changes in their own theories.
\<close>

section \<open>Decode failures and results\<close>

datatype dec_fail = Torn | Corrupt

type_synonym 'a dec = "dec_fail + 'a \<times> nat"

definition VARNAT_MAX_BYTES :: nat where
  "VARNAT_MAX_BYTES = 10"

section \<open>Varints\<close>

function enc_varnat :: "u64 \<Rightarrow> bytes" where
  "enc_varnat n =
     (if n < 128 then [ucast n]
      else ucast (128 + n mod 128) # enc_varnat (n div 128))"
  by pat_completeness auto
termination
proof (relation "measure unat")
  fix n :: u64
  assume "\<not> n < 128"
  then have "128 \<le> unat n" by (simp add: word_less_nat_alt)
  then show "(n div 128, n) \<in> measure unat" by (simp add: unat_div)
qed simp

declare enc_varnat.simps [simp del]

text \<open>The loop of \<open>dec_varnat\<close>: the index, the accumulator and the shift.\<close>

fun dec_varnat_loop :: "nat \<Rightarrow> u64 \<Rightarrow> nat \<Rightarrow> bytes \<Rightarrow> u64 dec" where
  "dec_varnat_loop i acc shift [] = Inl Torn"
| "dec_varnat_loop i acc shift (b # bs) =
     (if i = VARNAT_MAX_BYTES then Inl Corrupt
      else let digit = ucast (b AND 0x7f) :: u64 in
        and_then (ok_or (checked_shl digit shift) Corrupt) (\<lambda>shifted.
        and_then (ok_or (checked_add acc shifted) Corrupt) (\<lambda>acc'.
          if b < 128 then Inr (acc', i + 1)
          else dec_varnat_loop (i + 1) acc' (shift + 7) bs)))"

definition dec_varnat :: "bytes \<Rightarrow> u64 dec" where
  "dec_varnat bs = dec_varnat_loop 0 0 0 bs"

section \<open>Bools and byte strings\<close>

definition enc_bool :: "bool \<Rightarrow> bytes" where
  "enc_bool b = [if b then 1 else 0]"

definition dec_bool :: "bytes \<Rightarrow> bool dec" where
  "dec_bool bs = (case bs of
       [] \<Rightarrow> Inl Torn
     | b # _ \<Rightarrow> if b = 0 then Inr (False, 1) else if b = 1 then Inr (True, 1) else Inl Corrupt)"

definition enc_bytes :: "bytes \<Rightarrow> bytes" where
  "enc_bytes payload = enc_varnat (word_of_nat (length payload)) @ payload"

text \<open>\<open>usize\<close> is 64 bits wide, so \<open>usize::try_from\<close> on the length never fails.\<close>

definition dec_bytes :: "bytes \<Rightarrow> bytes dec" where
  "dec_bytes bs =
     and_then (dec_varnat bs) (\<lambda>(n, used).
       let rest = drop used bs in
       if length rest < unat n then Inl Torn
       else Inr (take (unat n) rest, used + unat n))"

section \<open>The versioned envelope\<close>

record envelope_ref =
  env_version :: u64
  env_fingerprint :: u64
  env_payload :: bytes
  env_len :: nat

definition enc_envelope :: "u64 \<Rightarrow> u64 \<Rightarrow> bytes \<Rightarrow> bytes" where
  "enc_envelope version fingerprint payload =
     enc_varnat version @ enc_varnat fingerprint @ enc_bytes payload"

definition dec_envelope_prefix :: "bytes \<Rightarrow> dec_fail + envelope_ref" where
  "dec_envelope_prefix bs =
     and_then (dec_varnat bs) (\<lambda>(version, u1).
     and_then (dec_varnat (drop u1 bs)) (\<lambda>(fingerprint, u2).
     and_then (dec_bytes (drop (u1 + u2) bs)) (\<lambda>(payload, u3).
       Inr \<lparr>env_version = version, env_fingerprint = fingerprint,
            env_payload = payload, env_len = u1 + u2 + u3\<rparr>)))"

section \<open>Counted repetition\<close>

text \<open>
  The loop \<open>for _ in 0..count\<close> that the string and list decoders share
  (value.rs): decode an item at the running offset \<open>u\<close>, push it, advance.
\<close>

function dec_rep :: "(bytes \<Rightarrow> 'a dec) \<Rightarrow> u64 \<Rightarrow> bytes \<Rightarrow> nat \<Rightarrow> 'a list dec" where
  "dec_rep f n bs u =
     (if n = 0 then Inr ([], u)
      else and_then (f (drop u bs)) (\<lambda>(x, used).
           and_then (dec_rep f (n - 1) bs (u + used)) (\<lambda>(xs, u').
             Inr (x # xs, u'))))"
  by pat_completeness auto
termination
  by (relation "measure (\<lambda>(f, n, bs, u). unat n)")
    (auto simp: unat_gt_0 unat_minus_one)

declare dec_rep.simps [simp del]

lemma dec_rep_0 [simp]: "dec_rep f 0 bs u = Inr ([], u)"
  by (simp add: dec_rep.simps)

section \<open>Varints: the reference value and the shape of encodings\<close>

text \<open>The mathematical value of a digit sequence, least significant first.\<close>

fun leb_value :: "bytes \<Rightarrow> nat" where
  "leb_value [] = 0"
| "leb_value (b # bs) = unat b mod 128 + 128 * leb_value bs"

abbreviation continues :: "u8 \<Rightarrow> bool" where
  "continues b \<equiv> 128 \<le> b"

text \<open>What \<open>dec_varnat\<close> computes, as one equation over the input.\<close>

definition varnat_spec :: "bytes \<Rightarrow> u64 dec" where
  "varnat_spec bs =
     (let k = length (takeWhile continues bs) in
      if VARNAT_MAX_BYTES \<le> k \<and> VARNAT_MAX_BYTES < length bs then Inl Corrupt
      else if k = length bs then Inl Torn
      else Inr (word_of_nat (leb_value (take (k + 1) bs)), k + 1))"

lemma unat_ucast_u8: "unat (ucast c :: u64) = unat (c :: u8)"
  by transfer (simp add: take_bit_take_bit)

lemma unat_digit: "unat (ucast (b AND 0x7f :: u8) :: u64) = unat b mod 128"
proof -
  have "b AND 0x7f = b mod 128"
    by (simp add: take_bit_eq_mask mask_eq_exp_minus_1 flip: take_bit_eq_mod [where n = 7, simplified])
  then show ?thesis
    by (simp add: unat_ucast_u8 unat_mod)
qed

lemma digit_eq: "ucast (b AND 0x7f :: u8) = (word_of_nat (unat b mod 128) :: u64)"
  by (metis unat_digit of_nat_unat ucast_id)

lemma shift_sum_small:
  fixes a d i :: nat
  assumes "a < 2 ^ (7 * i)" "d < 128"
  shows "a + (2 ^ (7 * i) * d) mod 2 ^ 64 < 2 ^ (7 * (i + 1))"
proof -
  have "a + (2 ^ (7 * i) * d) mod 2 ^ 64 \<le> a + 2 ^ (7 * i) * d"
    by (rule add_left_mono) (rule mod_less_eq_dividend)
  also have "\<dots> < 2 ^ (7 * i) * (d + 1)"
    using assms(1) by (simp add: distrib_left)
  also have "\<dots> \<le> 2 ^ (7 * i) * 2 ^ 7"
    using assms(2) by (intro mult_le_mono) auto
  also have "\<dots> = 2 ^ (7 * (i + 1))"
    by (simp add: power_add)
  finally show ?thesis by simp
qed

lemma shift_sum_word:
  fixes a d i :: nat
  assumes "i < 10" "a < 2 ^ (7 * i)" "d < 128"
  shows "a + (2 ^ (7 * i) * d) mod 2 ^ 64 < 2 ^ 64"
proof (cases "i = 9")
  case True
  have "(2 ^ 63 * d) mod (2 ^ 63 * 2) = (2::nat) ^ 63 * (d mod 2)"
    by (rule mult_mod_right [symmetric])
  moreover have "d mod 2 \<le> 1" by simp
  ultimately have "(2 ^ 63 * d) mod 2 ^ 64 \<le> (2::nat) ^ 63" by simp
  with True assms(2) show ?thesis by simp
next
  case False
  with assms(1) have "(2::nat) ^ (7 * (i + 1)) \<le> 2 ^ 64"
    by (intro power_increasing) auto
  with shift_sum_small [OF assms(2,3)] show ?thesis by linarith
qed

text \<open>One turn of the loop never overflows: neither checked operation can fail.\<close>

lemma loop_step:
  assumes "i < 10" "unat acc < 2 ^ (7 * i)"
  shows "dec_varnat_loop i acc (7 * i) (b # bs) =
    (let acc' = acc + push_bit (7 * i) (word_of_nat (unat b mod 128)) in
     if b < 128 then Inr (acc', i + 1) else dec_varnat_loop (i + 1) acc' (7 * (i + 1)) bs)"
    and "i < 9 \<Longrightarrow> unat (acc + push_bit (7 * i) (word_of_nat (unat b mod 128))) < 2 ^ (7 * (i + 1))"
proof -
  let ?d = "unat b mod 128"
  let ?s = "push_bit (7 * i) (word_of_nat ?d) :: u64"
  have s: "unat ?s = (2 ^ (7 * i) * ?d) mod 2 ^ 64"
    unfolding push_bit_of_nat unat_of_nat
    by (simp add: take_bit_eq_mod push_bit_eq_mult mult.commute)
  have sum: "unat acc + unat ?s < 2 ^ 64"
    using shift_sum_word [OF assms, of ?d] by (simp add: s)
  then have "checked_add acc ?s = Some (acc + ?s)"
    by (simp add: checked_add_def)
  moreover have "checked_shl (word_of_nat ?d) (7 * i) = Some ?s"
    using assms(1) by (simp add: checked_shl_def)
  ultimately show "dec_varnat_loop i acc (7 * i) (b # bs) =
      (let acc' = acc + ?s in
       if b < 128 then Inr (acc', i + 1) else dec_varnat_loop (i + 1) acc' (7 * (i + 1)) bs)"
    using assms(1) by (simp add: VARNAT_MAX_BYTES_def digit_eq Let_def add.commute)
  have "unat (acc + ?s) = unat acc + unat ?s"
    using sum by (simp add: unat_word_ariths)
  then show "i < 9 \<Longrightarrow> unat (acc + ?s) < 2 ^ (7 * (i + 1))"
    using shift_sum_small [OF assms(2), of ?d] by (simp add: s)
qed

lemma dec_varnat_loop_eq:
  assumes "i \<le> 10" and "i < 10 \<Longrightarrow> unat acc < 2 ^ (7 * i)"
  shows "dec_varnat_loop i acc (7 * i) bs =
    (let k = length (takeWhile continues bs) in
     if 10 \<le> i + k \<and> 10 < i + length bs then Inl Corrupt
     else if k = length bs then Inl Torn
     else Inr (acc + push_bit (7 * i) (word_of_nat (leb_value (take (k + 1) bs))), i + k + 1))"
  using assms
proof (induction bs arbitrary: i acc)
  case Nil
  then show ?case by simp
next
  case (Cons b bs)
  show ?case
  proof (cases "i = 10")
    case True
    then show ?thesis by (simp add: VARNAT_MAX_BYTES_def)
  next
    case False
    with Cons.prems have i: "i < 10" and acc: "unat acc < 2 ^ (7 * i)" by auto
    let ?acc = "acc + push_bit (7 * i) (word_of_nat (unat b mod 128))"
    note step = loop_step [OF i acc, of b]
    have val: "push_bit (7 * i) x + push_bit (7 + 7 * i) y = push_bit (7 * i) (x + 128 * y)"
      for x y :: u64
      by (simp add: push_bit_eq_mult power_add algebra_simps)
    show ?thesis
    proof (cases "b < 128")
      case True
      then have "\<not> continues b" by simp
      moreover have "dec_varnat_loop i acc (7 * i) (b # bs) = Inr (?acc, i + 1)"
        using step(1) True by (simp add: Let_def del: dec_varnat_loop.simps)
      ultimately show ?thesis
        using i by (simp add: Let_def del: dec_varnat_loop.simps)
    next
      case False
      then have "dec_varnat_loop i acc (7 * i) (b # bs) =
          dec_varnat_loop (i + 1) ?acc (7 * (i + 1)) bs"
        using step(1) by (simp add: Let_def del: dec_varnat_loop.simps)
      also have "\<dots> = (let k = length (takeWhile continues bs) in
         if 10 \<le> i + 1 + k \<and> 10 < i + 1 + length bs then Inl Corrupt
         else if k = length bs then Inl Torn
         else Inr (?acc + push_bit (7 * (i + 1)) (word_of_nat (leb_value (take (k + 1) bs))), i + 1 + k + 1))"
        using i step(2) by (intro Cons.IH) auto
      finally show ?thesis
        using False by (simp add: Let_def val not_less del: dec_varnat_loop.simps)
    qed
  qed
qed

lemma dec_varnat_eq: "dec_varnat bs = varnat_spec bs"
  using dec_varnat_loop_eq [of 0 0 bs]
  by (simp add: dec_varnat_def varnat_spec_def VARNAT_MAX_BYTES_def Let_def)


subsection \<open>The encoder\<close>

lemma unat_ucast_small: "unat n < 256 \<Longrightarrow> unat (ucast (n :: u64) :: u8) = unat n"
  by (simp add: unsigned_ucast_eq take_bit_nat_eq_self)

lemma last_digit: "n < 128 \<Longrightarrow> unat (ucast (n :: u64) :: u8) = unat n \<and> \<not> continues (ucast n)"
  by (simp add: unat_ucast_small word_less_nat_alt word_le_nat_alt)

lemma more_digit:
  "unat (ucast (128 + n mod 128 :: u64) :: u8) = 128 + unat n mod 128 \<and> continues (ucast (128 + n mod 128))"
proof -
  have "unat (128 + n mod 128 :: u64) = 128 + unat n mod 128"
    by (simp add: unat_word_ariths unat_mod)
  then have "unat (ucast (128 + n mod 128 :: u64) :: u8) = 128 + unat n mod 128"
    by (subst unat_ucast_small) simp_all
  then show ?thesis by (simp add: word_le_nat_alt)
qed

lemma enc_varnat_not_Nil [simp]: "enc_varnat n \<noteq> []"
  by (subst enc_varnat.simps) simp

lemma length_enc_varnat_pos [simp]: "0 < length (enc_varnat n)"
  by simp

lemma takeWhile_enc_varnat:
  "takeWhile continues (enc_varnat n @ rest) = butlast (enc_varnat n)"
proof (induction n rule: enc_varnat.induct)
  case (1 n)
  then show ?case
    using last_digit [of n] more_digit [of n]
    by (subst (1 2) enc_varnat.simps) (auto simp: last_digit)
qed

lemma leb_value_enc_varnat: "leb_value (enc_varnat n) = unat n"
proof (induction n rule: enc_varnat.induct)
  case (1 n)
  then show ?case
    using last_digit [of n] more_digit [of n]
    by (subst enc_varnat.simps) (auto simp: unat_div unat_mod word_less_nat_alt)
qed

lemma length_enc_varnat_pow:
  "unat n < 128 ^ k \<Longrightarrow> 0 < k \<Longrightarrow> length (enc_varnat n) \<le> k"
proof (induction n arbitrary: k rule: enc_varnat.induct)
  case (1 n)
  show ?case
  proof (cases "n < 128")
    case True
    with 1 show ?thesis by (simp add: enc_varnat.simps)
  next
    case False
    then have n: "128 \<le> unat n" by (simp add: word_less_nat_alt)
    with "1.prems" obtain m where k: "k = Suc m" "0 < m"
      by (cases k; cases "k - 1") auto
    have "unat (n div 128) < 128 ^ m"
      using "1.prems" k by (simp add: unat_div less_mult_imp_div_less mult.commute)
    then have "length (enc_varnat (n div 128)) \<le> m"
      using False k by (intro "1.IH") auto
    then show ?thesis using False k by (subst enc_varnat.simps) simp
  qed
qed

lemma length_enc_varnat_le: "length (enc_varnat n) \<le> 10"
proof (rule length_enc_varnat_pow)
  have "unat n < 2 ^ 64" using unsigned_less [of n] by simp
  then show "unat n < 128 ^ 10" by simp
qed simp

subsection \<open>Round trip, torn prefixes, consumption\<close>

lemma dec_enc_varnat: "dec_varnat (enc_varnat n @ rest) = Inr (n, length (enc_varnat n))"
proof -
  obtain m where m: "length (enc_varnat n) = Suc m"
    by (cases "length (enc_varnat n)") auto
  have "take (Suc (length (butlast (enc_varnat n)))) (enc_varnat n @ rest) = enc_varnat n"
    by simp
  then show ?thesis
    using length_enc_varnat_le [of n] m
    by (simp add: dec_varnat_eq varnat_spec_def takeWhile_enc_varnat VARNAT_MAX_BYTES_def
        leb_value_enc_varnat Let_def)
qed

lemma enc_varnat_prefix_continues:
  assumes "strict_prefix p (enc_varnat n)"
  shows "takeWhile continues p = p"
proof -
  obtain c cs where "enc_varnat n = p @ c # cs"
    using assms by (auto elim: strict_prefixE')
  then have "butlast (enc_varnat n) = p @ butlast (c # cs)"
    by (simp add: butlast_append)
  moreover have "list_all continues (butlast (enc_varnat n))"
    using takeWhile_enc_varnat [of n "[]"] by (metis append_Nil2 list_all_iff set_takeWhileD)
  ultimately show ?thesis by (simp add: list_all_iff takeWhile_eq_all_conv)
qed

lemma dec_varnat_torn:
  assumes "strict_prefix p (enc_varnat n)"
  shows "dec_varnat p = Inl Torn"
proof -
  have "length (takeWhile continues p) = length p"
    by (simp only: enc_varnat_prefix_continues [OF assms])
  then show ?thesis
    using length_enc_varnat_le [of n] prefix_length_less [OF assms]
    by (simp add: dec_varnat_eq varnat_spec_def VARNAT_MAX_BYTES_def Let_def)
qed

lemma dec_varnat_consumes: "dec_varnat bs = Inr (n, u) \<Longrightarrow> 0 < u \<and> u \<le> length bs \<and> u \<le> 10"
  using length_takeWhile_le [of continues bs]
  by (auto simp: dec_varnat_eq varnat_spec_def VARNAT_MAX_BYTES_def Let_def split: if_splits)


section \<open>The codec contract\<close>

lemma count_step:
  "n + 1 < 2 ^ 64 \<Longrightarrow> 1 + word_of_nat n \<noteq> (0 :: u64) \<and> word_of_nat n + 1 \<noteq> (0 :: u64)"
  using word_of_nat_unat_small [of "n + 1"] by (auto simp: add.commute)

lemma dec_rep_bounded:
  assumes "\<And>bs x u. f bs = Inr (x, u) \<Longrightarrow> u \<le> length bs"
  shows "dec_rep f n bs u = Inr (xs, u') \<Longrightarrow> u \<le> length bs \<Longrightarrow> u' \<le> length bs"
  using assms
proof (induction f n bs u arbitrary: xs u' rule: dec_rep.induct)
  case (1 f n bs u)
  show ?case
  proof (cases "n = 0")
    case True
    with 1 show ?thesis by simp
  next
    case False
    with "1.prems"(1) obtain x used ys where
      x: "f (drop u bs) = Inr (x, used)" and
      ys: "dec_rep f (n - 1) bs (u + used) = Inr (ys, u')"
      by (subst (asm) dec_rep.simps) (auto simp: and_then_eq_Inr split: prod.splits)
    have "u + used \<le> length bs"
      using "1.prems"(3) [OF x] "1.prems"(2) by simp
    then show ?thesis using "1.IH" [OF False ys] "1.prems"(3) by blast
  qed
qed

locale wire_codec =
  fixes enc :: "'a \<Rightarrow> bytes"
    and dec :: "bytes \<Rightarrow> 'a dec"
    and valid :: "'a \<Rightarrow> bool"
  assumes roundtrip: "valid x \<Longrightarrow> dec (enc x @ rest) = Inr (x, length (enc x))"
    and torn: "valid x \<Longrightarrow> strict_prefix p (enc x) \<Longrightarrow> dec p = Inl Torn"
    and consumes: "dec bs = Inr (x, u) \<Longrightarrow> u \<le> length bs"
begin

lemma roundtrip_exact: "valid x \<Longrightarrow> dec (enc x) = Inr (x, length (enc x))"
  using roundtrip [of x "[]"] by simp

lemma roundtrip_drop:
  "valid x \<Longrightarrow> dec (drop (length pre) (pre @ enc x @ rest)) = Inr (x, length (enc x))"
  by (simp add: roundtrip)

text \<open>No encoding is a prefix of another, so encodings are canonical keys.\<close>

lemma prefix_free: "valid x \<Longrightarrow> valid y \<Longrightarrow> prefix (enc x) (enc y) \<Longrightarrow> x = y"
  by (metis Inr_inject fst_conv prefixE roundtrip roundtrip_exact)

lemma enc_inject: "valid x \<Longrightarrow> valid y \<Longrightarrow> enc x = enc y \<longleftrightarrow> x = y"
  using prefix_free by auto

lemma torn_append:
  assumes "valid x" "strict_prefix p (enc x @ ys)"
  shows "dec p = Inl Torn \<or>
    (\<exists>q. p = enc x @ q \<and> strict_prefix q ys \<and> dec p = Inr (x, length (enc x)))"
  using strict_prefix_append_cases [OF assms(2)] assms(1) torn roundtrip by blast

lemma dec_rep_roundtrip:
  assumes "list_all valid xs" "length xs < 2 ^ 64"
  shows "dec_rep dec (word_of_nat (length xs)) (pre @ concat (map enc xs) @ rest) (length pre)
    = Inr (xs, length pre + length (concat (map enc xs)))"
  using assms
proof (induction xs arbitrary: pre)
  case Nil
  then show ?case by simp
next
  case (Cons x xs)
  have n: "1 + word_of_nat (length xs) \<noteq> (0 :: u64)"
    using Cons.prems(2) count_step [of "length xs"] by simp
  have "dec (drop (length pre) (pre @ enc x @ concat (map enc xs) @ rest)) = Inr (x, length (enc x))"
    using Cons.prems(1) by (intro roundtrip_drop) simp
  moreover have "dec_rep dec (word_of_nat (length xs)) ((pre @ enc x) @ concat (map enc xs) @ rest)
      (length (pre @ enc x)) = Inr (xs, length (pre @ enc x) + length (concat (map enc xs)))"
    using Cons.prems by (intro Cons.IH) auto
  ultimately show ?case
    using n by (subst dec_rep.simps) simp
qed

lemma dec_rep_torn:
  assumes "list_all valid xs" "length xs < 2 ^ 64" "strict_prefix p (concat (map enc xs))"
  shows "dec_rep dec (word_of_nat (length xs)) (pre @ p) (length pre) = Inl Torn"
  using assms
proof (induction xs arbitrary: pre p)
  case Nil
  then show ?case by simp
next
  case (Cons x xs)
  have n: "1 + word_of_nat (length xs) \<noteq> (0 :: u64)"
    using Cons.prems(2) count_step [of "length xs"] by simp
  have "valid x" using Cons.prems(1) by simp
  with torn_append [of x p "concat (map enc xs)"] Cons.prems(3)
  consider "dec p = Inl Torn"
    | q where "p = enc x @ q" "strict_prefix q (concat (map enc xs))" "dec p = Inr (x, length (enc x))"
    by auto
  then show ?case
  proof cases
    case 1
    then show ?thesis using n by (subst dec_rep.simps) simp
  next
    case 2
    have "dec_rep dec (word_of_nat (length xs)) ((pre @ enc x) @ q) (length (pre @ enc x)) = Inl Torn"
      using Cons.prems 2 by (intro Cons.IH) auto
    with 2 show ?thesis using n by (subst dec_rep.simps) simp
  qed
qed

lemma dec_rep_consumes:
  "dec_rep dec n bs u = Inr (xs, u') \<Longrightarrow> u \<le> length bs \<Longrightarrow> u' \<le> length bs"
  using dec_rep_bounded consumes by blast

text \<open>A count followed by that many items is a codec again.\<close>

lemma counted:
  "wire_codec (\<lambda>xs. enc_varnat (word_of_nat (length xs)) @ concat (map enc xs))
     (\<lambda>bs. and_then (dec_varnat bs) (\<lambda>(count, u). dec_rep dec count bs u))
     (\<lambda>xs. list_all valid xs \<and> length xs < 2 ^ 64)"
proof (unfold_locales, goal_cases)
  case (1 xs rest)
  then show ?case
    using dec_rep_roundtrip [of xs "enc_varnat (word_of_nat (length xs))" rest]
    by (simp add: dec_enc_varnat)
next
  case (2 xs p)
  let ?c = "enc_varnat (word_of_nat (length xs))"
  from strict_prefix_append_cases [OF 2(2)] show ?case
  proof
    assume "strict_prefix p ?c"
    then show ?case by (simp add: dec_varnat_torn)
  next
    assume "\<exists>q. p = ?c @ q \<and> strict_prefix q (concat (map enc xs))"
    then show ?case
      using 2(1) dec_rep_torn [of xs _ ?c] by (auto simp: dec_enc_varnat)
  qed
next
  case (3 bs xs u)
  then show ?case
    by (auto simp: and_then_eq_Inr split: prod.splits
        dest!: dec_varnat_consumes intro: dec_rep_consumes)
qed

text \<open>Re-labelling: decode, then convert (the conversion may reject).\<close>

lemma mapped:
  assumes "\<And>y. valid' y \<Longrightarrow> enc' y = enc (g y) \<and> valid (g y) \<and> h (g y) = Inr y"
    and "\<And>bs. dec' bs = and_then (dec bs) (\<lambda>(x, u). and_then (h x) (\<lambda>y. Inr (y, u)))"
  shows "wire_codec enc' dec' valid'"
proof (unfold_locales, goal_cases)
  case (1 y rest)
  with assms show ?case by (simp add: roundtrip)
next
  case (2 y p)
  then have "dec p = Inl Torn" using assms(1) torn by metis
  with assms(2) show ?case by simp
next
  case (3 bs y u)
  with assms(2) consumes show ?case by (auto simp: and_then_eq_Inr)
qed

end

interpretation varnat: wire_codec enc_varnat dec_varnat "\<lambda>_. True"
  by unfold_locales (auto simp: dec_enc_varnat dec_varnat_torn dest: dec_varnat_consumes)

interpretation boolc: wire_codec enc_bool dec_bool "\<lambda>_. True"
  by unfold_locales
    (auto simp: enc_bool_def dec_bool_def strict_prefix_def prefix_Cons
      split: list.splits if_splits)

lemma dec_enc_bytes:
  "length xs < 2 ^ 64 \<Longrightarrow> dec_bytes (enc_bytes xs @ rest) = Inr (xs, length (enc_bytes xs))"
  by (simp add: dec_bytes_def enc_bytes_def dec_enc_varnat word_of_nat_unat_small)

interpretation bytesc: wire_codec enc_bytes dec_bytes "\<lambda>xs. length xs < 2 ^ 64"
proof (unfold_locales, goal_cases)
  case (1 xs rest)
  then show ?case by (rule dec_enc_bytes)
next
  case (2 xs p)
  then show ?case
    by (auto simp: enc_bytes_def dec_bytes_def dec_varnat_torn dec_enc_varnat word_of_nat_unat_small
        dest!: strict_prefix_append_cases dest: prefix_length_less)
next
  case (3 bs xs u)
  then show ?case
    by (auto simp: dec_bytes_def and_then_eq_Inr Let_def split: if_splits dest!: dec_varnat_consumes)
qed

section \<open>Envelopes\<close>

lemma dec_enc_envelope:
  assumes "length payload < 2 ^ 64"
  shows "dec_envelope_prefix (enc_envelope v f payload @ rest) =
    Inr \<lparr>env_version = v, env_fingerprint = f, env_payload = payload,
         env_len = length (enc_envelope v f payload)\<rparr>"
  using assms bytesc.roundtrip [of payload rest]
  by (simp add: dec_envelope_prefix_def enc_envelope_def dec_enc_varnat)

lemma dec_envelope_torn:
  assumes "length payload < 2 ^ 64" "strict_prefix p (enc_envelope v f payload)"
  shows "dec_envelope_prefix p = Inl Torn"
proof -
  consider "strict_prefix p (enc_varnat v)"
    | q where "p = enc_varnat v @ q" "strict_prefix q (enc_varnat f)"
    | q where "p = enc_varnat v @ enc_varnat f @ q" "strict_prefix q (enc_bytes payload)"
    using assms(2) by (auto simp: enc_envelope_def dest!: strict_prefix_append_cases)
  then show ?thesis
    by cases
      (use assms(1) bytesc.torn in \<open>auto simp: dec_envelope_prefix_def dec_varnat_torn dec_enc_varnat\<close>)
qed

lemma dec_envelope_len:
  "dec_envelope_prefix bs = Inr env \<Longrightarrow> 0 < env_len env \<and> env_len env \<le> length bs"
  by (auto simp: dec_envelope_prefix_def and_then_eq_Inr split: prod.splits
      dest!: dec_varnat_consumes bytesc.consumes)

lemma enc_envelope_not_Nil [simp]: "enc_envelope v f payload \<noteq> []"
  by (simp add: enc_envelope_def)

end
