(* ===== verification/Values.thy ===== *)
theory Values
  imports Codec
begin

text \<open>
  Schema-typed values of \<open>crates/wasm-delta/src/value.rs\<close>: the closed type codes,
  the values, zigzag, the type check, and the value encoder and decoder.  Signed
  values are words read in two's complement; Rust's widening casts are \<open>scast\<close>
  and the narrowing \<open>as\<close> casts \<open>ucast\<close>.

  \<open>value_ok\<close> is the invariant the Rust types themselves carry: strings hold
  Unicode scalar values, and no vector or string is longer than the allocator
  allows.  The value codec is a \<open>wire_codec\<close> for every type, by induction on the
  type with the combinators of the locale.
\<close>

section \<open>Types and values\<close>

datatype ty =
    TBool | TU8 | TU16 | TU32 | TU64 | TI8 | TI16 | TI32 | TI64 | TStr | TBytes
  | TOpt ty | TRes ty ty | TList ty

datatype val =
    VBool bool | VU8 u8 | VU16 u16 | VU32 u32 | VU64 u64
  | VI8 i8 | VI16 i16 | VI32 i32 | VI64 i64
  | VStr rstr | VBytes bytes
  | VOpt "val option" | VOk val | VErr val | VList "val list"

text \<open>\<open>Value::Res(Ok(x))\<close> is \<open>VOk x\<close> and \<open>Value::Res(Err(e))\<close> is \<open>VErr e\<close>.\<close>

section \<open>Zigzag\<close>

definition zigzag :: "i64 \<Rightarrow> u64" where
  "zigzag i = push_bit 1 i XOR signed_drop_bit 63 i"

definition unzigzag :: "u64 \<Rightarrow> i64" where
  "unzigzag n =
     (if n mod 2 = 0 then (case i64_try_from (n div 2) of Some h \<Rightarrow> h | None \<Rightarrow> 2 ^ 63 - 1)
      else (case i64_try_from (n div 2) of None \<Rightarrow> 2 ^ 63 | Some h \<Rightarrow> - h - 1))"

section \<open>The type check\<close>

primrec value_ty_matches :: "ty \<Rightarrow> val \<Rightarrow> bool" where
  "value_ty_matches TBool v = (case v of VBool _ \<Rightarrow> True | _ \<Rightarrow> False)"
| "value_ty_matches TU8 v = (case v of VU8 _ \<Rightarrow> True | _ \<Rightarrow> False)"
| "value_ty_matches TU16 v = (case v of VU16 _ \<Rightarrow> True | _ \<Rightarrow> False)"
| "value_ty_matches TU32 v = (case v of VU32 _ \<Rightarrow> True | _ \<Rightarrow> False)"
| "value_ty_matches TU64 v = (case v of VU64 _ \<Rightarrow> True | _ \<Rightarrow> False)"
| "value_ty_matches TI8 v = (case v of VI8 _ \<Rightarrow> True | _ \<Rightarrow> False)"
| "value_ty_matches TI16 v = (case v of VI16 _ \<Rightarrow> True | _ \<Rightarrow> False)"
| "value_ty_matches TI32 v = (case v of VI32 _ \<Rightarrow> True | _ \<Rightarrow> False)"
| "value_ty_matches TI64 v = (case v of VI64 _ \<Rightarrow> True | _ \<Rightarrow> False)"
| "value_ty_matches TStr v = (case v of VStr _ \<Rightarrow> True | _ \<Rightarrow> False)"
| "value_ty_matches TBytes v = (case v of VBytes _ \<Rightarrow> True | _ \<Rightarrow> False)"
| "value_ty_matches (TOpt t) v =
     (case v of VOpt None \<Rightarrow> True | VOpt (Some x) \<Rightarrow> value_ty_matches t x | _ \<Rightarrow> False)"
| "value_ty_matches (TRes ok err) v =
     (case v of VOk x \<Rightarrow> value_ty_matches ok x | VErr e \<Rightarrow> value_ty_matches err e | _ \<Rightarrow> False)"
| "value_ty_matches (TList t) v =
     (case v of VList xs \<Rightarrow> list_all (value_ty_matches t) xs | _ \<Rightarrow> False)"

section \<open>The encoder\<close>

text \<open>The last arm of each match is the mismatch: a debug assertion, no bytes.\<close>

primrec enc_value :: "ty \<Rightarrow> val \<Rightarrow> bytes" where
  "enc_value TBool v = (case v of VBool b \<Rightarrow> enc_bool b | _ \<Rightarrow> [])"
| "enc_value TU8 v = (case v of VU8 x \<Rightarrow> [x] | _ \<Rightarrow> [])"
| "enc_value TU16 v = (case v of VU16 x \<Rightarrow> enc_varnat (ucast x) | _ \<Rightarrow> [])"
| "enc_value TU32 v = (case v of VU32 x \<Rightarrow> enc_varnat (ucast x) | _ \<Rightarrow> [])"
| "enc_value TU64 v = (case v of VU64 x \<Rightarrow> enc_varnat x | _ \<Rightarrow> [])"
| "enc_value TI8 v = (case v of VI8 x \<Rightarrow> enc_varnat (zigzag (scast x)) | _ \<Rightarrow> [])"
| "enc_value TI16 v = (case v of VI16 x \<Rightarrow> enc_varnat (zigzag (scast x)) | _ \<Rightarrow> [])"
| "enc_value TI32 v = (case v of VI32 x \<Rightarrow> enc_varnat (zigzag (scast x)) | _ \<Rightarrow> [])"
| "enc_value TI64 v = (case v of VI64 x \<Rightarrow> enc_varnat (zigzag x) | _ \<Rightarrow> [])"
| "enc_value TStr v = (case v of
      VStr s \<Rightarrow> enc_varnat (word_of_nat (length s)) @ concat (map (\<lambda>c. enc_varnat (ucast c)) s)
    | _ \<Rightarrow> [])"
| "enc_value TBytes v = (case v of VBytes bs \<Rightarrow> enc_bytes bs | _ \<Rightarrow> [])"
| "enc_value (TOpt t) v = (case v of
      VOpt None \<Rightarrow> [0] | VOpt (Some x) \<Rightarrow> 1 # enc_value t x | _ \<Rightarrow> [])"
| "enc_value (TRes ok err) v = (case v of
      VOk x \<Rightarrow> 0 # enc_value ok x | VErr e \<Rightarrow> 1 # enc_value err e | _ \<Rightarrow> [])"
| "enc_value (TList t) v = (case v of
      VList xs \<Rightarrow> enc_varnat (word_of_nat (length xs)) @ concat (map (enc_value t) xs)
    | _ \<Rightarrow> [])"

section \<open>The decoder\<close>

text \<open>One char of the string arm: a codepoint varint that must be a scalar value.\<close>

definition dec_char :: "bytes \<Rightarrow> rchar dec" where
  "dec_char bs = and_then (dec_varnat bs) (\<lambda>(cp, used).
     and_then (ok_or (Option.bind (u32_try_from cp) char_from_u32) Corrupt) (\<lambda>c. Inr (c, used)))"

primrec dec_value :: "ty \<Rightarrow> bytes \<Rightarrow> val dec" where
  "dec_value TBool bs = and_then (dec_bool bs) (\<lambda>(b, u). Inr (VBool b, u))"
| "dec_value TU8 bs = (case bs of [] \<Rightarrow> Inl Torn | x # _ \<Rightarrow> Inr (VU8 x, 1))"
| "dec_value TU16 bs = and_then (dec_varnat bs) (\<lambda>(n, u).
     and_then (ok_or (u16_try_from n) Corrupt) (\<lambda>x. Inr (VU16 x, u)))"
| "dec_value TU32 bs = and_then (dec_varnat bs) (\<lambda>(n, u).
     and_then (ok_or (u32_try_from n) Corrupt) (\<lambda>x. Inr (VU32 x, u)))"
| "dec_value TU64 bs = and_then (dec_varnat bs) (\<lambda>(n, u). Inr (VU64 n, u))"
| "dec_value TI8 bs = and_then (dec_varnat bs) (\<lambda>(n, u). Inr (VI8 (ucast (unzigzag n)), u))"
| "dec_value TI16 bs = and_then (dec_varnat bs) (\<lambda>(n, u). Inr (VI16 (ucast (unzigzag n)), u))"
| "dec_value TI32 bs = and_then (dec_varnat bs) (\<lambda>(n, u). Inr (VI32 (ucast (unzigzag n)), u))"
| "dec_value TI64 bs = and_then (dec_varnat bs) (\<lambda>(n, u). Inr (VI64 (unzigzag n), u))"
| "dec_value TStr bs = and_then (dec_varnat bs) (\<lambda>(count, u).
     and_then (dec_rep dec_char count bs u) (\<lambda>(s, u'). Inr (VStr s, u')))"
| "dec_value TBytes bs = and_then (dec_bytes bs) (\<lambda>(payload, u). Inr (VBytes payload, u))"
| "dec_value (TOpt t) bs = (case bs of
       [] \<Rightarrow> Inl Torn
     | tag # _ \<Rightarrow>
         if tag = 0 then Inr (VOpt None, 1)
         else if tag = 1 then
           and_then (dec_value t (drop 1 bs)) (\<lambda>(x, used). Inr (VOpt (Some x), 1 + used))
         else Inl Corrupt)"
| "dec_value (TRes ok err) bs = (case bs of
       [] \<Rightarrow> Inl Torn
     | tag # _ \<Rightarrow>
         if tag = 0 then and_then (dec_value ok (drop 1 bs)) (\<lambda>(x, used). Inr (VOk x, 1 + used))
         else if tag = 1 then
           and_then (dec_value err (drop 1 bs)) (\<lambda>(e, used). Inr (VErr e, 1 + used))
         else Inl Corrupt)"
| "dec_value (TList t) bs = and_then (dec_varnat bs) (\<lambda>(count, u).
     and_then (dec_rep (dec_value t) count bs u) (\<lambda>(xs, u'). Inr (VList xs, u')))"

section \<open>The public forms\<close>

definition encode_value :: "ty \<Rightarrow> val \<Rightarrow> bytes" where
  "encode_value t v = enc_value t v"

definition decode_value :: "ty \<Rightarrow> bytes \<Rightarrow> (val \<times> nat) option" where
  "decode_value t bs = ok_of (dec_value t bs)"

section \<open>The invariant of Rust values\<close>

primrec value_ok :: "val \<Rightarrow> bool" where
  "value_ok (VBool b) = True"
| "value_ok (VU8 x) = True"
| "value_ok (VU16 x) = True"
| "value_ok (VU32 x) = True"
| "value_ok (VU64 x) = True"
| "value_ok (VI8 x) = True"
| "value_ok (VI16 x) = True"
| "value_ok (VI32 x) = True"
| "value_ok (VI64 x) = True"
| "value_ok (VStr s) = str_ok s"
| "value_ok (VBytes bs) = (length bs < 2 ^ 63)"
| "value_ok (VOpt o') = pred_option id (map_option value_ok o')"
| "value_ok (VOk x) = value_ok x"
| "value_ok (VErr e) = value_ok e"
| "value_ok (VList xs) = (list_all id (map value_ok xs) \<and> length xs < 2 ^ 63)"

definition typed :: "ty \<Rightarrow> val \<Rightarrow> bool" where
  "typed t v \<longleftrightarrow> value_ty_matches t v \<and> value_ok v"

section \<open>Zigzag is invertible\<close>

lemma bit_zigzag:
  "k < 64 \<Longrightarrow> bit (zigzag i) k \<longleftrightarrow> (if k = 0 then bit i 63 else bit i (k - 1) \<noteq> bit i 63)"
  unfolding zigzag_def bit_xor_iff bit_push_bit_iff bit_signed_drop_bit_iff
  by (auto simp: min_def)

lemma unzigzag_eq:
  "unzigzag n = (if bit n 0 then NOT (drop_bit 1 n) else drop_bit 1 n)"
proof -
  have "unat n < 2 ^ 64" using unsigned_less [of n] by simp
  then have "unat (n div 2) < 2 ^ 63" by (simp add: unat_div)
  moreover have "n mod 2 = 0 \<longleftrightarrow> \<not> bit n 0"
    by (simp add: bit_0 even_iff_mod_2_eq_zero)
  ultimately show ?thesis
    by (simp add: unzigzag_def i64_try_from_def drop_bit_Suc not_eq_complement)
qed

lemma bit_unzigzag:
  "k < 64 \<Longrightarrow> bit (unzigzag n) k \<longleftrightarrow> (if k = 63 then bit n 0 else bit n (Suc k) \<noteq> bit n 0)"
  unfolding unzigzag_eq
  by (auto simp: bit_not_iff bit_drop_bit_eq dest: bit_imp_le_length)

lemma unzigzag_zigzag: "unzigzag (zigzag i) = i"
  by (rule bit_eqI) (auto simp: bit_unzigzag bit_zigzag dest: bit_imp_le_length)

lemma zigzag_unzigzag: "zigzag (unzigzag n) = n"
proof (rule bit_eqI)
  fix k assume "possible_bit TYPE(64 word) k"
  then have "k < 64" by simp
  then show "bit (zigzag (unzigzag n)) k = bit n k"
    by (cases k) (auto simp: bit_unzigzag bit_zigzag)
qed

section \<open>The char codec\<close>

lemma unat_ucast_up [simp]:
  "unat (ucast (x :: u32) :: u64) = unat x" "unat (ucast (y :: u16) :: u64) = unat y"
  by (transfer, simp add: take_bit_take_bit)+

lemma try_from_ucast [simp]:
  "u32_try_from (ucast (x :: u32)) = Some x" "u16_try_from (ucast (y :: u16)) = Some y"
  using unsigned_less [of x] unsigned_less [of y]
  by (simp_all add: u32_try_from_def u16_try_from_def ucast_up_ucast_id is_up)

interpretation charc: wire_codec "\<lambda>c. enc_varnat (ucast c)" dec_char is_scalar
  by (rule varnat.mapped [where g = ucast
        and h = "\<lambda>cp. ok_or (Option.bind (u32_try_from cp) char_from_u32) Corrupt"])
    (auto simp: dec_char_def char_from_u32_def)

section \<open>The value codec\<close>

lemma strict_prefix_Cons_iff:
  "strict_prefix p (a # e) \<longleftrightarrow> p = [] \<or> (\<exists>q. p = a # q \<and> strict_prefix q e)"
  by (cases p) (auto simp: strict_prefix_def)

lemma value_codec_opt:
  assumes "wire_codec (enc_value t) (dec_value t) (typed t)"
  shows "wire_codec (enc_value (TOpt t)) (dec_value (TOpt t)) (typed (TOpt t))"
proof (unfold_locales, goal_cases)
  case (1 v rest)
  then show ?case
    using wire_codec.roundtrip [OF assms] by (auto simp: typed_def split: val.splits option.splits)
next
  case (2 v p)
  then show ?case
    using wire_codec.torn [OF assms]
    by (auto simp: typed_def strict_prefix_Cons_iff split: val.splits option.splits)
next
  case (3 bs v u)
  then show ?case
    using wire_codec.consumes [OF assms]
    by (force simp: and_then_eq_Inr split: list.splits if_splits prod.splits)
qed

lemma value_codec_res:
  assumes "wire_codec (enc_value t) (dec_value t) (typed t)"
    and "wire_codec (enc_value t') (dec_value t') (typed t')"
  shows "wire_codec (enc_value (TRes t t')) (dec_value (TRes t t')) (typed (TRes t t'))"
proof (unfold_locales, goal_cases)
  case (1 v rest)
  then show ?case
    using assms [THEN wire_codec.roundtrip] by (auto simp: typed_def split: val.splits)
next
  case (2 v p)
  then show ?case
    using assms [THEN wire_codec.torn]
    by (auto simp: typed_def strict_prefix_Cons_iff split: val.splits)
next
  case (3 bs v u)
  then show ?case
    using assms [THEN wire_codec.consumes]
    by (force simp: and_then_eq_Inr split: list.splits if_splits prod.splits)
qed

lemma value_codec: "wire_codec (enc_value t) (dec_value t) (typed t)"
proof (induction t)
  case TBool
  show ?case
    by (rule boolc.mapped [where g = "\<lambda>v. case v of VBool b \<Rightarrow> b" and h = "\<lambda>b. Inr (VBool b)"])
      (auto simp: typed_def split: val.splits)
next
  case TU8
  show ?case
    by unfold_locales
      (auto simp: typed_def strict_prefix_def prefix_Cons split: val.splits list.splits)
next
  case TU16
  show ?case
    by (rule varnat.mapped [where g = "\<lambda>v. case v of VU16 x \<Rightarrow> ucast x"
        and h = "\<lambda>n. and_then (ok_or (u16_try_from n) Corrupt) (\<lambda>x. Inr (VU16 x))"])
      (auto simp: typed_def and_then_def split: val.splits sum.splits)
next
  case TU32
  show ?case
    by (rule varnat.mapped [where g = "\<lambda>v. case v of VU32 x \<Rightarrow> ucast x"
        and h = "\<lambda>n. and_then (ok_or (u32_try_from n) Corrupt) (\<lambda>x. Inr (VU32 x))"])
      (auto simp: typed_def and_then_def split: val.splits sum.splits)
next
  case TU64
  show ?case
    by (rule varnat.mapped [where g = "\<lambda>v. case v of VU64 x \<Rightarrow> x" and h = "\<lambda>n. Inr (VU64 n)"])
      (auto simp: typed_def split: val.splits)
next
  case TI8
  show ?case
    by (rule varnat.mapped [where g = "\<lambda>v. case v of VI8 x \<Rightarrow> zigzag (scast x)"
        and h = "\<lambda>n. Inr (VI8 (ucast (unzigzag n)))"])
      (auto simp: typed_def unzigzag_zigzag ucast_scast_id split: val.splits)
next
  case TI16
  show ?case
    by (rule varnat.mapped [where g = "\<lambda>v. case v of VI16 x \<Rightarrow> zigzag (scast x)"
        and h = "\<lambda>n. Inr (VI16 (ucast (unzigzag n)))"])
      (auto simp: typed_def unzigzag_zigzag ucast_scast_id split: val.splits)
next
  case TI32
  show ?case
    by (rule varnat.mapped [where g = "\<lambda>v. case v of VI32 x \<Rightarrow> zigzag (scast x)"
        and h = "\<lambda>n. Inr (VI32 (ucast (unzigzag n)))"])
      (auto simp: typed_def unzigzag_zigzag ucast_scast_id split: val.splits)
next
  case TI64
  show ?case
    by (rule varnat.mapped [where g = "\<lambda>v. case v of VI64 x \<Rightarrow> zigzag x"
        and h = "\<lambda>n. Inr (VI64 (unzigzag n))"])
      (auto simp: typed_def unzigzag_zigzag split: val.splits)
next
  case TStr
  show ?case
    by (rule wire_codec.mapped [OF charc.counted, where g = "\<lambda>v. case v of VStr s \<Rightarrow> s"
        and h = "\<lambda>s. Inr (VStr s)"])
      (auto simp: typed_def str_ok_def and_then_def split: val.splits sum.splits)
next
  case TBytes
  show ?case
    by (rule bytesc.mapped [where g = "\<lambda>v. case v of VBytes bs \<Rightarrow> bs" and h = "\<lambda>bs. Inr (VBytes bs)"])
      (auto simp: typed_def split: val.splits)
next
  case (TOpt t)
  then show ?case by (rule value_codec_opt)
next
  case (TRes ok err)
  then show ?case by (rule value_codec_res)
next
  case (TList t)
  show ?case
    by (rule wire_codec.mapped [OF wire_codec.counted [OF TList], where g = "\<lambda>v. case v of VList xs \<Rightarrow> xs"
        and h = "\<lambda>xs. Inr (VList xs)"])
      (auto simp: typed_def and_then_def list_all_iff split: val.splits sum.splits)
qed

interpretation valuec: wire_codec "enc_value t" "dec_value t" "typed t" for t
  by (rule value_codec)

section \<open>Decoded values carry their type\<close>

lemma dec_char_scalar: "dec_char bs = Inr (c, u) \<Longrightarrow> is_scalar c"
  by (auto simp: dec_char_def and_then_eq_Inr char_from_u32_def bind_eq_Some_conv
      split: prod.splits if_splits)

lemma dec_rep_all:
  assumes "\<And>k x u. f (drop k bs) = Inr (x, u) \<Longrightarrow> P x"
  shows "dec_rep f n bs u = Inr (xs, u') \<Longrightarrow> list_all P xs"
  using assms
proof (induction f n bs u arbitrary: xs u' rule: dec_rep.induct)
  case (1 f n bs u)
  show ?case
  proof (cases "n = 0")
    case True
    with 1 show ?thesis by simp
  next
    case False
    with "1.prems"(1) obtain x used ys where
      x: "f (drop u bs) = Inr (x, used)" and
      ys: "dec_rep f (n - 1) bs (u + used) = Inr (ys, u')" and xs: "xs = x # ys"
      by (subst (asm) dec_rep.simps) (auto simp: and_then_eq_Inr split: prod.splits)
    with "1.IH" [OF False ys] "1.prems"(2) show ?thesis by auto
  qed
qed

lemma dec_rep_progress:
  assumes "\<And>bs x u. f bs = Inr (x, u) \<Longrightarrow> 0 < u"
  shows "dec_rep f n bs u = Inr (xs, u') \<Longrightarrow> u + length xs \<le> u'"
  using assms
proof (induction f n bs u arbitrary: xs u' rule: dec_rep.induct)
  case (1 f n bs u)
  show ?case
  proof (cases "n = 0")
    case True
    with 1 show ?thesis by simp
  next
    case False
    with "1.prems"(1) obtain x used ys where
      x: "f (drop u bs) = Inr (x, used)" and
      ys: "dec_rep f (n - 1) bs (u + used) = Inr (ys, u')" and xs: "xs = x # ys"
      by (subst (asm) dec_rep.simps) (auto simp: and_then_eq_Inr split: prod.splits)
    have "u + used + length ys \<le> u'" using "1.IH" [OF False ys] "1.prems"(2) by blast
    moreover have "0 < used" using "1.prems"(2) x by blast
    ultimately show ?thesis using xs by simp
  qed
qed

lemma dec_value_pos: "dec_value t bs = Inr (v, u) \<Longrightarrow> 0 < u"
proof (induction t arbitrary: bs v u)
  case TStr
  then obtain n u0 s where "dec_varnat bs = Inr (n, u0)" "dec_rep dec_char n bs u0 = Inr (s, u)"
    by (auto simp: and_then_eq_Inr)
  then show ?case
    using dec_rep_progress [of dec_char n bs u0 s u]
    by (force simp: dec_char_def and_then_eq_Inr dest: dec_varnat_consumes)
next
  case (TList t)
  then obtain n u0 xs where "dec_varnat bs = Inr (n, u0)" "dec_rep (dec_value t) n bs u0 = Inr (xs, u)"
    by (auto simp: and_then_eq_Inr)
  then show ?case
    using dec_rep_progress [of "dec_value t" n bs u0 xs u] TList.IH
    by (force dest: dec_varnat_consumes)
qed (auto simp: and_then_eq_Inr dec_bool_def dec_bytes_def Let_def
    split: prod.splits list.splits if_splits dest: dec_varnat_consumes)

lemma dec_rep_length:
  assumes "wire_codec enc f valid" "\<And>bs x u. f bs = Inr (x, u) \<Longrightarrow> 0 < u"
    and "dec_rep f n bs u = Inr (xs, u')" "u \<le> length bs"
  shows "length xs \<le> length bs"
proof -
  have "u + length xs \<le> u'"
    using assms(2) by (intro dec_rep_progress [of f, OF _ assms(3)]) blast
  then show ?thesis using wire_codec.dec_rep_consumes [OF assms(1,3,4)] by simp
qed

text \<open>
  Whatever the decoder accepts is a well-typed value of the type it was asked for.
\<close>

lemma dec_value_typed: "dec_value t bs = Inr (v, u) \<Longrightarrow> length bs < 2 ^ 63 \<Longrightarrow> typed t v"
proof (induction t arbitrary: bs v u)
  case TStr
  then obtain n u0 s where s: "dec_varnat bs = Inr (n, u0)" "dec_rep dec_char n bs u0 = Inr (s, u)"
    and v: "v = VStr s"
    by (auto simp: and_then_eq_Inr)
  have "list_all is_scalar s"
    using dec_char_scalar by (intro dec_rep_all [of dec_char bs, OF _ s(2)]) blast
  moreover have "length s \<le> length bs"
    using s dec_varnat_consumes [OF s(1)]
    by (intro dec_rep_length [OF charc.wire_codec_axioms _ s(2)])
      (auto simp: dec_char_def and_then_eq_Inr dest: dec_varnat_consumes)
  ultimately show ?case using v TStr.prems(2) by (simp add: typed_def str_ok_def)
next
  case (TList t)
  then obtain n u0 xs where xs: "dec_varnat bs = Inr (n, u0)" "dec_rep (dec_value t) n bs u0 = Inr (xs, u)"
    and v: "v = VList xs"
    by (auto simp: and_then_eq_Inr)
  have "list_all (typed t) xs"
    using TList.IH TList.prems(2)
    by (intro dec_rep_all [of "dec_value t" bs, OF _ xs(2)]) (simp add: less_imp_diff_less)
  moreover have "length xs \<le> length bs"
    using xs dec_varnat_consumes [OF xs(1)] dec_value_pos
    by (intro dec_rep_length [OF value_codec _ xs(2)]) auto
  ultimately show ?case using v TList.prems(2) by (auto simp: typed_def list_all_iff)
next
  case TBytes
  then show ?case
    by (auto simp: and_then_eq_Inr typed_def dec_bytes_def Let_def split: if_splits)
qed (auto simp: and_then_eq_Inr typed_def split: list.splits if_splits)

end
