(* ===== verification/Rows.thy ===== *)
theory Rows
  imports Values
begin

text \<open>
  Rows and schemas of \<open>crates/wasm-delta/src/row.rs\<close>: the schema is the field
  list the decoder is given out of band, a row is the field values in schema
  order, the key is the first field.  The row codec is a \<open>wire_codec\<close> for every
  schema (\<open>rowc\<close>), and the key bytes of a row are canonical: equal key bytes mean
  equal keys (\<open>key_value_inject\<close>).
\<close>

section \<open>Schemas and rows\<close>

record field =
  fname :: rstr
  fty :: ty

record schema =
  sfields :: "field list"

record row =
  row_values :: "val list"

definition schema_new :: "field list \<Rightarrow> schema" where
  "schema_new fs = \<lparr>sfields = fs\<rparr>"

definition schema_key :: "schema \<Rightarrow> field option" where
  "schema_key s = (case sfields s of [] \<Rightarrow> None | f # _ \<Rightarrow> Some f)"

definition schema_check :: "schema \<Rightarrow> val list \<Rightarrow> bool" where
  "schema_check s vs \<longleftrightarrow>
     length (sfields s) = length vs \<and>
     list_all (\<lambda>(f, v). value_ty_matches (fty f) v) (zip (sfields s) vs)"

definition row_new :: "schema \<Rightarrow> val list \<Rightarrow> row option" where
  "row_new s vs = (if schema_check s vs then Some \<lparr>row_values = vs\<rparr> else None)"

definition row_key :: "row \<Rightarrow> val option" where
  "row_key r = (case row_values r of [] \<Rightarrow> None | v # _ \<Rightarrow> Some v)"

section \<open>Row encoding\<close>

definition enc_row :: "schema \<Rightarrow> row \<Rightarrow> bytes" where
  "enc_row s r = concat (map (\<lambda>(f, v). enc_value (fty f) v) (zip (sfields s) (row_values r)))"

text \<open>The loop of \<open>dec_row\<close> over the remaining fields, at offset \<open>u\<close>.\<close>

fun dec_fields :: "field list \<Rightarrow> bytes \<Rightarrow> nat \<Rightarrow> val list dec" where
  "dec_fields [] bs u = Inr ([], u)"
| "dec_fields (f # fs) bs u =
     and_then (dec_value (fty f) (drop u bs)) (\<lambda>(v, used).
     and_then (dec_fields fs bs (u + used)) (\<lambda>(vs, u'). Inr (v # vs, u')))"

definition dec_row :: "schema \<Rightarrow> bytes \<Rightarrow> row dec" where
  "dec_row s bs = and_then (dec_fields (sfields s) bs 0) (\<lambda>(vs, u). Inr (\<lparr>row_values = vs\<rparr>, u))"

definition encode_row :: "schema \<Rightarrow> row \<Rightarrow> bytes option" where
  "encode_row s r = (if \<not> schema_check s (row_values r) then None else Some (enc_row s r))"

definition decode_row :: "schema \<Rightarrow> bytes \<Rightarrow> (row \<times> nat) option" where
  "decode_row s bs = ok_of (dec_row s bs)"

section \<open>Keys\<close>

definition row_key_bytes :: "schema \<Rightarrow> row \<Rightarrow> bytes option" where
  "row_key_bytes s r =
     Option.bind (schema_key s) (\<lambda>kf. Option.bind (row_key r) (\<lambda>k. Some (enc_value (fty kf) k)))"

text \<open>\<open>enc_key\<close> appends to its output and says whether it did: bytes and flag.\<close>

definition enc_key :: "schema \<Rightarrow> val \<Rightarrow> bytes \<times> bool" where
  "enc_key s k = (case schema_key s of
       Some f \<Rightarrow> if value_ty_matches (fty f) k then (enc_value (fty f) k, True) else ([], False)
     | None \<Rightarrow> ([], False))"

section \<open>Well-formed rows\<close>

definition row_ok :: "schema \<Rightarrow> row \<Rightarrow> bool" where
  "row_ok s r \<longleftrightarrow> list_all2 (\<lambda>f v. typed (fty f) v) (sfields s) (row_values r)"

lemma schema_check_iff:
  "schema_check s vs \<longleftrightarrow> list_all2 (\<lambda>f v. value_ty_matches (fty f) v) (sfields s) vs"
  by (auto simp: schema_check_def list_all2_iff list_all_iff)

lemma row_ok_iff: "row_ok s r \<longleftrightarrow> schema_check s (row_values r) \<and> list_all value_ok (row_values r)"
  unfolding row_ok_def schema_check_iff typed_def
  by (auto simp: list_all2_conv_all_nth list_all_length)

section \<open>The row codec\<close>

abbreviation enc_fields :: "field list \<Rightarrow> val list \<Rightarrow> bytes" where
  "enc_fields fs vs \<equiv> concat (map (\<lambda>(f, v). enc_value (fty f) v) (zip fs vs))"

lemma dec_fields_roundtrip:
  "list_all2 (\<lambda>f v. typed (fty f) v) fs vs \<Longrightarrow>
   dec_fields fs (pre @ enc_fields fs vs @ rest) (length pre)
     = Inr (vs, length pre + length (enc_fields fs vs))"
proof (induction fs vs arbitrary: pre rule: list_all2_induct)
  case (Cons f fs v vs)
  then show ?case
    using Cons.IH [of "pre @ enc_value (fty f) v"] by (simp add: valuec.roundtrip)
qed simp

lemma dec_fields_torn:
  "list_all2 (\<lambda>f v. typed (fty f) v) fs vs \<Longrightarrow> strict_prefix p (enc_fields fs vs) \<Longrightarrow>
   dec_fields fs (pre @ p) (length pre) = Inl Torn"
proof (induction fs vs arbitrary: pre p rule: list_all2_induct)
  case (Cons f fs v vs)
  then show ?case
    using valuec.torn_append [of "fty f" v p "enc_fields fs vs"]
      Cons.IH [of _ "pre @ enc_value (fty f) v"] by auto
qed simp

lemma dec_fields_consumes:
  "dec_fields fs bs u = Inr (vs, u') \<Longrightarrow> u \<le> length bs \<Longrightarrow> u \<le> u' \<and> u' \<le> length bs"
proof (induction fs bs u arbitrary: vs u' rule: dec_fields.induct)
  case (2 f fs bs u)
  from "2.prems"(1) obtain v used ws where
    v: "dec_value (fty f) (drop u bs) = Inr (v, used)" and
    ws: "dec_fields fs bs (u + used) = Inr (ws, u')"
    by (auto simp: and_then_eq_Inr)
  have "u + used \<le> length bs" using valuec.consumes [OF v] "2.prems"(2) by simp
  with "2.IH" [OF ws] show ?case by simp
qed simp

interpretation rowc: wire_codec "enc_row s" "dec_row s" "row_ok s" for s
proof (unfold_locales, goal_cases)
  case (1 r rest)
  then show ?case
    using dec_fields_roundtrip [of "sfields s" "row_values r" "[]" rest]
    by (simp add: dec_row_def enc_row_def row_ok_def)
next
  case (2 r p)
  then show ?case
    using dec_fields_torn [of "sfields s" "row_values r" p "[]"]
    by (simp add: dec_row_def enc_row_def row_ok_def)
next
  case (3 bs r u)
  then show ?case
    by (auto simp: dec_row_def and_then_eq_Inr dest: dec_fields_consumes)
qed

lemma dec_fields_typed:
  "dec_fields fs bs u = Inr (vs, u') \<Longrightarrow> length bs < 2 ^ 63 \<Longrightarrow>
   list_all2 (\<lambda>f v. typed (fty f) v) fs vs"
  by (induction fs bs u arbitrary: vs u' rule: dec_fields.induct)
    (auto simp: and_then_eq_Inr intro: dec_value_typed)

lemma dec_row_ok: "dec_row s bs = Inr (r, u) \<Longrightarrow> length bs < 2 ^ 63 \<Longrightarrow> row_ok s r"
  by (auto simp: dec_row_def and_then_eq_Inr row_ok_def intro: dec_fields_typed)

section \<open>Canonical keys\<close>

lemma row_ok_key:
  assumes "row_ok s r" "schema_key s = Some kf"
  obtains k where "row_key r = Some k" "typed (fty kf) k" "row_key_bytes s r = Some (enc_value (fty kf) k)"
  using assms
  by (cases "sfields s"; cases "row_values r")
    (auto simp: row_ok_def schema_key_def row_key_def row_key_bytes_def)

lemma enc_key_typed:
  "schema_key s = Some kf \<Longrightarrow> typed (fty kf) k \<Longrightarrow> enc_key s k = (enc_value (fty kf) k, True)"
  by (simp add: enc_key_def typed_def)

lemma key_value_inject:
  assumes "row_ok s r" "row_ok s r'" "schema_key s \<noteq> None"
  shows "row_key_bytes s r = row_key_bytes s r' \<longleftrightarrow> row_key r = row_key r'"
proof -
  obtain kf where kf: "schema_key s = Some kf" using assms(3) by auto
  obtain k k' where "row_key r = Some k" "typed (fty kf) k"
      "row_key_bytes s r = Some (enc_value (fty kf) k)"
      "row_key r' = Some k'" "typed (fty kf) k'"
      "row_key_bytes s r' = Some (enc_value (fty kf) k')"
    using row_ok_key [OF assms(1) kf] row_ok_key [OF assms(2) kf] by metis
  then show ?thesis by (simp add: valuec.enc_inject)
qed

end
