(* ===== verification/Deltas.thy ===== *)
theory Deltas
  imports Rows Btree
begin

text \<open>
  Changes and tables of \<open>crates/wasm-delta/src/delta.rs\<close>: the change variant with
  its wire tag and key, the materialized table as a map from key bytes to rows,
  \<open>patch\<close>, and the inverse of a change computed against its pre-image.

  \<open>table_ok\<close> is the table invariant: the map is ordered, every row is well formed
  and is stored under its own key bytes.  \<open>patch_invert\<close> is the inversion law the
  log rests on: patching with a valid change and then with its inverse restores
  the table exactly.
\<close>

section \<open>Changes\<close>

datatype change = Insert row | Update row | Remove val

fun change_tag :: "change \<Rightarrow> u64" where
  "change_tag (Insert _) = 0"
| "change_tag (Update _) = 1"
| "change_tag (Remove _) = 2"

fun change_key_bytes :: "schema \<Rightarrow> change \<Rightarrow> bytes option" where
  "change_key_bytes s (Insert r) = row_key_bytes s r"
| "change_key_bytes s (Update r) = row_key_bytes s r"
| "change_key_bytes s (Remove k) = (let (out, b) = enc_key s k in if b then Some out else None)"

section \<open>Tables\<close>

record table =
  rows :: "(bytes, row) btree"

definition table_new :: table where
  "table_new = \<lparr>rows = bt_empty\<rparr>"

definition table_rows :: "table \<Rightarrow> row list" where
  "table_rows t = bt_values (rows t)"

definition table_get :: "table \<Rightarrow> bytes \<Rightarrow> row option" where
  "table_get t k = bt_get (rows t) k"

fun patch :: "schema \<Rightarrow> change \<Rightarrow> table \<Rightarrow> table" where
  "patch s (Insert r) t =
     (case row_key_bytes s r of Some k \<Rightarrow> t\<lparr>rows := bt_insert k r (rows t)\<rparr> | None \<Rightarrow> t)"
| "patch s (Update r) t =
     (case row_key_bytes s r of Some k \<Rightarrow> t\<lparr>rows := bt_insert k r (rows t)\<rparr> | None \<Rightarrow> t)"
| "patch s (Remove v) t =
     (case change_key_bytes s (Remove v) of
        Some k \<Rightarrow> t\<lparr>rows := bt_remove k (rows t)\<rparr> | None \<Rightarrow> t)"

section \<open>Inversion\<close>

text \<open>The candidate inverse, then the filter that it must have key bytes.\<close>

fun invert_raw :: "change \<Rightarrow> row option \<Rightarrow> change option" where
  "invert_raw (Insert r) None = map_option Remove (row_key r)"
| "invert_raw (Insert r) (Some old) = Some (Update old)"
| "invert_raw (Update r) None = map_option Remove (row_key r)"
| "invert_raw (Update r) (Some old) = Some (Update old)"
| "invert_raw (Remove k) None = Some (Remove k)"
| "invert_raw (Remove k) (Some old) = Some (Insert old)"

definition invert :: "schema \<Rightarrow> change \<Rightarrow> row option \<Rightarrow> change option" where
  "invert s c pre = (case invert_raw c pre of
       None \<Rightarrow> None
     | Some i \<Rightarrow> if change_key_bytes s i = None then None else Some i)"

section \<open>Invariants\<close>

definition change_ok :: "schema \<Rightarrow> change \<Rightarrow> bool" where
  "change_ok s c \<longleftrightarrow> (case schema_key s of
       None \<Rightarrow> False
     | Some kf \<Rightarrow> (case c of Insert r \<Rightarrow> row_ok s r | Update r \<Rightarrow> row_ok s r | Remove k \<Rightarrow> typed (fty kf) k))"

definition table_ok :: "schema \<Rightarrow> table \<Rightarrow> bool" where
  "table_ok s t \<longleftrightarrow> bt_ok (rows t) \<and>
     (\<forall>(k, r) \<in> set (rows t). row_ok s r \<and> row_key_bytes s r = Some k)"

lemma table_ok_new [simp]: "table_ok s table_new"
  by (simp add: table_ok_def table_new_def) (simp add: bt_empty_def)

lemma table_okD:
  assumes "table_ok s t" "table_get t k = Some r"
  shows "row_ok s r" "row_key_bytes s r = Some k"
  using assms bt_get_Some_in by (fastforce simp: table_ok_def table_get_def)+

lemma change_ok_key:
  assumes "change_ok s c"
  obtains k where "change_key_bytes s c = Some k"
proof -
  obtain kf where kf: "schema_key s = Some kf"
    using assms by (auto simp: change_ok_def split: option.splits)
  then show thesis
    using assms that
    by (cases c) (auto simp: change_ok_def enc_key_typed elim: row_ok_key)
qed

lemma table_ok_patch:
  assumes "table_ok s t" "change_ok s c"
  shows "table_ok s (patch s c t)"
proof -
  have ins: "table_ok s (t\<lparr>rows := bt_insert k r (rows t)\<rparr>)"
    if "row_ok s r" "row_key_bytes s r = Some k" for k r
    using assms(1) that set_bt_insert_subset [of k r "rows t"] by (auto simp: table_ok_def)
  have rem: "table_ok s (t\<lparr>rows := bt_remove k (rows t)\<rparr>)" for k
    using assms(1) set_bt_remove_subset [of k "rows t"] by (auto simp: table_ok_def)
  show ?thesis
    using assms ins rem
    by (cases c) (auto simp: change_ok_def split: option.splits)
qed

text \<open>Patching writes exactly the key of the change.\<close>

fun change_row :: "change \<Rightarrow> row option" where
  "change_row (Insert r) = Some r"
| "change_row (Update r) = Some r"
| "change_row (Remove _) = None"

lemma table_get_patch:
  assumes "table_ok s t" "change_key_bytes s c = Some k"
  shows "table_get (patch s c t) k' = (if k' = k then change_row c else table_get t k')"
proof -
  have "bt_ok (rows t)" using assms(1) by (simp add: table_ok_def)
  with assms(2) show ?thesis
    by (cases c) (auto simp: table_get_def)
qed

lemma table_ext:
  assumes "table_ok s t" "table_ok s t'" "\<And>k. table_get t k = table_get t' k"
  shows "t = t'"
proof -
  have "rows t = rows t'"
    using assms by (intro bt.ext) (auto simp: table_ok_def table_get_def)
  then show ?thesis by simp
qed

section \<open>The inversion law\<close>

text \<open>The inverse of a valid change exists, is valid, and acts on the same key.\<close>

lemma invert_ok:
  assumes "table_ok s t" "change_ok s c" "change_key_bytes s c = Some k"
  obtains i where "invert s c (table_get t k) = Some i" "change_ok s i"
    "change_key_bytes s i = Some k" "change_row i = table_get t k"
proof -
  obtain kf where kf: "schema_key s = Some kf"
    using assms(2) by (auto simp: change_ok_def split: option.splits)
  show thesis
  proof (cases "table_get t k")
    case (Some old)
    then have "row_ok s old" "row_key_bytes s old = Some k"
      using table_okD [OF assms(1)] by auto
    then show thesis
      using that [of "case c of Remove _ \<Rightarrow> Insert old | _ \<Rightarrow> Update old"] Some kf
      by (cases c) (auto simp: invert_def change_ok_def)
  next
    case None
    show thesis
    proof (cases c)
      case (Remove v)
      then show thesis
        using that [of c] assms(2,3) None by (auto simp: invert_def)
    next
      case (Insert r)
      then have "row_ok s r" using assms(2) kf by (simp add: change_ok_def)
      then obtain v where "row_key r = Some v" "typed (fty kf) v"
          "row_key_bytes s r = Some (enc_value (fty kf) v)"
        using row_ok_key kf by blast
      then show thesis
        using that [of "Remove v"] None Insert assms(3) kf
        by (auto simp: invert_def change_ok_def enc_key_typed)
    next
      case (Update r)
      then have "row_ok s r" using assms(2) kf by (simp add: change_ok_def)
      then obtain v where "row_key r = Some v" "typed (fty kf) v"
          "row_key_bytes s r = Some (enc_value (fty kf) v)"
        using row_ok_key kf by blast
      then show thesis
        using that [of "Remove v"] None Update assms(3) kf
        by (auto simp: invert_def change_ok_def enc_key_typed)
    qed
  qed
qed

lemma patch_invert:
  assumes "table_ok s t" "change_ok s c" "change_key_bytes s c = Some k"
    and "invert s c (table_get t k) = Some i"
  shows "patch s i (patch s c t) = t"
proof -
  have i: "change_ok s i" "change_key_bytes s i = Some k" "change_row i = table_get t k"
    using invert_ok [OF assms(1-3)] assms(4) by auto
  have t': "table_ok s (patch s c t)"
    using assms(1,2) by (rule table_ok_patch)
  show ?thesis
  proof (rule table_ext [of s])
    show "table_ok s (patch s i (patch s c t))" using t' i(1) by (rule table_ok_patch)
    show "table_get (patch s i (patch s c t)) k' = table_get t k'" for k'
      using table_get_patch [OF t' i(2)] table_get_patch [OF assms(1,3)] i(3) by simp
  qed (rule assms(1))
qed

end
