(* ===== verification/Journal.thy ===== *)
theory Journal
  imports Deltas
begin

text \<open>
  The journal record format of \<open>crates/wasm-delta/src/log.rs\<close> (lines 27-273): the
  errors of the log, the schema set with its FNV-1a fingerprint, and the encoding
  of one log entry (table name, change, inverse) as the payload of an envelope.
  The change codec is a \<open>wire_codec\<close> for every schema (\<open>changec\<close>); an entry payload
  decodes to the entry it encodes (\<open>dec_enc_entry_payload\<close>).
\<close>

section \<open>Errors\<close>

definition VERSION :: u64 where
  "VERSION = 1"

text \<open>
  An I/O error carries its operating-system code.  Reasons are the static strings
  of the source.
\<close>

type_synonym io_error = nat

datatype delta_error =
    Io io_error
  | UnknownTable rstr
  | SchemaMismatch rstr string
  | WrongVersion nat u64
  | FingerprintMismatch nat
  | CorruptAt nat string

section \<open>The schema set\<close>

record schema_set =
  tables :: "(rstr, schema) btree"

definition schema_set_new :: schema_set where
  "schema_set_new = \<lparr>tables = bt_empty\<rparr>"

definition register :: "rstr \<Rightarrow> schema \<Rightarrow> schema_set \<Rightarrow> schema_set" where
  "register name s ss = ss\<lparr>tables := bt_insert name s (tables ss)\<rparr>"

definition schema_get :: "schema_set \<Rightarrow> rstr \<Rightarrow> schema option" where
  "schema_get ss name = bt_get (tables ss) name"

primrec enc_ty_tag :: "ty \<Rightarrow> bytes" where
  "enc_ty_tag TBool = [1]"
| "enc_ty_tag TU8 = [2]"
| "enc_ty_tag TU16 = [3]"
| "enc_ty_tag TU32 = [4]"
| "enc_ty_tag TU64 = [5]"
| "enc_ty_tag TI8 = [6]"
| "enc_ty_tag TI16 = [7]"
| "enc_ty_tag TI32 = [8]"
| "enc_ty_tag TI64 = [9]"
| "enc_ty_tag TStr = [10]"
| "enc_ty_tag TBytes = [11]"
| "enc_ty_tag (TOpt t) = 12 # enc_ty_tag t"
| "enc_ty_tag (TRes ok err) = 13 # enc_ty_tag ok @ enc_ty_tag err"
| "enc_ty_tag (TList t) = 14 # enc_ty_tag t"

text \<open>The closure \<open>mix\<close>: one FNV-1a round per byte.\<close>

definition mix :: "bytes \<Rightarrow> u64 \<Rightarrow> u64" where
  "mix bs h = fold (\<lambda>b h. (h XOR ucast b) * 0x100000001b3) bs h"

definition mix_field :: "field \<Rightarrow> u64 \<Rightarrow> u64" where
  "mix_field f h = mix (enc_ty_tag (fty f)) (mix (as_bytes (fname f)) h)"

definition mix_table :: "rstr \<times> schema \<Rightarrow> u64 \<Rightarrow> u64" where
  "mix_table t h = (case t of (name, s) \<Rightarrow> fold mix_field (sfields s) (mix (as_bytes name) h))"

definition fingerprint :: "schema_set \<Rightarrow> u64" where
  "fingerprint ss = fold mix_table (tables ss) 0xcbf29ce484222325"

section \<open>Entries\<close>

record delta_entry =
  entry_table :: rstr
  entry_change :: change
  entry_inverse :: change

definition enc_string :: "rstr \<Rightarrow> bytes" where
  "enc_string s = enc_value TStr (VStr s)"

definition dec_string :: "bytes \<Rightarrow> rstr dec" where
  "dec_string bs = and_then (dec_value TStr bs) (\<lambda>(v, u).
     case v of VStr s \<Rightarrow> Inr (s, u) | _ \<Rightarrow> Inl Corrupt)"

text \<open>Encoders that may refuse return the bytes appended so far and the flag.\<close>

definition enc_change :: "schema \<Rightarrow> change \<Rightarrow> bytes \<times> bool" where
  "enc_change s c = (case c of
       Insert r \<Rightarrow> (enc_varnat (change_tag c) @ enc_row s r, True)
     | Update r \<Rightarrow> (enc_varnat (change_tag c) @ enc_row s r, True)
     | Remove k \<Rightarrow> (let (out, b) = enc_key s k in (enc_varnat (change_tag c) @ out, b)))"

definition dec_change :: "schema \<Rightarrow> bytes \<Rightarrow> change dec" where
  "dec_change s bs = and_then (dec_varnat bs) (\<lambda>(tag, u).
     if tag = 0 \<or> tag = 1 then
       and_then (dec_row s (drop u bs)) (\<lambda>(r, used).
         Inr (if tag = 0 then Insert r else Update r, u + used))
     else if tag = 2 then
       and_then (ok_or (schema_key s) Corrupt) (\<lambda>kf.
       and_then (dec_value (fty kf) (drop u bs)) (\<lambda>(key, used).
         Inr (Remove key, u + used)))
     else Inl Corrupt)"

definition enc_entry_payload :: "schema_set \<Rightarrow> delta_entry \<Rightarrow> bytes \<times> bool" where
  "enc_entry_payload ss e = (case schema_get ss (entry_table e) of
       None \<Rightarrow> ([], False)
     | Some s \<Rightarrow>
         let (c, ok1) = enc_change s (entry_change e) in
         if \<not> ok1 then (enc_string (entry_table e) @ c, False)
         else let (i, ok2) = enc_change s (entry_inverse e) in
              (enc_string (entry_table e) @ c @ i, ok2))"

definition dec_entry_payload :: "schema_set \<Rightarrow> bytes \<Rightarrow> delta_entry option" where
  "dec_entry_payload ss payload =
     Option.bind (ok_of (dec_string payload)) (\<lambda>(tbl, u1).
     Option.bind (schema_get ss tbl) (\<lambda>s.
     Option.bind (ok_of (dec_change s (drop u1 payload))) (\<lambda>(c, u2).
     Option.bind (ok_of (dec_change s (drop (u1 + u2) payload))) (\<lambda>(i, u3).
       if u1 + u2 + u3 \<noteq> length payload then None
       else Some \<lparr>entry_table = tbl, entry_change = c, entry_inverse = i\<rparr>))))"

text \<open>The record that \<open>append\<close> writes for an entry.\<close>

definition record_bytes :: "schema_set \<Rightarrow> delta_entry \<Rightarrow> bytes" where
  "record_bytes ss e = enc_envelope VERSION (fingerprint ss) (fst (enc_entry_payload ss e))"

section \<open>The change codec\<close>

definition change_bytes :: "schema \<Rightarrow> change \<Rightarrow> bytes" where
  "change_bytes s c = fst (enc_change s c)"

lemma enc_change_ok: "change_ok s c \<Longrightarrow> enc_change s c = (change_bytes s c, True)"
  by (auto simp: enc_change_def change_bytes_def change_ok_def enc_key_typed
      split: change.splits option.splits)

lemma change_tag_inject: "change_tag c \<in> {0, 1, 2}"
  by (cases c) auto

interpretation changec: wire_codec "change_bytes s" "dec_change s" "change_ok s" for s
proof (unfold_locales, goal_cases)
  case (1 c rest)
  then show ?case
    using rowc.roundtrip [of s] valuec.roundtrip
    by (cases c) (auto simp: change_bytes_def enc_change_def dec_change_def change_ok_def
        dec_enc_varnat enc_key_typed split: option.splits)
next
  case (2 c p)
  then show ?case
    using rowc.torn [of s] valuec.torn
    by (cases c) (auto simp: change_bytes_def enc_change_def dec_change_def change_ok_def
        dec_enc_varnat dec_varnat_torn enc_key_typed split: option.splits
        dest!: strict_prefix_append_cases)
next
  case (3 bs c u)
  then show ?case
    by (fastforce simp: dec_change_def and_then_eq_Inr split: if_splits prod.splits
        dest: dec_varnat_consumes rowc.consumes valuec.consumes)
qed

lemma dec_change_ok:
  assumes "dec_change s bs = Inr (c, u)" "length bs < 2 ^ 63" "schema_key s \<noteq> None"
  shows "change_ok s c"
proof -
  have len: "length (drop b bs) < 2 ^ 63" for b
    using assms(2) by simp
  show ?thesis
    using assms(1,3) dec_row_ok [OF _ len] dec_value_typed [OF _ len]
    by (auto simp: dec_change_def change_ok_def and_then_eq_Inr simp del: length_drop split: if_splits)
qed

section \<open>Entries round-trip\<close>

definition entry_ok :: "schema_set \<Rightarrow> delta_entry \<Rightarrow> bool" where
  "entry_ok ss e \<longleftrightarrow> str_ok (entry_table e) \<and> (case schema_get ss (entry_table e) of
       None \<Rightarrow> False
     | Some s \<Rightarrow> change_ok s (entry_change e) \<and> change_ok s (entry_inverse e))"

text \<open>The payload fits in memory: Rust's bound on the length of a vector.\<close>

definition entry_fits :: "schema_set \<Rightarrow> delta_entry \<Rightarrow> bool" where
  "entry_fits ss e \<longleftrightarrow> length (fst (enc_entry_payload ss e)) < 2 ^ 63"

lemma enc_entry_payload_ok:
  assumes "entry_ok ss e" "schema_get ss (entry_table e) = Some s"
  shows "enc_entry_payload ss e =
    (enc_string (entry_table e) @ change_bytes s (entry_change e) @ change_bytes s (entry_inverse e), True)"
  using assms by (simp add: enc_entry_payload_def entry_ok_def enc_change_ok)

lemma dec_enc_string:
  "str_ok s \<Longrightarrow> dec_string (enc_string s @ rest) = Inr (s, length (enc_string s))"
  using valuec.roundtrip [of TStr "VStr s" rest]
  by (simp add: dec_string_def enc_string_def typed_def)

lemma dec_enc_entry_payload:
  assumes "entry_ok ss e"
  shows "dec_entry_payload ss (fst (enc_entry_payload ss e)) = Some e"
proof -
  obtain s where s: "schema_get ss (entry_table e) = Some s"
    using assms by (auto simp: entry_ok_def split: option.splits)
  with assms have ok: "str_ok (entry_table e)" "change_ok s (entry_change e)" "change_ok s (entry_inverse e)"
    by (auto simp: entry_ok_def)
  show ?thesis
    using ok s by (simp add: enc_entry_payload_ok [OF assms s] dec_entry_payload_def dec_enc_string
        changec.roundtrip changec.roundtrip_exact)
qed

section \<open>Records scan back\<close>

lemma scan_record:
  assumes "entry_fits ss e"
  shows "dec_envelope_prefix (record_bytes ss e @ rest) =
    Inr \<lparr>env_version = VERSION, env_fingerprint = fingerprint ss,
         env_payload = fst (enc_entry_payload ss e), env_len = length (record_bytes ss e)\<rparr>"
  using assms by (simp add: record_bytes_def entry_fits_def dec_enc_envelope)

lemma scan_torn_record:
  "entry_fits ss e \<Longrightarrow> strict_prefix p (record_bytes ss e) \<Longrightarrow> dec_envelope_prefix p = Inl Torn"
  by (rule dec_envelope_torn) (auto simp: record_bytes_def entry_fits_def)

lemma record_bytes_not_Nil [simp]: "record_bytes ss e \<noteq> []"
  by (simp add: record_bytes_def)

end
