(* ===== verification/Backends.thy ===== *)
theory Backends
  imports Journal
begin

text \<open>
  The byte sinks behind a log, \<open>crates/wasm-delta/src/log.rs\<close> (lines 275-406).  The
  trait \<open>Backend\<close> is the record \<open>backend_ops\<close> of its three methods over a backend
  state; every method returns a result and the new state.  \<open>MemBackend\<close> is a byte
  vector.  \<open>FsBackend\<close> is a file handle as \<open>std::fs::File\<close> specifies it: content and
  cursor, writes at the cursor (a write past the end fills the gap with zeros), a
  \<open>set_len\<close> that leaves the cursor where it is, and system calls that may fail, a
  failed write possibly after writing a part.

  What a log needs of a backend is the locale \<open>append_backend\<close>; \<open>truncating_backend\<close>
  adds that a truncated backend is ready for the next append.  The file backend
  is an instance of the first only.
\<close>

section \<open>The trait\<close>

record 'b backend_ops =
  be_load :: "'b \<Rightarrow> (delta_error + bytes) \<times> 'b"
  be_append :: "bytes \<Rightarrow> 'b \<Rightarrow> (delta_error + unit) \<times> 'b"
  be_truncate :: "u64 \<Rightarrow> 'b \<Rightarrow> (delta_error + unit) \<times> 'b"

section \<open>The in-memory backend\<close>

record mem_backend =
  mem_bytes :: bytes

definition mem_backend_new :: mem_backend where
  "mem_backend_new = \<lparr>mem_bytes = []\<rparr>"

definition mem_load :: "mem_backend \<Rightarrow> (delta_error + bytes) \<times> mem_backend" where
  "mem_load b = (Inr (mem_bytes b), b)"

definition mem_append :: "bytes \<Rightarrow> mem_backend \<Rightarrow> (delta_error + unit) \<times> mem_backend" where
  "mem_append record b = (Inr (), b\<lparr>mem_bytes := mem_bytes b @ record\<rparr>)"

definition mem_truncate :: "u64 \<Rightarrow> mem_backend \<Rightarrow> (delta_error + unit) \<times> mem_backend" where
  "mem_truncate len b = (Inr (), b\<lparr>mem_bytes := take (unat len) (mem_bytes b)\<rparr>)"

definition mem_ops :: "mem_backend backend_ops" where
  "mem_ops = \<lparr>be_load = mem_load, be_append = mem_append, be_truncate = mem_truncate\<rparr>"

section \<open>Files\<close>

text \<open>
  A handle of \<open>std::fs::File\<close>.  \<open>pending\<close> holds the outcomes of the next system calls;
  once it is used up every call succeeds.  \<open>Fails e n\<close> is an error with code \<open>e\<close>,
  which a write raises after \<open>n\<close> of its bytes.
\<close>

datatype outcome = Done | Fails io_error nat

record fs_file =
  content :: bytes
  cursor :: nat
  pending :: "outcome list"

definition next_outcome :: "fs_file \<Rightarrow> outcome \<times> fs_file" where
  "next_outcome f = (case pending f of [] \<Rightarrow> (Done, f) | p # ps \<Rightarrow> (p, f\<lparr>pending := ps\<rparr>))"

definition write_at :: "nat \<Rightarrow> bytes \<Rightarrow> bytes \<Rightarrow> bytes" where
  "write_at pos new old = take pos old @ replicate (pos - length old) 0 @ new @ drop (pos + length new) old"

definition file_seek_start :: "fs_file \<Rightarrow> (io_error + unit) \<times> fs_file" where
  "file_seek_start f = (case next_outcome f of
       (Fails e _, f') \<Rightarrow> (Inl e, f')
     | (Done, f') \<Rightarrow> (Inr (), f'\<lparr>cursor := 0\<rparr>))"

definition file_read_to_end :: "fs_file \<Rightarrow> (io_error + bytes) \<times> fs_file" where
  "file_read_to_end f = (case next_outcome f of
       (Fails e _, f') \<Rightarrow> (Inl e, f')
     | (Done, f') \<Rightarrow> (Inr (drop (cursor f) (content f)), f'\<lparr>cursor := max (cursor f) (length (content f))\<rparr>))"

definition file_write_all :: "bytes \<Rightarrow> fs_file \<Rightarrow> (io_error + unit) \<times> fs_file" where
  "file_write_all bs f = (case next_outcome f of
       (Fails e n, f') \<Rightarrow>
         (let part = take n bs in
          (Inl e, if part = [] then f' else
             f'\<lparr>content := write_at (cursor f) part (content f), cursor := cursor f + length part\<rparr>))
     | (Done, f') \<Rightarrow>
         (Inr (), if bs = [] then f' else
            f'\<lparr>content := write_at (cursor f) bs (content f), cursor := cursor f + length bs\<rparr>))"

definition file_sync_data :: "fs_file \<Rightarrow> (io_error + unit) \<times> fs_file" where
  "file_sync_data f = (case next_outcome f of
       (Fails e _, f') \<Rightarrow> (Inl e, f')
     | (Done, f') \<Rightarrow> (Inr (), f'))"

definition file_set_len :: "u64 \<Rightarrow> fs_file \<Rightarrow> (io_error + unit) \<times> fs_file" where
  "file_set_len len f = (case next_outcome f of
       (Fails e _, f') \<Rightarrow> (Inl e, f')
     | (Done, f') \<Rightarrow>
         (Inr (), f'\<lparr>content := take (unat len) (content f) @
                     replicate (unat len - length (content f)) 0\<rparr>))"

section \<open>The file backend\<close>

record fs_backend =
  fhandle :: fs_file

text \<open>
  Opening with read, write and create, without truncate or append: the existing
  content (nothing for a new file), the cursor at the start.  The arguments are
  what the path holds and the outcomes of the system calls that follow.
\<close>

definition fs_backend_open :: "bytes option \<Rightarrow> outcome list \<Rightarrow> delta_error + fs_backend" where
  "fs_backend_open stored outcomes =
     (let f = \<lparr>content = (case stored of None \<Rightarrow> [] | Some bs \<Rightarrow> bs), cursor = 0, pending = outcomes\<rparr> in
      case next_outcome f of
        (Fails e _, _) \<Rightarrow> Inl (Io e)
      | (Done, f') \<Rightarrow> Inr \<lparr>fhandle = f'\<rparr>)"

definition fs_load :: "fs_backend \<Rightarrow> (delta_error + bytes) \<times> fs_backend" where
  "fs_load b = (case file_seek_start (fhandle b) of
       (Inl e, f) \<Rightarrow> (Inl (Io e), b\<lparr>fhandle := f\<rparr>)
     | (Inr _, f) \<Rightarrow> (case file_read_to_end f of
         (Inl e, f') \<Rightarrow> (Inl (Io e), b\<lparr>fhandle := f'\<rparr>)
       | (Inr bs, f') \<Rightarrow> (Inr bs, b\<lparr>fhandle := f'\<rparr>)))"

definition fs_append :: "bytes \<Rightarrow> fs_backend \<Rightarrow> (delta_error + unit) \<times> fs_backend" where
  "fs_append record b = (case file_write_all record (fhandle b) of
       (Inl e, f) \<Rightarrow> (Inl (Io e), b\<lparr>fhandle := f\<rparr>)
     | (Inr _, f) \<Rightarrow> (case file_sync_data f of
         (Inl e, f') \<Rightarrow> (Inl (Io e), b\<lparr>fhandle := f'\<rparr>)
       | (Inr _, f') \<Rightarrow> (Inr (), b\<lparr>fhandle := f'\<rparr>)))"

definition fs_truncate :: "u64 \<Rightarrow> fs_backend \<Rightarrow> (delta_error + unit) \<times> fs_backend" where
  "fs_truncate len b = (case file_set_len len (fhandle b) of
       (Inl e, f) \<Rightarrow> (Inl (Io e), b\<lparr>fhandle := f\<rparr>)
     | (Inr _, f) \<Rightarrow> (case file_sync_data f of
         (Inl e, f') \<Rightarrow> (Inl (Io e), b\<lparr>fhandle := f'\<rparr>)
       | (Inr _, f') \<Rightarrow> (Inr (), b\<lparr>fhandle := f'\<rparr>)))"

definition fs_ops :: "fs_backend backend_ops" where
  "fs_ops = \<lparr>be_load = fs_load, be_append = fs_append, be_truncate = fs_truncate\<rparr>"

section \<open>The contract\<close>

text \<open>
  \<open>journal\<close> reads the bytes a backend holds; a \<open>live\<close> backend does not fail; a \<open>ready\<close>
  one appends at the end of its journal.
\<close>

locale append_backend =
  fixes ops :: "'b backend_ops"
    and journal :: "'b \<Rightarrow> bytes"
    and live :: "'b \<Rightarrow> bool"
    and ready :: "'b \<Rightarrow> bool"
  assumes ready_live: "ready b \<Longrightarrow> live b"
    and load: "live b \<Longrightarrow> \<exists>b'. be_load ops b = (Inr (journal b), b') \<and> journal b' = journal b \<and> ready b'"
    and append: "ready b \<Longrightarrow> \<exists>b'. be_append ops r b = (Inr (), b') \<and> journal b' = journal b @ r \<and> ready b'"
    and truncate: "live b \<Longrightarrow> unat n \<le> length (journal b) \<Longrightarrow>
      \<exists>b'. be_truncate ops n b = (Inr (), b') \<and> journal b' = take (unat n) (journal b) \<and> live b'"

locale truncating_backend = append_backend +
  assumes truncate_ready: "ready b \<Longrightarrow> unat n \<le> length (journal b) \<Longrightarrow> ready (snd (be_truncate ops n b))"

section \<open>The backends keep the contract\<close>

interpretation membk: truncating_backend mem_ops mem_bytes "\<lambda>_. True" "\<lambda>_. True"
  by unfold_locales (simp_all add: mem_ops_def mem_load_def mem_append_def mem_truncate_def)

definition fs_journal :: "fs_backend \<Rightarrow> bytes" where
  "fs_journal b = content (fhandle b)"

definition fs_live :: "fs_backend \<Rightarrow> bool" where
  "fs_live b \<longleftrightarrow> pending (fhandle b) = []"

definition fs_ready :: "fs_backend \<Rightarrow> bool" where
  "fs_ready b \<longleftrightarrow> pending (fhandle b) = [] \<and> cursor (fhandle b) = length (content (fhandle b))"

lemmas file_defs = file_seek_start_def file_read_to_end_def file_write_all_def file_sync_data_def
  file_set_len_def next_outcome_def write_at_def

lemmas fs_defs = fs_ops_def fs_load_def fs_append_def fs_truncate_def fs_journal_def fs_live_def
  fs_ready_def file_defs

interpretation fsbk: append_backend fs_ops fs_journal fs_live fs_ready
  by unfold_locales (auto simp: fs_defs)

text \<open>After a truncation the cursor still is at the old end: the next write leaves a hole of zeros.\<close>

lemma fs_append_after_truncate:
  assumes "fs_ready b" "unat n \<le> length (fs_journal b)" "r \<noteq> []"
  shows "fs_journal (snd (be_append fs_ops r (snd (be_truncate fs_ops n b)))) =
    take (unat n) (fs_journal b) @ replicate (length (fs_journal b) - unat n) 0 @ r"
  using assms by (simp add: fs_defs)

end
