(* ===== verification/DeltaLog.thy ===== *)
theory DeltaLog
  imports Backends
begin

text \<open>
  The append-only delta log of \<open>crates/wasm-delta/src/log.rs\<close> (\<open>DeltaLog\<close>, lines
  408-652): the decoded entries and the materialized state of every table, kept in
  step; opening with the recovery scan; the validated append that stores the
  inverse of each change; prefix replay; and the rewind that appends the stored
  inverses tail-first.

  \<open>log_inv\<close> is the invariant: every entry is valid for its table, its inverse was
  computed against the replay of the entries before it, and the states are the
  replay of the whole log.  The lemmas on opening, appending and rewinding are
  proved for every backend that keeps the contract \<open>append_backend\<close> and then hold
  for the memory and file backends.
\<close>

section \<open>The log\<close>

record 'b delta_log =
  backend :: 'b
  schemas :: schema_set
  entries :: "delta_entry list"
  states :: "(rstr, table) btree"

subsection \<open>Opening\<close>

text \<open>The loop of \<open>open_with\<close>; it returns the entries and the backend.\<close>

function scan_loop :: "'b backend_ops \<Rightarrow> schema_set \<Rightarrow> bytes \<Rightarrow> nat \<Rightarrow> delta_entry list \<Rightarrow> 'b \<Rightarrow>
    delta_error + delta_entry list \<times> 'b" where
  "scan_loop ops ss bs offset es b =
     (if \<not> offset < length bs then Inr (es, b)
      else case dec_envelope_prefix (drop offset bs) of
        Inl Torn \<Rightarrow> (case be_truncate ops (word_of_nat offset) b of
            (Inl e, _) \<Rightarrow> Inl e
          | (Inr _, b') \<Rightarrow> Inr (es, b'))
      | Inl Corrupt \<Rightarrow> Inl (CorruptAt offset ''malformed envelope header'')
      | Inr env \<Rightarrow>
          if env_version env \<noteq> VERSION then Inl (WrongVersion offset (env_version env))
          else if env_fingerprint env \<noteq> fingerprint ss then Inl (FingerprintMismatch offset)
          else (case dec_entry_payload ss (env_payload env) of
              None \<Rightarrow> Inl (CorruptAt offset ''entry payload undecodable'')
            | Some e \<Rightarrow> scan_loop ops ss bs (offset + env_len env) (es @ [e]) b))"
  by pat_completeness auto
termination
proof (relation "measure (\<lambda>(ops, ss, bs, offset, es, b). length bs - offset)")
  fix bs :: bytes and offset :: nat and env
  assume "\<not> \<not> offset < length bs" "dec_envelope_prefix (drop offset bs) = Inr env"
  then show "((ops, ss, bs, offset + env_len env, es @ [e], b), (ops, ss, bs, offset, es, b))
      \<in> measure (\<lambda>(ops, ss, bs, offset, es, b). length bs - offset)" for ops ss es e b
    using dec_envelope_len [of "drop offset bs" env] by (auto intro!: diff_less_mono2)
qed simp

declare scan_loop.simps [simp del]

text \<open>One entry applied to the states: \<open>entry(table).or_insert_with(Table::new).patch(schema, change)\<close>.\<close>

definition patch_states ::
  "schema \<Rightarrow> rstr \<Rightarrow> change \<Rightarrow> (rstr, table) btree \<Rightarrow> (rstr, table) btree" where
  "patch_states s tbl c st =
     bt_insert tbl (patch s c (case bt_get st tbl of None \<Rightarrow> table_new | Some t \<Rightarrow> t)) st"

definition rebuild_entry :: "schema_set \<Rightarrow> delta_entry \<Rightarrow> (rstr, table) btree \<Rightarrow> (rstr, table) btree" where
  "rebuild_entry ss e st = (case schema_get ss (entry_table e) of
       None \<Rightarrow> st
     | Some s \<Rightarrow> patch_states s (entry_table e) (entry_change e) st)"

definition rebuild_states :: "'b delta_log \<Rightarrow> 'b delta_log" where
  "rebuild_states log = log\<lparr>states := fold (rebuild_entry (schemas log)) (entries log) bt_empty\<rparr>"

definition open_with :: "'b backend_ops \<Rightarrow> 'b \<Rightarrow> schema_set \<Rightarrow> delta_error + 'b delta_log" where
  "open_with ops b ss = (case be_load ops b of
       (Inl e, _) \<Rightarrow> Inl e
     | (Inr bs, b') \<Rightarrow>
         and_then (scan_loop ops ss bs 0 [] b') (\<lambda>(es, b'').
           Inr (rebuild_states \<lparr>backend = b'', schemas = ss, entries = es, states = bt_empty\<rparr>)))"

text \<open>\<open>DeltaLog::open\<close> on what the path holds and the outcomes of the system calls.\<close>

definition open_file ::
  "bytes option \<Rightarrow> outcome list \<Rightarrow> schema_set \<Rightarrow> delta_error + fs_backend delta_log" where
  "open_file stored outcomes ss =
     and_then (fs_backend_open stored outcomes) (\<lambda>b. open_with fs_ops b ss)"

subsection \<open>Appending\<close>

abbreviation no_change_type :: string where
  "no_change_type \<equiv> ''key-less schema has no change type (Delta.lean)''"

definition validate :: "rstr \<Rightarrow> schema \<Rightarrow> change \<Rightarrow> delta_error + unit" where
  "validate tbl s c = (let mismatch = SchemaMismatch tbl; row_case = (\<lambda>r.
       if schema_key s = None then Inl (mismatch no_change_type)
       else if \<not> schema_check s (row_values r) then Inl (mismatch ''row arity/type mismatch'')
       else Inr ()) in
     case c of
       Insert r \<Rightarrow> row_case r
     | Update r \<Rightarrow> row_case r
     | Remove k \<Rightarrow> (case schema_key s of
           None \<Rightarrow> Inl (mismatch no_change_type)
         | Some f \<Rightarrow> if value_ty_matches (fty f) k then Inr ()
                     else Inl (mismatch ''remove key type mismatch'')))"

text \<open>The part of \<open>append\<close> before the write: the schema and the entry to log.\<close>

definition prepare :: "'b delta_log \<Rightarrow> rstr \<Rightarrow> change \<Rightarrow> delta_error + schema \<times> delta_entry" where
  "prepare log tbl c =
     and_then (ok_or (schema_get (schemas log) tbl) (UnknownTable tbl)) (\<lambda>s.
     and_then (validate tbl s c) (\<lambda>_.
     and_then (ok_or (change_key_bytes s c) (SchemaMismatch tbl ''no key'')) (\<lambda>key.
     let pre = Option.bind (bt_get (states log) tbl) (\<lambda>t. table_get t key) in
     and_then (ok_or (invert s c pre) (SchemaMismatch tbl ''not invertible'')) (\<lambda>inverse.
     let e = \<lparr>entry_table = tbl, entry_change = c, entry_inverse = inverse\<rparr> in
     if \<not> snd (enc_entry_payload (schemas log) e)
     then Inl (SchemaMismatch tbl ''entry failed to encode'')
     else Inr (s, e)))))"

definition log_append ::
  "'b backend_ops \<Rightarrow> rstr \<Rightarrow> change \<Rightarrow> 'b delta_log \<Rightarrow> (delta_error + u64) \<times> 'b delta_log" where
  "log_append ops tbl c log = (case prepare log tbl c of
       Inl e \<Rightarrow> (Inl e, log)
     | Inr (s, e) \<Rightarrow>
         (case be_append ops (record_bytes (schemas log) e) (backend log) of
            (Inl err, b) \<Rightarrow> (Inl err, log\<lparr>backend := b\<rparr>)
          | (Inr _, b) \<Rightarrow>
              (Inr (word_of_nat (length (entries log))),
               log\<lparr>backend := b, states := patch_states s tbl (entry_change e) (states log),
                   entries := entries log @ [e]\<rparr>)))"

subsection \<open>Reading\<close>

definition log_len :: "'b delta_log \<Rightarrow> u64" where
  "log_len log = word_of_nat (length (entries log))"

definition log_is_empty :: "'b delta_log \<Rightarrow> bool" where
  "log_is_empty log = List.null (entries log)"

definition log_entry :: "'b delta_log \<Rightarrow> u64 \<Rightarrow> delta_entry option" where
  "log_entry log seq = (if unat seq < length (entries log) then Some (entries log ! unat seq) else None)"

definition log_state :: "'b delta_log \<Rightarrow> rstr \<Rightarrow> table option" where
  "log_state log tbl = bt_get (states log) tbl"

definition replay_step :: "schema \<Rightarrow> rstr \<Rightarrow> delta_entry \<Rightarrow> table \<Rightarrow> table" where
  "replay_step s tbl e t = (if entry_table e = tbl then patch s (entry_change e) t else t)"

definition state_at :: "'b delta_log \<Rightarrow> rstr \<Rightarrow> u64 \<Rightarrow> table option" where
  "state_at log tbl seq = Option.bind (schema_get (schemas log) tbl) (\<lambda>s.
     Some (fold (replay_step s tbl) (take (unat seq) (entries log)) table_new))"

subsection \<open>Rewinding\<close>

text \<open>The loop over the compensations, left at the first error.\<close>

fun append_each ::
  "'b backend_ops \<Rightarrow> (rstr \<times> change) list \<Rightarrow> 'b delta_log \<Rightarrow> (delta_error + unit) \<times> 'b delta_log" where
  "append_each ops [] log = (Inr (), log)"
| "append_each ops ((tbl, c) # cs) log = (case log_append ops tbl c log of
       (Inl e, log') \<Rightarrow> (Inl e, log')
     | (Inr _, log') \<Rightarrow> append_each ops cs log')"

definition rewind_to :: "'b backend_ops \<Rightarrow> u64 \<Rightarrow> 'b delta_log \<Rightarrow> (delta_error + unit) \<times> 'b delta_log" where
  "rewind_to ops seq log =
     (let start = min (unat seq) (length (entries log));
          compensations = map (\<lambda>e. (entry_table e, entry_inverse e)) (rev (drop start (entries log)))
      in append_each ops compensations log)"

section \<open>Replay and the invariant\<close>

definition replay :: "schema_set \<Rightarrow> rstr \<Rightarrow> delta_entry list \<Rightarrow> table" where
  "replay ss tbl es = (case schema_get ss tbl of
       None \<Rightarrow> table_new
     | Some s \<Rightarrow> fold (replay_step s tbl) es table_new)"

definition states_of :: "schema_set \<Rightarrow> delta_entry list \<Rightarrow> (rstr, table) btree" where
  "states_of ss es = fold (rebuild_entry ss) es bt_empty"

text \<open>The inverse stored in \<open>e\<close> is the one computed against the replay of \<open>pre\<close>.\<close>

definition inverse_ok :: "schema_set \<Rightarrow> delta_entry list \<Rightarrow> delta_entry \<Rightarrow> bool" where
  "inverse_ok ss pre e \<longleftrightarrow> (case schema_get ss (entry_table e) of
       None \<Rightarrow> False
     | Some s \<Rightarrow> Option.bind (change_key_bytes s (entry_change e))
         (\<lambda>k. invert s (entry_change e) (table_get (replay ss (entry_table e) pre) k)) = Some (entry_inverse e))"

fun history_ok :: "schema_set \<Rightarrow> delta_entry list \<Rightarrow> delta_entry list \<Rightarrow> bool" where
  "history_ok ss pre [] \<longleftrightarrow> True"
| "history_ok ss pre (e # es) \<longleftrightarrow> entry_ok ss e \<and> inverse_ok ss pre e \<and> history_ok ss (pre @ [e]) es"

definition log_inv :: "'b delta_log \<Rightarrow> bool" where
  "log_inv log \<longleftrightarrow> history_ok (schemas log) [] (entries log) \<and>
     states log = states_of (schemas log) (entries log)"

lemma history_ok_append:
  "history_ok ss pre (xs @ ys) \<longleftrightarrow> history_ok ss pre xs \<and> history_ok ss (pre @ xs) ys"
  by (induction xs arbitrary: pre) auto

lemma history_ok_entry_ok: "history_ok ss pre es \<Longrightarrow> list_all (entry_ok ss) es"
  by (induction es arbitrary: pre) auto

lemma entry_okE:
  assumes "entry_ok ss e"
  obtains s where "schema_get ss (entry_table e) = Some s" "str_ok (entry_table e)"
    "change_ok s (entry_change e)" "change_ok s (entry_inverse e)"
  using assms by (auto simp: entry_ok_def split: option.splits)

lemma replay_snoc:
  "replay ss tbl (es @ [e]) =
    (case schema_get ss tbl of Some s \<Rightarrow> replay_step s tbl e (replay ss tbl es) | None \<Rightarrow> table_new)"
  by (simp add: replay_def split: option.splits)

lemma replay_Nil [simp]: "replay ss tbl [] = table_new"
  by (simp add: replay_def split: option.splits)

lemma replay_snoc_other: "entry_table e \<noteq> tbl \<Longrightarrow> replay ss tbl (es @ [e]) = replay ss tbl es"
  by (auto simp: replay_def replay_step_def split: option.splits)

lemma replay_snoc_same:
  "schema_get ss (entry_table e) = Some s \<Longrightarrow>
   replay ss (entry_table e) (es @ [e]) = patch s (entry_change e) (replay ss (entry_table e) es)"
  by (simp add: replay_snoc replay_step_def)

lemma replay_table_ok:
  assumes "schema_get ss tbl = Some s"
  shows "list_all (entry_ok ss) es \<Longrightarrow> table_ok s (replay ss tbl es)"
proof (induction es rule: rev_induct)
  case (snoc e es)
  then have "entry_ok ss e" "table_ok s (replay ss tbl es)" by auto
  then show ?case
    using assms by (auto simp: replay_snoc replay_step_def elim!: entry_okE intro: table_ok_patch)
qed simp

lemma state_at_replay:
  "state_at log tbl seq = map_option (\<lambda>_. replay (schemas log) tbl (take (unat seq) (entries log)))
    (schema_get (schemas log) tbl)"
  by (cases "schema_get (schemas log) tbl") (simp_all add: state_at_def replay_def)

lemma states_of_snoc: "states_of ss (es @ [e]) = rebuild_entry ss e (states_of ss es)"
  by (simp add: states_of_def)

lemma states_of_ok: "bt_ok (states_of ss es)"
  by (induction es rule: rev_induct)
    (auto simp: states_of_snoc rebuild_entry_def patch_states_def states_of_def split: option.splits)

lemma replay_untouched: "tbl \<notin> entry_table ` set es \<Longrightarrow> replay ss tbl es = table_new"
  by (induction es rule: rev_induct) (auto simp: replay_snoc_other)

text \<open>A table has a materialized state exactly when some entry touched it, and it is the replay.\<close>

lemma states_of_get:
  "bt_get (states_of ss es) tbl =
    (if schema_get ss tbl \<noteq> None \<and> tbl \<in> entry_table ` set es then Some (replay ss tbl es) else None)"
proof (induction es rule: rev_induct)
  case Nil
  then show ?case by (simp add: states_of_def)
next
  case (snoc e es)
  note absent = replay_untouched [of tbl es ss]
  show ?case
  proof (cases "schema_get ss (entry_table e)")
    case None
    then show ?thesis
      using snoc by (cases "entry_table e = tbl") (auto simp: states_of_snoc rebuild_entry_def replay_snoc_other)
  next
    case (Some s)
    then show ?thesis
      using snoc states_of_ok [of ss es] absent
      by (auto simp: states_of_snoc rebuild_entry_def patch_states_def replay_snoc_other replay_snoc_same)
  qed
qed

lemma states_of_lookup:
  assumes "schema_get ss tbl = Some s"
  shows "Option.bind (bt_get (states_of ss es) tbl) (\<lambda>t. table_get t k) = table_get (replay ss tbl es) k"
proof -
  have "table_get table_new k = None"
    by (simp add: table_get_def table_new_def)
  then show ?thesis
    using assms replay_untouched [of tbl es ss] by (auto simp: states_of_get)
qed

section \<open>Appending\<close>

text \<open>The invariants of Rust's types on the values inside a change: chars are scalar values.\<close>

fun change_wf :: "change \<Rightarrow> bool" where
  "change_wf (Insert r) \<longleftrightarrow> list_all value_ok (row_values r)"
| "change_wf (Update r) \<longleftrightarrow> list_all value_ok (row_values r)"
| "change_wf (Remove k) \<longleftrightarrow> value_ok k"

lemma validate_iff: "change_wf c \<Longrightarrow> validate tbl s c = Inr () \<longleftrightarrow> change_ok s c"
  by (cases c) (auto simp: validate_def change_ok_def row_ok_iff typed_def Let_def split: option.splits)

text \<open>Validation is the only source of refusals: the defensive errors after it are unreachable.\<close>

lemma prepare_ok:
  assumes "log_inv log" "schema_get (schemas log) tbl = Some s" "change_ok s c" "change_wf c" "str_ok tbl"
  obtains i where "prepare log tbl c = Inr (s, \<lparr>entry_table = tbl, entry_change = c, entry_inverse = i\<rparr>)"
    "entry_ok (schemas log) \<lparr>entry_table = tbl, entry_change = c, entry_inverse = i\<rparr>"
    "inverse_ok (schemas log) (entries log) \<lparr>entry_table = tbl, entry_change = c, entry_inverse = i\<rparr>"
proof -
  let ?ss = "schemas log" and ?es = "entries log"
  obtain k where k: "change_key_bytes s c = Some k"
    using assms(3) by (rule change_ok_key)
  have "table_ok s (replay ?ss tbl ?es)"
    using assms(1,2) by (auto simp: log_inv_def intro: replay_table_ok history_ok_entry_ok)
  then obtain i where i: "invert s c (table_get (replay ?ss tbl ?es) k) = Some i" "change_ok s i"
    using invert_ok assms(3) k by metis
  let ?e = "\<lparr>entry_table = tbl, entry_change = c, entry_inverse = i\<rparr>"
  have e: "entry_ok ?ss ?e"
    using assms i by (simp add: entry_ok_def)
  moreover have "inverse_ok ?ss ?es ?e"
    using assms(2) i k by (simp add: inverse_ok_def)
  moreover have "prepare log tbl c = Inr (s, ?e)"
    using assms(1,2) i k validate_iff [OF assms(4), of tbl s] assms(3) enc_entry_payload_ok [OF e]
    by (simp add: prepare_def log_inv_def states_of_lookup)
  ultimately show thesis using that by blast
qed

lemma log_inv_snoc:
  assumes "log_inv log" "entry_ok (schemas log) e" "inverse_ok (schemas log) (entries log) e"
    and "schema_get (schemas log) (entry_table e) = Some s"
  shows "log_inv (log\<lparr>backend := b, states := patch_states s (entry_table e) (entry_change e) (states log),
    entries := entries log @ [e]\<rparr>)"
  using assms by (simp add: log_inv_def history_ok_append states_of_snoc rebuild_entry_def)

lemma log_inv_backend: "log_inv log \<Longrightarrow> log_inv (log\<lparr>backend := b\<rparr>)"
  by (simp add: log_inv_def)

definition journal_of :: "schema_set \<Rightarrow> delta_entry list \<Rightarrow> bytes" where
  "journal_of ss es = concat (map (record_bytes ss) es)"

lemma journal_of_simps [simp]:
  "journal_of ss [] = []"
  "journal_of ss (e # es) = record_bytes ss e @ journal_of ss es"
  "journal_of ss (xs @ ys) = journal_of ss xs @ journal_of ss ys"
  by (simp_all add: journal_of_def)

context append_backend begin

lemma append_ok:
  assumes "log_inv log" "ready (backend log)" "schema_get (schemas log) tbl = Some s"
    and "change_ok s c" "change_wf c" "str_ok tbl"
  obtains i log' where
    "log_append ops tbl c log = (Inr (word_of_nat (length (entries log))), log')"
    "log_inv log'" "ready (backend log')" "schemas log' = schemas log"
    "entries log' = entries log @ [\<lparr>entry_table = tbl, entry_change = c, entry_inverse = i\<rparr>]"
    "journal (backend log') = journal (backend log) @
       record_bytes (schemas log) \<lparr>entry_table = tbl, entry_change = c, entry_inverse = i\<rparr>"
proof -
  obtain i where i: "prepare log tbl c = Inr (s, \<lparr>entry_table = tbl, entry_change = c, entry_inverse = i\<rparr>)"
    and e: "entry_ok (schemas log) \<lparr>entry_table = tbl, entry_change = c, entry_inverse = i\<rparr>"
      "inverse_ok (schemas log) (entries log) \<lparr>entry_table = tbl, entry_change = c, entry_inverse = i\<rparr>"
    using prepare_ok [OF assms(1,3,4,5,6)] by metis
  let ?e = "\<lparr>entry_table = tbl, entry_change = c, entry_inverse = i\<rparr>"
  obtain b where b: "be_append ops (record_bytes (schemas log) ?e) (backend log) = (Inr (), b)"
    "journal b = journal (backend log) @ record_bytes (schemas log) ?e" "ready b"
    using append [OF assms(2)] by blast
  have "log_inv (log\<lparr>backend := b, states := patch_states s tbl c (states log),
      entries := entries log @ [?e]\<rparr>)"
    using log_inv_snoc [OF assms(1) e] assms(3) by simp
  with i b show thesis
    using that by (simp add: log_append_def)
qed

end

section \<open>Rewinding\<close>

lemma inverse_wf: "change_ok s c \<Longrightarrow> change_wf c"
  by (cases c) (auto simp: change_ok_def row_ok_iff typed_def split: option.splits)

text \<open>A change a log with schemas \<open>ss\<close> accepts.\<close>

definition acceptable :: "schema_set \<Rightarrow> rstr \<times> change \<Rightarrow> bool" where
  "acceptable ss = (\<lambda>(tbl, c). str_ok tbl \<and> (case schema_get ss tbl of None \<Rightarrow> False | Some s \<Rightarrow> change_ok s c))"

lemma inverse_okE:
  assumes "inverse_ok ss pre e" "schema_get ss (entry_table e) = Some s"
  obtains k where "change_key_bytes s (entry_change e) = Some k"
    "invert s (entry_change e) (table_get (replay ss (entry_table e) pre) k) = Some (entry_inverse e)"
  using assms by (auto simp: inverse_ok_def bind_eq_Some_conv)

text \<open>Compensating the last entry of a history gives back the replay before it.\<close>

lemma replay_compensate:
  assumes "list_all (entry_ok ss) pre" "entry_ok ss e" "inverse_ok ss pre e"
    and "\<And>tbl. replay ss tbl es = replay ss tbl (pre @ [e])"
    and "entry_table c = entry_table e" "entry_change c = entry_inverse e"
  shows "replay ss tbl (es @ [c]) = replay ss tbl pre"
proof (cases "tbl = entry_table e")
  case True
  obtain s where s: "schema_get ss (entry_table e) = Some s" "change_ok s (entry_change e)"
    using assms(2) by (rule entry_okE)
  obtain k where "change_key_bytes s (entry_change e) = Some k"
    "invert s (entry_change e) (table_get (replay ss (entry_table e) pre) k) = Some (entry_inverse e)"
    using assms(3) s(1) by (rule inverse_okE)
  then have "patch s (entry_inverse e) (patch s (entry_change e) (replay ss (entry_table e) pre))
      = replay ss (entry_table e) pre"
    using s assms(1) by (intro patch_invert replay_table_ok)
  then show ?thesis
    using True s assms(4,5,6) replay_snoc_same [of ss c s es] replay_snoc_same [of ss e s pre] by simp
next
  case False
  then show ?thesis
    using assms(4,5) by (simp add: replay_snoc_other)
qed

context append_backend begin

text \<open>A sequence of appends of acceptable changes: every one succeeds and extends the journal.\<close>

lemma append_each_ok:
  assumes "log_inv log" "ready (backend log)" "list_all (acceptable (schemas log)) cs"
  shows "\<exists>log' es. append_each ops cs log = (Inr (), log') \<and> log_inv log' \<and> ready (backend log') \<and>
    schemas log' = schemas log \<and> entries log' = entries log @ es \<and>
    map (\<lambda>e. (entry_table e, entry_change e)) es = cs \<and>
    journal (backend log') = journal (backend log) @ journal_of (schemas log) es"
  using assms
proof (induction cs arbitrary: log)
  case Nil
  then show ?case by simp
next
  case (Cons x cs)
  obtain tbl c where x: "x = (tbl, c)" by (cases x)
  obtain s where s: "schema_get (schemas log) tbl = Some s" "change_ok s c" "str_ok tbl"
    using Cons.prems(3) by (auto simp: x acceptable_def split: option.splits)
  obtain i log' where log':
    "log_append ops tbl c log = (Inr (word_of_nat (length (entries log))), log')"
    "log_inv log'" "ready (backend log')" "schemas log' = schemas log"
    "entries log' = entries log @ [\<lparr>entry_table = tbl, entry_change = c, entry_inverse = i\<rparr>]"
    "journal (backend log') = journal (backend log) @
       record_bytes (schemas log) \<lparr>entry_table = tbl, entry_change = c, entry_inverse = i\<rparr>"
    by (rule append_ok [OF Cons.prems(1,2) s(1,2) inverse_wf [OF s(2)] s(3)])
  have "list_all (acceptable (schemas log')) cs"
    using Cons.prems(3) log'(4) by simp
  then obtain log'' es where r: "append_each ops cs log' = (Inr (), log'')" "log_inv log''" "ready (backend log'')"
    "schemas log'' = schemas log'" "entries log'' = entries log' @ es"
    "map (\<lambda>e. (entry_table e, entry_change e)) es = cs"
    "journal (backend log'') = journal (backend log') @ journal_of (schemas log') es"
    using Cons.IH [OF log'(2,3)] by (elim exE conjE meta_impE) auto
  show ?case
    by (intro exI [of _ log''] exI [of _ "\<lparr>entry_table = tbl, entry_change = c, entry_inverse = i\<rparr> # es"])
      (simp add: x log' r)
qed

lemma compensate_ok:
  assumes "log_inv log" "ready (backend log)"
    and "entries log = pre @ suf @ rest"
    and "\<And>tbl. replay (schemas log) tbl (entries log) = replay (schemas log) tbl (pre @ suf)"
  shows "\<exists>log' comp. append_each ops (map (\<lambda>e. (entry_table e, entry_inverse e)) (rev suf)) log = (Inr (), log') \<and>
    log_inv log' \<and> ready (backend log') \<and> schemas log' = schemas log \<and>
    entries log' = entries log @ comp \<and>
    map (\<lambda>e. (entry_table e, entry_change e)) comp = map (\<lambda>e. (entry_table e, entry_inverse e)) (rev suf) \<and>
    journal (backend log') = journal (backend log) @ journal_of (schemas log) comp \<and>
    (\<forall>tbl. replay (schemas log) tbl (entries log') = replay (schemas log) tbl pre)"
  using assms
proof (induction suf arbitrary: log rest rule: rev_induct)
  case Nil
  then show ?case by simp
next
  case (snoc e suf)
  let ?ss = "schemas log"
  have hist: "history_ok ?ss [] (pre @ suf @ [e] @ rest)"
    using snoc.prems(1,3) by (simp add: log_inv_def)
  then have e: "entry_ok ?ss e" "inverse_ok ?ss (pre @ suf) e"
    and pre: "list_all (entry_ok ?ss) (pre @ suf)"
    using history_ok_entry_ok [OF hist] by (simp_all add: history_ok_append)
  obtain s where s: "schema_get ?ss (entry_table e) = Some s" "str_ok (entry_table e)"
      "change_ok s (entry_inverse e)"
    using e(1) by (rule entry_okE)
  obtain i log' where log':
    "log_append ops (entry_table e) (entry_inverse e) log = (Inr (word_of_nat (length (entries log))), log')"
    "log_inv log'" "ready (backend log')" "schemas log' = ?ss"
    "entries log' = entries log @ [\<lparr>entry_table = entry_table e, entry_change = entry_inverse e, entry_inverse = i\<rparr>]"
    "journal (backend log') = journal (backend log) @ record_bytes ?ss
       \<lparr>entry_table = entry_table e, entry_change = entry_inverse e, entry_inverse = i\<rparr>"
    by (rule append_ok [OF snoc.prems(1,2) s(1,3) inverse_wf [OF s(3)] s(2)]) blast
  let ?c = "\<lparr>entry_table = entry_table e, entry_change = entry_inverse e, entry_inverse = i\<rparr>"
  have undone: "replay ?ss tbl (entries log') = replay ?ss tbl (pre @ suf)" for tbl
    unfolding log'(5) using pre e snoc.prems(4) by (intro replay_compensate [where e = e]) auto
  have es: "entries log' = pre @ suf @ ([e] @ rest @ [?c])"
    using snoc.prems(3) log'(5) by simp
  have "\<exists>log'' comp. append_each ops (map (\<lambda>e. (entry_table e, entry_inverse e)) (rev suf)) log' = (Inr (), log'') \<and>
    log_inv log'' \<and> ready (backend log'') \<and> schemas log'' = ?ss \<and>
    entries log'' = entries log' @ comp \<and>
    map (\<lambda>e. (entry_table e, entry_change e)) comp = map (\<lambda>e. (entry_table e, entry_inverse e)) (rev suf) \<and>
    journal (backend log'') = journal (backend log') @ journal_of ?ss comp \<and>
    (\<forall>tbl. replay ?ss tbl (entries log'') = replay ?ss tbl pre)"
    using snoc.IH [OF log'(2,3) es] undone unfolding log'(4) .
  then obtain log'' comp where r: "append_each ops (map (\<lambda>e. (entry_table e, entry_inverse e)) (rev suf)) log' = (Inr (), log'')"
    "log_inv log''" "ready (backend log'')" "schemas log'' = ?ss" "entries log'' = entries log' @ comp"
    "map (\<lambda>e. (entry_table e, entry_change e)) comp = map (\<lambda>e. (entry_table e, entry_inverse e)) (rev suf)"
    "journal (backend log'') = journal (backend log') @ journal_of ?ss comp"
    "\<forall>tbl. replay ?ss tbl (entries log'') = replay ?ss tbl pre"
    by (elim exE conjE)
  show ?case
    by (intro exI [of _ log''] exI [of _ "?c # comp"]) (use r(8) in \<open>simp add: log'(1,5,6) r(1-7)\<close>)
qed

lemma rewind_ok:
  assumes "log_inv log" "ready (backend log)"
  shows "\<exists>log' comp. rewind_to ops seq log = (Inr (), log') \<and> log_inv log' \<and> ready (backend log') \<and>
    schemas log' = schemas log \<and> entries log' = entries log @ comp \<and>
    map (\<lambda>e. (entry_table e, entry_change e)) comp =
      map (\<lambda>e. (entry_table e, entry_inverse e)) (rev (drop (unat seq) (entries log))) \<and>
    journal (backend log') = journal (backend log) @ journal_of (schemas log) comp \<and>
    (\<forall>tbl. replay (schemas log) tbl (entries log') = replay (schemas log) tbl (take (unat seq) (entries log)))"
proof -
  have "drop (min (unat seq) (length (entries log))) (entries log) = drop (unat seq) (entries log)"
    by (cases "unat seq \<le> length (entries log)") simp_all
  then show ?thesis
    using compensate_ok [OF assms, of "take (unat seq) (entries log)" "drop (unat seq) (entries log)" "[]"]
    by (simp add: rewind_to_def)
qed

end

section \<open>Recovery\<close>

text \<open>The entries whose records are complete in the first \<open>n\<close> bytes of their journal.\<close>

fun complete_records :: "schema_set \<Rightarrow> nat \<Rightarrow> delta_entry list \<Rightarrow> delta_entry list" where
  "complete_records ss n [] = []"
| "complete_records ss n (e # es) =
     (if length (record_bytes ss e) \<le> n
      then e # complete_records ss (n - length (record_bytes ss e)) es else [])"

lemma complete_records_prefix: "\<exists>rest. es = complete_records ss n es @ rest"
  by (induction es arbitrary: n) auto

lemma complete_records_all: "length (journal_of ss es) \<le> n \<Longrightarrow> complete_records ss n es = es"
  by (induction es arbitrary: n) auto

definition torn_tail :: "schema_set \<Rightarrow> delta_entry list \<Rightarrow> bytes \<Rightarrow> bool" where
  "torn_tail ss es tail \<longleftrightarrow> tail = [] \<or> (\<exists>e \<in> set es. strict_prefix tail (record_bytes ss e))"

lemma take_journal:
  "\<exists>tail. take n (journal_of ss es) = journal_of ss (complete_records ss n es) @ tail \<and> torn_tail ss es tail"
proof (induction es arbitrary: n)
  case Nil
  then show ?case by (simp add: torn_tail_def)
next
  case (Cons e es)
  show ?case
  proof (cases "length (record_bytes ss e) \<le> n")
    case True
    then show ?thesis
      using Cons [of "n - length (record_bytes ss e)"] by (auto simp: torn_tail_def)
  next
    case False
    then have "strict_prefix (take n (record_bytes ss e)) (record_bytes ss e)"
      by (auto simp: strict_prefix_def take_is_prefix dest: arg_cong [where f = length])
    then show ?thesis
      using False by (auto simp: torn_tail_def)
  qed
qed

lemma scan_entries:
  assumes "list_all (entry_ok ss) es" "list_all (entry_fits ss) es"
    and "bs = pre @ journal_of ss es @ tail"
  shows "scan_loop ops ss bs (length pre) acc b =
    scan_loop ops ss bs (length (pre @ journal_of ss es)) (acc @ es) b"
  using assms
proof (induction es arbitrary: pre acc)
  case (Cons e es)
  let ?r = "record_bytes ss e"
  have "drop (length pre) bs = ?r @ journal_of ss es @ tail" "length pre < length bs"
    using Cons.prems(3) by simp_all
  then have "scan_loop ops ss bs (length pre) acc b = scan_loop ops ss bs (length (pre @ ?r)) (acc @ [e]) b"
    using Cons.prems(1,2)
    by (subst scan_loop.simps) (simp add: scan_record dec_enc_entry_payload)
  also have "\<dots> = scan_loop ops ss bs (length ((pre @ ?r) @ journal_of ss es)) ((acc @ [e]) @ es) b"
    using Cons.prems by (intro Cons.IH) auto
  finally show ?case by simp
qed simp

lemma scan_torn:
  assumes "list_all (entry_fits ss) es" "torn_tail ss es tail" "tail \<noteq> []"
  shows "dec_envelope_prefix tail = Inl Torn"
  using assms by (auto simp: torn_tail_def list_all_iff intro: scan_torn_record)

text \<open>A scan only adds entries to those it has.\<close>

lemma scan_extends:
  "scan_loop ops ss bs offset es b = Inr (es', b') \<Longrightarrow> \<exists>new. es' = es @ new"
proof (induction ops ss bs offset es b rule: scan_loop.induct)
  case (1 ops ss bs offset es b)
  show ?case
    using 1(2) 1(1)
    by (subst (asm) scan_loop.simps)
      (fastforce split: if_splits sum.splits dec_fail.splits option.splits prod.splits)
qed

text \<open>A scan that ends at the entries it has, with bytes left, ended at a torn record.\<close>

lemma scan_stops_torn:
  assumes "scan_loop ops ss bs offset es b = Inr (es, b')" "offset < length bs"
  shows "dec_envelope_prefix (drop offset bs) = Inl Torn"
proof (rule ccontr)
  assume "dec_envelope_prefix (drop offset bs) \<noteq> Inl Torn"
  then obtain e k where "scan_loop ops ss bs k (es @ [e]) b = Inr (es, b')"
    using assms by (subst (asm) scan_loop.simps)
      (auto split: if_splits sum.splits dec_fail.splits option.splits)
  then show False using scan_extends by fastforce
qed

context append_backend begin

text \<open>Opening what a crash left: the complete records and a torn tail, which is cut off.\<close>

lemma open_cut:
  assumes "live b" "journal b = journal_of ss es @ tail" "dec_envelope_prefix tail = Inl Torn" "tail \<noteq> []"
    and "list_all (entry_ok ss) es" "list_all (entry_fits ss) es"
    and "length (journal b) < 2 ^ 63"
  obtains b1 where "ready b1" "journal b1 = journal b"
    "open_with ops b ss = Inr \<lparr>backend = snd (be_truncate ops (word_of_nat (length (journal_of ss es))) b1),
       schemas = ss, entries = es, states = states_of ss es\<rparr>"
proof -
  obtain b1 where b1: "be_load ops b = (Inr (journal b), b1)" "journal b1 = journal b" "ready b1"
    using load [OF assms(1)] by blast
  let ?n = "word_of_nat (length (journal_of ss es)) :: u64"
  have "unat ?n = length (journal_of ss es)"
    using assms(2,7) by (intro word_of_nat_unat_small) simp
  then obtain b2 where b2: "be_truncate ops ?n b1 = (Inr (), b2)"
    using truncate [of b1 ?n] ready_live [OF b1(3)] b1(2) assms(2) by auto
  have "scan_loop ops ss (journal b) 0 [] b1 =
      scan_loop ops ss (journal b) (length (journal_of ss es)) es b1"
    using scan_entries [of ss es "journal b" "[]" tail ops "[]" b1] assms(2,5,6) by simp
  also have "\<dots> = Inr (es, b2)"
    using assms(3,4) b2
    by (subst scan_loop.simps) (simp add: assms(2))
  finally show thesis
    using that [of b1] b1 b2 by (simp add: open_with_def rebuild_states_def states_of_def)
qed

lemma open_torn:
  assumes "live b" "journal b = journal_of ss es @ tail" "torn_tail ss es' tail" "tail \<noteq> []"
    and "list_all (entry_ok ss) es" "list_all (entry_fits ss) es" "list_all (entry_fits ss) es'"
    and "length (journal b) < 2 ^ 63"
  obtains b1 where "ready b1" "journal b1 = journal b"
    "open_with ops b ss = Inr \<lparr>backend = snd (be_truncate ops (word_of_nat (length (journal_of ss es))) b1),
       schemas = ss, entries = es, states = states_of ss es\<rparr>"
  using open_cut [OF assms(1,2) scan_torn [OF assms(7,3,4)] assms(4-6,8)] that by blast

lemma open_clean:
  assumes "live b" "journal b = journal_of ss es"
    and "list_all (entry_ok ss) es" "list_all (entry_fits ss) es"
  obtains b1 where "ready b1" "journal b1 = journal b"
    "open_with ops b ss = Inr \<lparr>backend = b1, schemas = ss, entries = es, states = states_of ss es\<rparr>"
proof -
  obtain b1 where b1: "be_load ops b = (Inr (journal b), b1)" "journal b1 = journal b" "ready b1"
    using load [OF assms(1)] by blast
  have "scan_loop ops ss (journal b) 0 [] b1 =
      scan_loop ops ss (journal b) (length (journal_of ss es)) es b1"
    using scan_entries [of ss es "journal b" "[]" "[]" ops "[]" b1] assms(2-4) by simp
  also have "\<dots> = Inr (es, b1)"
    by (subst scan_loop.simps) (simp add: assms(2))
  finally show thesis
    using that [of b1] b1 by (simp add: open_with_def rebuild_states_def states_of_def)
qed

lemma open_ok:
  assumes "live b" "journal b = journal_of ss es @ tail" "torn_tail ss es' tail"
    and "list_all (entry_ok ss) es" "list_all (entry_fits ss) es" "list_all (entry_fits ss) es'"
    and "length (journal b) < 2 ^ 63"
  obtains b' where "open_with ops b ss = Inr \<lparr>backend = b', schemas = ss, entries = es, states = states_of ss es\<rparr>"
    "journal b' = journal_of ss es" "live b'"
proof (cases "tail = []")
  case True
  then show thesis
    using open_clean [of b ss es] assms(1,2,4,5) ready_live that by (metis append_Nil2)
next
  case False
  let ?n = "word_of_nat (length (journal_of ss es)) :: u64"
  obtain b1 where b1: "ready b1" "journal b1 = journal b"
    "open_with ops b ss = Inr \<lparr>backend = snd (be_truncate ops ?n b1), schemas = ss, entries = es,
       states = states_of ss es\<rparr>"
    by (rule open_torn [OF assms(1-3) False assms(4-7)])
  have "unat ?n = length (journal_of ss es)"
    using assms(2,7) by (intro word_of_nat_unat_small) simp
  then have "journal (snd (be_truncate ops ?n b1)) = journal_of ss es \<and> live (snd (be_truncate ops ?n b1))"
    using truncate [of b1 ?n] ready_live [OF b1(1)] b1(2) assms(2) by auto
  then show thesis using that b1(3) by blast
qed

text \<open>A crash that leaves the first \<open>n\<close> bytes of a log's journal.\<close>

lemma crash_ok:
  assumes "live b" "journal b = take n (journal_of ss es)" "history_ok ss [] es" "list_all (entry_fits ss) es"
    and "length (journal_of ss es) < 2 ^ 63"
  shows "\<exists>log. open_with ops b ss = Inr log \<and> log_inv log \<and> schemas log = ss \<and>
    entries log = complete_records ss n es \<and>
    journal (backend log) = journal_of ss (complete_records ss n es) \<and> live (backend log)"
proof -
  obtain tail where tail: "take n (journal_of ss es) = journal_of ss (complete_records ss n es) @ tail"
      "torn_tail ss es tail"
    using take_journal by blast
  obtain rest where rest: "es = complete_records ss n es @ rest"
    using complete_records_prefix by blast
  then have hist: "history_ok ss [] (complete_records ss n es)"
    using assms(3) history_ok_append by metis
  have fits: "list_all (entry_fits ss) (complete_records ss n es)"
    using assms(4) rest by (metis list_all_append)
  have len: "length (journal b) < 2 ^ 63"
    using assms(2,5) by simp
  obtain b' where "open_with ops b ss = Inr \<lparr>backend = b', schemas = ss, entries = complete_records ss n es,
      states = states_of ss (complete_records ss n es)\<rparr>"
      "journal b' = journal_of ss (complete_records ss n es)" "live b'"
    using open_ok [OF assms(1) _ tail(2) history_ok_entry_ok [OF hist] fits assms(4) len] assms(2) tail(1)
    by metis
  then show ?thesis
    using hist by (simp add: log_inv_def)
qed

end

text \<open>On a backend that is ready again after a truncation, so is every opened log.\<close>

context truncating_backend begin

lemma crash_ready:
  assumes "live b" "journal b = take n (journal_of ss es)" "history_ok ss [] es" "list_all (entry_fits ss) es"
    and "length (journal_of ss es) < 2 ^ 63"
  shows "\<exists>log. open_with ops b ss = Inr log \<and> log_inv log \<and> schemas log = ss \<and>
    entries log = complete_records ss n es \<and>
    journal (backend log) = journal_of ss (complete_records ss n es) \<and> ready (backend log)"
proof -
  obtain log where log: "open_with ops b ss = Inr log" "log_inv log" "schemas log = ss"
      "entries log = complete_records ss n es"
      "journal (backend log) = journal_of ss (complete_records ss n es)"
    using crash_ok [OF assms] by blast
  obtain tail where tail: "journal b = journal_of ss (complete_records ss n es) @ tail"
      "torn_tail ss es tail"
    using take_journal assms(2) by metis
  have ok: "list_all (entry_ok ss) (complete_records ss n es)"
      "list_all (entry_fits ss) (complete_records ss n es)"
    using complete_records_prefix [of es ss n] history_ok_entry_ok [OF assms(3)] assms(4)
    by (metis list_all_append)+
  have len: "length (journal b) < 2 ^ 63"
    using assms(2,5) by simp
  have "ready (backend log)"
  proof (cases "tail = []")
    case True
    then show ?thesis
      using open_clean [OF assms(1) _ ok] tail(1) log(1) by fastforce
  next
    case False
    let ?j = "journal_of ss (complete_records ss n es)"
    have "unat (word_of_nat (length ?j) :: u64) = length ?j"
      using len tail(1) by (intro word_of_nat_unat_small) simp
    then show ?thesis
      using open_torn [OF assms(1) tail False ok assms(4) len] truncate_ready tail(1) log(1) by fastforce
  qed
  with log show ?thesis by blast
qed

end

text \<open>A record cannot start with a zero byte: that is version zero.\<close>

lemma dec_envelope_zero: "dec_envelope_prefix (0 # bs) = Inr env \<Longrightarrow> env_version env = 0"
  by (auto simp: dec_envelope_prefix_def dec_varnat_eq varnat_spec_def VARNAT_MAX_BYTES_def and_then_eq_Inr Let_def)

lemma scan_hole:
  assumes "list_all (entry_ok ss) es" "list_all (entry_fits ss) es"
    and "scan_loop ops ss (journal_of ss es @ 0 # rest) 0 [] b = Inr (es', b')"
  shows "es' = es"
proof -
  let ?bs = "journal_of ss es @ 0 # rest"
  have "scan_loop ops ss ?bs (length (journal_of ss es)) es b = Inr (es', b')"
    using scan_entries [of ss es ?bs "[]" "0 # rest" ops "[]" b] assms by simp
  then show ?thesis
    by (subst (asm) scan_loop.simps)
      (auto simp: VERSION_def dest!: dec_envelope_zero split: sum.splits dec_fail.splits prod.splits if_splits)
qed

section \<open>Every operation keeps the invariant\<close>

lemma log_append_cases:
  assumes "log_inv log" "change_wf c" "str_ok tbl"
  shows "case schema_get (schemas log) tbl of
      None \<Rightarrow> log_append ops tbl c log = (Inl (UnknownTable tbl), log)
    | Some s \<Rightarrow> (case validate tbl s c of
        Inl e \<Rightarrow> log_append ops tbl c log = (Inl e, log)
      | Inr _ \<Rightarrow> \<exists>i. let e = \<lparr>entry_table = tbl, entry_change = c, entry_inverse = i\<rparr> in
          inverse_ok (schemas log) (entries log) e \<and>
          log_append ops tbl c log = (case be_append ops (record_bytes (schemas log) e) (backend log) of
              (Inl err, b) \<Rightarrow> (Inl err, log\<lparr>backend := b\<rparr>)
            | (Inr _, b) \<Rightarrow> (Inr (word_of_nat (length (entries log))),
                log\<lparr>backend := b, states := patch_states s tbl c (states log), entries := entries log @ [e]\<rparr>)))"
proof (cases "schema_get (schemas log) tbl")
  case None
  then show ?thesis by (simp add: log_append_def prepare_def)
next
  case (Some s)
  show ?thesis
  proof (cases "validate tbl s c")
    case (Inl e)
    with Some show ?thesis by (simp add: log_append_def prepare_def)
  next
    case (Inr u)
    then have "change_ok s c" using validate_iff [OF assms(2)] by auto
    then obtain i where "prepare log tbl c = Inr (s, \<lparr>entry_table = tbl, entry_change = c, entry_inverse = i\<rparr>)"
        "inverse_ok (schemas log) (entries log) \<lparr>entry_table = tbl, entry_change = c, entry_inverse = i\<rparr>"
      using prepare_ok [OF assms(1) Some _ assms(2,3)] by metis
    then show ?thesis
      using Some Inr by (auto simp: log_append_def Let_def intro!: exI [of _ i] split: prod.splits sum.splits)
  qed
qed

lemma log_append_inv:
  assumes "log_inv log" "change_wf c" "str_ok tbl"
  shows "log_inv (snd (log_append ops tbl c log)) \<and> schemas (snd (log_append ops tbl c log)) = schemas log"
proof (cases "prepare log tbl c")
  case (Inl e)
  then show ?thesis using assms(1) by (simp add: log_append_def)
next
  case (Inr se)
  then obtain s where s: "schema_get (schemas log) tbl = Some s" "validate tbl s c = Inr ()"
    by (auto simp: prepare_def and_then_eq_Inr)
  then have "change_ok s c" using validate_iff [OF assms(2)] by auto
  then obtain i where "prepare log tbl c = Inr (s, \<lparr>entry_table = tbl, entry_change = c, entry_inverse = i\<rparr>)"
      "entry_ok (schemas log) \<lparr>entry_table = tbl, entry_change = c, entry_inverse = i\<rparr>"
      "inverse_ok (schemas log) (entries log) \<lparr>entry_table = tbl, entry_change = c, entry_inverse = i\<rparr>"
    using prepare_ok [OF assms(1) s(1) _ assms(2,3)] by metis
  then show ?thesis
    using log_inv_snoc [OF assms(1), of "\<lparr>entry_table = tbl, entry_change = c, entry_inverse = i\<rparr>" s] s(1)
      log_inv_backend [OF assms(1)]
    by (auto simp: log_append_def split: prod.splits sum.splits)
qed

lemma append_each_inv:
  "log_inv log \<Longrightarrow> list_all (\<lambda>(tbl, c). change_wf c \<and> str_ok tbl) cs \<Longrightarrow>
   log_inv (snd (append_each ops cs log)) \<and> schemas (snd (append_each ops cs log)) = schemas log"
proof (induction cs arbitrary: log)
  case (Cons tc cs)
  obtain tbl c where tc: "tc = (tbl, c)" by force
  obtain r log' where r: "log_append ops tbl c log = (r, log')" by force
  then have "log_inv log'" "schemas log' = schemas log"
    using log_append_inv [OF Cons.prems(1), of c tbl ops] Cons.prems(2) tc by simp_all
  then show ?case
    using Cons.IH [of log'] Cons.prems(2) tc r by (simp split: sum.splits)
qed simp

lemma rewind_inv:
  assumes "log_inv log"
  shows "log_inv (snd (rewind_to ops seq log)) \<and> schemas (snd (rewind_to ops seq log)) = schemas log"
proof -
  have "change_wf (entry_inverse e) \<and> str_ok (entry_table e)" if "e \<in> set (entries log)" for e
    using that history_ok_entry_ok assms
    by (fastforce simp: log_inv_def list_all_iff elim: entry_okE intro: inverse_wf)
  then show ?thesis
    unfolding rewind_to_def Let_def using assms
    by (intro append_each_inv) (auto simp: list_all_iff dest!: in_set_dropD)
qed

text \<open>
  The logs a program can reach from an empty journal, over any backend: open, then
  append and rewind in any order, with failures of the backend at any point.
\<close>

inductive reachable :: "'b backend_ops \<Rightarrow> schema_set \<Rightarrow> 'b delta_log \<Rightarrow> bool" for ops ss where
  opened: "fst (be_load ops b) = Inr [] \<Longrightarrow> open_with ops b ss = Inr log \<Longrightarrow> reachable ops ss log"
| appended: "reachable ops ss log \<Longrightarrow> change_wf c \<Longrightarrow> str_ok tbl \<Longrightarrow>
    reachable ops ss (snd (log_append ops tbl c log))"
| rewound: "reachable ops ss log \<Longrightarrow> reachable ops ss (snd (rewind_to ops seq log))"

lemma reachable_inv: "reachable ops ss log \<Longrightarrow> log_inv log \<and> schemas log = ss"
proof (induction rule: reachable.induct)
  case (opened b log)
  then show ?case
    by (cases "be_load ops b")
      (auto simp: open_with_def scan_loop.simps rebuild_states_def log_inv_def states_of_def)
next
  case (appended log c tbl)
  then show ?case using log_append_inv by metis
next
  case (rewound log seq)
  then show ?case using rewind_inv by metis
qed

section \<open>Opening arbitrary bytes\<close>

definition keyed :: "schema_set \<Rightarrow> bool" where
  "keyed ss \<longleftrightarrow> list_all (\<lambda>(_, s). schema_key s \<noteq> None) (tables ss)"

lemma keyed_get: "keyed ss \<Longrightarrow> schema_get ss tbl = Some s \<Longrightarrow> schema_key s \<noteq> None"
  by (auto simp: keyed_def schema_get_def list_all_iff dest!: bt_get_Some_in)

lemma dec_entry_ok:
  assumes "dec_entry_payload ss p = Some e" "length p < 2 ^ 63" "keyed ss"
  shows "entry_ok ss e"
proof -
  from assms(1) obtain tbl u1 s c u2 i u3 where
    d: "dec_string p = Inr (tbl, u1)" "schema_get ss tbl = Some s"
      "dec_change s (drop u1 p) = Inr (c, u2)" "dec_change s (drop (u1 + u2) p) = Inr (i, u3)"
      "e = \<lparr>entry_table = tbl, entry_change = c, entry_inverse = i\<rparr>"
    by (auto simp: dec_entry_payload_def bind_eq_Some_conv split: if_splits)
  have len: "length (drop k p) < 2 ^ 63" for k
    using assms(2) by simp
  obtain v where v: "dec_value TStr p = Inr (v, u1)" "v = VStr tbl"
  proof -
    obtain v u where v: "dec_value TStr p = Inr (v, u)" "(case v of VStr s \<Rightarrow> Inr (s, u) | _ \<Rightarrow> Inl Corrupt) = Inr (tbl, u1)"
      using d(1) by (auto simp: dec_string_def and_then_eq_Inr simp del: dec_value.simps)
    then show thesis using that by (cases v) auto
  qed
  have "str_ok tbl"
    using v(2) dec_value_typed [OF v(1) assms(2)] by (simp add: typed_def)
  then show ?thesis
    using d len keyed_get [OF assms(3) d(2)] dec_change_ok
    by (auto simp: entry_ok_def)
qed

lemma env_payload_len:
  "dec_envelope_prefix bs = Inr env \<Longrightarrow> length (env_payload env) \<le> length bs"
  by (auto simp: dec_envelope_prefix_def dec_bytes_def Let_def and_then_eq_Inr split: if_splits)

lemma scan_sound:
  "scan_loop ops ss bs offset es b = Inr (es', b') \<Longrightarrow> list_all (entry_ok ss) es \<Longrightarrow>
   keyed ss \<Longrightarrow> length bs < 2 ^ 63 \<Longrightarrow> list_all (entry_ok ss) es'"
proof (induction ops ss bs offset es b rule: scan_loop.induct)
  case (1 ops ss bs offset es b)
  show ?case
  proof (cases "offset < length bs \<and> (\<exists>env. dec_envelope_prefix (drop offset bs) = Inr env)")
    case False
    then show ?thesis
      using "1.prems" by (subst (asm) scan_loop.simps)
        (auto split: if_splits sum.splits dec_fail.splits prod.splits)
  next
    case True
    then obtain env where env: "dec_envelope_prefix (drop offset bs) = Inr env" by blast
    with True "1.prems"(1) obtain e where
      e: "dec_entry_payload ss (env_payload env) = Some e" "env_version env = VERSION"
        "env_fingerprint env = fingerprint ss"
        "scan_loop ops ss bs (offset + env_len env) (es @ [e]) b = Inr (es', b')"
      by (subst (asm) scan_loop.simps) (auto split: if_splits option.splits)
    have "length (env_payload env) < 2 ^ 63"
      using env_payload_len [OF env] "1.prems"(4) by simp
    then have "entry_ok ss e" using e(1) "1.prems"(3) by (intro dec_entry_ok)
    then show ?thesis
      using "1.IH" [of env e] True env e "1.prems" by simp
  qed
qed

end
