(* ===== verification/LogTheorems.thy ===== *)
theory LogTheorems
  imports DeltaLog
begin

text \<open>
  The properties of the delta log of \<open>crates/wasm-delta\<close>: what opening, appending,
  rewinding and crashing do to the entries, the states and the journal bytes.
  They rest on the lemmas of \<open>DeltaLog\<close>, taken at the interpretations of the
  backend contract.  A small schema set and history serve as the concrete inputs.
\<close>

section \<open>A concrete log\<close>

text \<open>One table, \<open>t\<close>, keyed by a byte, with a boolean column.\<close>

definition demo_schema :: schema where
  "demo_schema = schema_new [\<lparr>fname = str ''k'', fty = TU8\<rparr>, \<lparr>fname = str ''v'', fty = TBool\<rparr>]"

definition demo_set :: schema_set where
  "demo_set = register (str ''t'') demo_schema schema_set_new"

definition demo_row :: "bool \<Rightarrow> row" where
  "demo_row b = \<lparr>row_values = [VU8 7, VBool b]\<rparr>"

definition demo_history :: "delta_entry list" where
  "demo_history =
    [\<lparr>entry_table = str ''t'', entry_change = Insert (demo_row True), entry_inverse = Remove (VU8 7)\<rparr>,
     \<lparr>entry_table = str ''t'', entry_change = Update (demo_row False), entry_inverse = Update (demo_row True)\<rparr>]"

lemmas demo_defs = demo_schema_def demo_set_def demo_row_def demo_history_def schema_new_def
  schema_set_new_def register_def bt_empty_def str_def

lemma demo_get: "schema_get demo_set (str ''t'') = Some demo_schema"
  by (simp add: demo_defs schema_get_def)

lemma demo_payload:
  "list_all (\<lambda>e. length (fst (enc_entry_payload demo_set e)) < 20) demo_history"
  by (simp add: demo_history_def enc_entry_payload_def demo_get)
    (simp add: demo_defs enc_string_def enc_change_def enc_row_def enc_key_def schema_key_def enc_varnat.simps enc_bool_def)

lemma demo_fits: "list_all (entry_fits demo_set) demo_history"
  using demo_payload by (auto simp: list_all_iff entry_fits_def)

lemma demo_history_ok: "history_ok demo_set [] demo_history"
  by (simp add: demo_history_def entry_ok_def inverse_ok_def demo_get replay_def replay_step_def)
    (simp add: demo_defs change_ok_def schema_key_def row_ok_def typed_def str_ok_def is_scalar_def
      row_key_bytes_def row_key_def enc_key_def invert_def table_get_def table_new_def)

lemma length_record_bytes:
  "length (record_bytes ss e) \<le> 30 + length (fst (enc_entry_payload ss e))"
  using length_enc_varnat_le [of VERSION] length_enc_varnat_le [of "fingerprint ss"]
    length_enc_varnat_le [of "word_of_nat (length (fst (enc_entry_payload ss e)))"]
  by (simp add: record_bytes_def enc_envelope_def enc_bytes_def)

lemma demo_journal_length: "length (journal_of demo_set demo_history) < 100"
proof -
  have "list_all (\<lambda>e. length (record_bytes demo_set e) < 50) demo_history"
    using demo_payload by (auto simp: list_all_iff intro!: le_less_trans [OF length_record_bytes])
  then show ?thesis by (simp add: demo_history_def)
qed

section \<open>Opening and recovery\<close>

lemma open_crashed:
  assumes "history_ok ss [] es" "list_all (entry_fits ss) es" "length (journal_of ss es) < 2 ^ 63"
  shows "\<exists>log. open_file (Some (take n (journal_of ss es))) [] ss = Inr log \<and> log_inv log \<and>
    schemas log = ss \<and> entries log = complete_records ss n es \<and>
    fs_journal (backend log) = journal_of ss (complete_records ss n es)"
proof -
  let ?b = "\<lparr>fhandle = \<lparr>content = take n (journal_of ss es), cursor = 0, pending = []\<rparr>\<rparr>"
  have "fs_live ?b" "fs_journal ?b = take n (journal_of ss es)"
    by (simp_all add: fs_live_def fs_journal_def)
  then obtain log where "open_with fs_ops ?b ss = Inr log" "log_inv log" "schemas log = ss"
      "entries log = complete_records ss n es"
      "fs_journal (backend log) = journal_of ss (complete_records ss n es)"
    using fsbk.crash_ok assms by metis
  then show ?thesis
    by (simp add: open_file_def fs_backend_open_def next_outcome_def)
qed

text \<open>C1: Crash recovery.  Whatever prefix of a log's journal a crash leaves in the
  file, opening the file succeeds, recovers exactly the entries whose records are
  complete in that prefix, restores the invariant (stored inverses and states
  included), and cuts the file back to those records.\<close>

theorem crash_recovery:
  assumes "history_ok ss [] es" "list_all (entry_fits ss) es" "length (journal_of ss es) < 2 ^ 63"
  shows "\<exists>log. open_file (Some (take n (journal_of ss es))) [] ss = Inr log \<and> log_inv log \<and>
    schemas log = ss \<and> entries log = complete_records ss n es \<and>
    fs_journal (backend log) = journal_of ss (complete_records ss n es)"
  by (rule open_crashed [OF assms])

theorem crash_recovery_witness:
  "\<exists>log. open_file (Some (take 20 (journal_of demo_set demo_history))) [] demo_set = Inr log \<and>
    log_inv log \<and> schemas log = demo_set \<and>
    entries log = complete_records demo_set 20 demo_history \<and>
    fs_journal (backend log) = journal_of demo_set (complete_records demo_set 20 demo_history)"
  using demo_journal_length by (intro crash_recovery [OF demo_history_ok demo_fits]) simp

text \<open>The concrete log over a file, at rest.\<close>

definition demo_log :: "fs_backend delta_log" where
  "demo_log = (let j = journal_of demo_set demo_history in
    \<lparr>backend = \<lparr>fhandle = \<lparr>content = j, cursor = length j, pending = []\<rparr>\<rparr>, schemas = demo_set,
     entries = demo_history, states = states_of demo_set demo_history\<rparr>)"

lemma demo_log_inv: "log_inv demo_log" "fs_ready (backend demo_log)" "schemas demo_log = demo_set"
    "entries demo_log = demo_history" "fs_journal (backend demo_log) = journal_of demo_set demo_history"
  by (simp_all add: demo_log_def Let_def log_inv_def demo_history_ok fs_ready_def fs_journal_def)

lemma demo_change_ok: "change_ok demo_schema (Remove (VU8 7))" "change_wf (Remove (VU8 7))" "str_ok (str ''t'')"
  by (simp_all add: change_ok_def demo_defs schema_key_def typed_def str_ok_def is_scalar_def)

text \<open>C3: Durability.  Take a file log that keeps the invariant, whose file holds exactly the
  records of its entries, whose file cursor stands at the end of the file and for which no system call fails
  (what \<open>open\<close> leaves on a file without a torn tail, and what each append leaves; a handle whose opening
  had to cut a torn tail is not such a log, see \<open>append_after_recovery_lost\<close>).  Appending
  a change that fits its table's schema, under a UTF-8 table name, succeeds with the next sequence number
  and leaves such a log again, with the entry added.  If every entry's payload length fits the envelope
  and the file stays below 2^63 bytes, then opening the file afresh recovers all entries, the new one
  included, with the same states.\<close>

theorem append_durable:
  assumes "log_inv log" "fs_ready (backend log)"
    and "fs_journal (backend log) = journal_of (schemas log) (entries log)"
    and "schema_get (schemas log) tbl = Some s" "change_ok s c" "str_ok tbl"
  shows "\<exists>i log'. log_append fs_ops tbl c log = (Inr (word_of_nat (length (entries log))), log') \<and>
    entries log' = entries log @ [\<lparr>entry_table = tbl, entry_change = c, entry_inverse = i\<rparr>] \<and>
    log_inv log' \<and> fs_ready (backend log') \<and> schemas log' = schemas log \<and>
    fs_journal (backend log') = journal_of (schemas log) (entries log') \<and>
    (list_all (entry_fits (schemas log)) (entries log') \<and> length (fs_journal (backend log')) < 2 ^ 63 \<longrightarrow>
      (\<exists>log''. open_file (Some (fs_journal (backend log'))) [] (schemas log) = Inr log'' \<and>
        entries log'' = entries log' \<and> states log'' = states log'))"
proof -
  let ?ss = "schemas log"
  obtain i log' where log': "log_append fs_ops tbl c log = (Inr (word_of_nat (length (entries log))), log')"
    "log_inv log'" "schemas log' = ?ss"
    "entries log' = entries log @ [\<lparr>entry_table = tbl, entry_change = c, entry_inverse = i\<rparr>]"
    "fs_journal (backend log') = journal_of ?ss (entries log')" "fs_ready (backend log')"
    using fsbk.append_ok [OF assms(1,2,4,5) inverse_wf [OF assms(5)] assms(6)] assms(3)
    by (metis journal_of_simps(1,2,3) append_Nil2)
  have "\<exists>log''. open_file (Some (journal_of ?ss (entries log'))) [] ?ss = Inr log'' \<and>
      entries log'' = entries log' \<and> states log'' = states log'"
    if fits: "list_all (entry_fits ?ss) (entries log')" and len: "length (journal_of ?ss (entries log')) < 2 ^ 63"
  proof -
    let ?b = "\<lparr>fhandle = \<lparr>content = journal_of ?ss (entries log'), cursor = 0, pending = []\<rparr>\<rparr>"
    have live: "fs_live ?b"
      and j: "fs_journal ?b = take (length (journal_of ?ss (entries log'))) (journal_of ?ss (entries log'))"
      by (simp_all add: fs_live_def fs_journal_def)
    have hist: "history_ok ?ss [] (entries log')"
      using log'(2,3) by (simp add: log_inv_def)
    obtain log'' where "open_with fs_ops ?b ?ss = Inr log''" "log_inv log''" "schemas log'' = ?ss"
        "entries log'' = entries log'"
      using fsbk.crash_ok [OF live j hist fits len] by (auto simp: complete_records_all)
    then show ?thesis
      using log'(2,3) by (auto simp: open_file_def fs_backend_open_def next_outcome_def log_inv_def)
  qed
  then show ?thesis using log' by auto
qed

theorem append_durable_witness:
  "\<exists>i log'. log_append fs_ops (str ''t'') (Remove (VU8 7)) demo_log =
      (Inr (word_of_nat (length (entries demo_log))), log') \<and>
    entries log' = entries demo_log @ [\<lparr>entry_table = str ''t'', entry_change = Remove (VU8 7), entry_inverse = i\<rparr>] \<and>
    log_inv log' \<and> fs_ready (backend log') \<and> schemas log' = schemas demo_log \<and>
    fs_journal (backend log') = journal_of (schemas demo_log) (entries log') \<and>
    (list_all (entry_fits (schemas demo_log)) (entries log') \<and> length (fs_journal (backend log')) < 2 ^ 63 \<longrightarrow>
      (\<exists>log''. open_file (Some (fs_journal (backend log'))) [] (schemas demo_log) = Inr log'' \<and>
        entries log'' = entries log' \<and> states log'' = states log'))"
  using demo_get demo_change_ok
  by (intro append_durable [where s = demo_schema]) (simp_all add: demo_log_inv)

lemma open_file_scan:
  assumes "open_file (Some bs) outcomes ss = Inr log"
  obtains b b' where "scan_loop fs_ops ss bs 0 [] b = Inr (entries log, b')" "schemas log = ss"
    "states log = states_of ss (entries log)"
proof -
  obtain b1 where b1: "fs_backend_open (Some bs) outcomes = Inr b1" "open_with fs_ops b1 ss = Inr log"
    using assms by (auto simp: open_file_def and_then_eq_Inr)
  then have c: "content (fhandle b1) = bs \<and> cursor (fhandle b1) = 0"
    by (auto simp: fs_backend_open_def next_outcome_def Let_def split: list.splits outcome.splits)
  obtain bs' b2 where l: "fs_load b1 = (Inr bs', b2)"
    using b1(2) by (cases "fs_load b1") (auto simp: open_with_def fs_ops_def split: sum.splits)
  then have "bs' = bs"
    using c by (auto simp: fs_load_def file_seek_start_def file_read_to_end_def next_outcome_def
        split: list.splits outcome.splits)
  then show thesis
    using that b1(2) l
    by (auto simp: open_with_def fs_ops_def and_then_eq_Inr rebuild_states_def states_of_def)
qed

text \<open>C19: The cursor survives a truncation.  Take a file that starts with the journal of a valid
  history and goes on with any further bytes, fewer than 2^63 in all.  Whenever opening it, with no failing
  system call, succeeds with the entries of that history alone, so that it had to cut those bytes off (a torn record
  of an entry of the log or of any other, also behind an empty log), the next append of a change
  that fits its table on that handle reports success, but it writes past a hole
  of zeros: no later opening of the file recovers the appended entry.\<close>

theorem append_after_recovery_lost:
  assumes "history_ok ss [] es" "list_all (entry_fits ss) es"
    and "open_file (Some (journal_of ss es @ tail)) [] ss = Inr log" "entries log = es"
    and "tail \<noteq> []" "length (journal_of ss es @ tail) < 2 ^ 63"
    and "schema_get ss tbl = Some s" "change_ok s c" "str_ok tbl"
  shows "\<exists>log' e. log_append fs_ops tbl c log = (Inr (word_of_nat (length es)), log') \<and> entries log' = es @ [e] \<and>
    (\<forall>outcomes log''. open_file (Some (fs_journal (backend log'))) outcomes ss = Inr log'' \<longrightarrow> entries log'' = es)"
proof -
  let ?j = "journal_of ss es" and ?n = "word_of_nat (length (journal_of ss es)) :: u64"
  let ?b = "\<lparr>fhandle = \<lparr>content = ?j @ tail, cursor = 0, pending = []\<rparr>\<rparr>"
  note es = history_ok_entry_ok [OF assms(1)] assms(2)
  have b: "fs_live ?b" "fs_journal ?b = ?j @ tail"
    by (simp_all add: fs_live_def fs_journal_def)
  have len: "length (fs_journal ?b) < 2 ^ 63"
    using assms(6) b(2) by simp
  obtain b0 b0' where "scan_loop fs_ops ss (?j @ tail) 0 [] b0 = Inr (es, b0')"
    using open_file_scan [OF assms(3)] assms(4) by metis
  then have torn: "dec_envelope_prefix tail = Inl Torn"
    using scan_entries [of ss es "?j @ tail" "[]" tail fs_ops "[]" b0] es assms(5)
      scan_stops_torn [of fs_ops ss "?j @ tail" "length ?j" es b0 b0'] by simp
  obtain b1 where b1: "fs_ready b1" "fs_journal b1 = ?j @ tail"
    "open_with fs_ops ?b ss = Inr \<lparr>backend = snd (be_truncate fs_ops ?n b1), schemas = ss, entries = es,
       states = states_of ss es\<rparr>" (is "_ = Inr ?log")
    using fsbk.open_cut [OF b torn assms(5) es len] b(2) by metis
  have n: "unat ?n = length ?j"
    using assms(6) by (intro word_of_nat_unat_small) simp
  have log0: "backend log = snd (be_truncate fs_ops ?n b1)" "schemas log = ss" "entries log = es"
      "log_inv log"
    using assms(1,3) b1(3) by (auto simp: log_inv_def open_file_def fs_backend_open_def next_outcome_def)
  have "validate tbl s c = Inr ()"
    using validate_iff [OF inverse_wf [OF assms(8)]] assms(8) by blast
  then obtain i where i: "log_append fs_ops tbl c log =
      (case be_append fs_ops (record_bytes ss \<lparr>entry_table = tbl, entry_change = c, entry_inverse = i\<rparr>) (backend log) of
          (Inl err, b) \<Rightarrow> (Inl err, log\<lparr>backend := b\<rparr>)
        | (Inr _, b) \<Rightarrow> (Inr (word_of_nat (length (entries log))),
            log\<lparr>backend := b, states := patch_states s tbl c (states log),
              entries := entries log @ [\<lparr>entry_table = tbl, entry_change = c, entry_inverse = i\<rparr>]\<rparr>))"
    using log_append_cases [OF log0(4) inverse_wf [OF assms(8)] assms(9), of fs_ops] assms(7) log0(2)
    by (auto simp: Let_def)
  define e where "e = \<lparr>entry_table = tbl, entry_change = c, entry_inverse = i\<rparr>"
  obtain b' where b': "be_append fs_ops (record_bytes ss e) (backend log) = (Inr (), b')"
    using b1(1) by (auto simp: fs_defs log0(1))
  then obtain log' where log': "log_append fs_ops tbl c log = (Inr (word_of_nat (length es)), log')"
    "entries log' = es @ [e]" "backend log' = snd (be_append fs_ops (record_bytes ss e) (backend log))"
    using i [folded e_def] log0(3) by simp
  have "fs_journal (backend log') = ?j @ replicate (length tail) 0 @ record_bytes ss e"
    using fs_append_after_truncate [OF b1(1), of ?n "record_bytes ss e"] b1(2) n log'(3) log0(1) by simp
  also have "\<dots> = ?j @ 0 # (replicate (length tail - 1) 0 @ record_bytes ss e)"
    using assms(5) by (cases tail) simp_all
  finally have hole: "fs_journal (backend log') = \<dots>" .
  have "entries log'' = es" if "open_file (Some (fs_journal (backend log'))) outcomes ss = Inr log''" for outcomes log''
    using open_file_scan [OF that] scan_hole [OF es] unfolding hole by metis
  then show ?thesis using log' by blast
qed

text \<open>The bytes of the last demo record but its final one, as a crash may leave them.\<close>

lemma length_ge_1: "1 \<le> length (enc_varnat n)"
  by (simp add: Suc_le_eq)

lemma strict_prefix_butlast: "xs \<noteq> [] \<Longrightarrow> strict_prefix (butlast xs) xs"
  by (cases xs rule: rev_cases) (simp_all add: strict_prefix_def)

lemma demo_torn: "torn_tail demo_set demo_history (butlast (record_bytes demo_set (demo_history ! 0)))"
    "butlast (record_bytes demo_set (demo_history ! 0)) \<noteq> []"
    "length (journal_of demo_set demo_history @ butlast (record_bytes demo_set (demo_history ! 0))) < 2 ^ 63"
proof -
  let ?r = "record_bytes demo_set (demo_history ! 0)"
  have "2 \<le> length ?r"
    using add_mono [OF length_ge_1 [of VERSION] length_ge_1 [of "fingerprint demo_set"]]
    by (simp only: record_bytes_def enc_envelope_def length_append)
  then have r: "?r \<noteq> []" "2 \<le> length ?r" by auto
  show "torn_tail demo_set demo_history (butlast ?r)"
    using r(1) by (auto simp: torn_tail_def demo_history_def strict_prefix_butlast)
  show "butlast ?r \<noteq> []" using r(2) by (cases ?r rule: rev_cases) auto
  have "length ?r \<le> length (journal_of demo_set demo_history)" by (simp add: demo_history_def)
  then show "length (journal_of demo_set demo_history @ butlast ?r) < 2 ^ 63"
    using demo_journal_length by simp
qed

theorem append_after_recovery_lost_witness:
  "\<exists>log log' e. open_file (Some (journal_of demo_set [] @
      butlast (record_bytes demo_set (demo_history ! 0)))) [] demo_set = Inr log \<and> entries log = [] \<and>
    log_append fs_ops (str ''t'') (Remove (VU8 7)) log = (Inr (word_of_nat (length ([] :: delta_entry list))), log') \<and>
    entries log' = [] @ [e] \<and>
    (\<forall>outcomes log''. open_file (Some (fs_journal (backend log'))) outcomes demo_set = Inr log'' \<longrightarrow>
      entries log'' = [])"
proof -
  let ?tail = "butlast (record_bytes demo_set (demo_history ! 0))"
  let ?b = "\<lparr>fhandle = \<lparr>content = ?tail, cursor = 0, pending = []\<rparr>\<rparr>"
  have "fs_live ?b" "fs_journal ?b = journal_of demo_set [] @ ?tail" "length (fs_journal ?b) < 2 ^ 63"
    using demo_torn(3) by (simp_all add: fs_live_def fs_journal_def)
  then obtain b where "open_with fs_ops ?b demo_set =
      Inr \<lparr>backend = b, schemas = demo_set, entries = [], states = states_of demo_set []\<rparr>"
    using fsbk.open_torn [OF _ _ demo_torn(1,2) _ _ demo_fits] by (metis list.pred_inject(1))
  then obtain log where log: "open_file (Some (journal_of demo_set [] @ ?tail)) [] demo_set = Inr log" "entries log = []"
    by (simp add: open_file_def fs_backend_open_def next_outcome_def)
  have len: "length (journal_of demo_set [] @ ?tail) < 2 ^ 63"
    using demo_torn(3) by simp
  have hist: "history_ok demo_set [] []" by simp
  show ?thesis
    using append_after_recovery_lost [OF hist _ log demo_torn(2) len demo_get demo_change_ok(1,3)] log by auto
qed

text \<open>C6: Recovery makes progress.  Whatever prefix of its journal a crash leaves, opening the file
  succeeds; opening it once more succeeds on what the first opening left and gives the same entries and states; and that log
  accepts every sequence of changes that fit their tables, after which the file holds exactly the records of
  the recovered entries and of the new ones.  So a torn tail never blocks a log for longer than one reopening.\<close>

theorem recovery_progress:
  assumes "history_ok ss [] es" "list_all (entry_fits ss) es" "length (journal_of ss es) < 2 ^ 63"
    and "list_all (acceptable ss) cs"
  shows "\<exists>log1 log2 log3 new. open_file (Some (take n (journal_of ss es))) [] ss = Inr log1 \<and>
    open_file (Some (fs_journal (backend log1))) [] ss = Inr log2 \<and>
    entries log2 = complete_records ss n es \<and> states log2 = states log1 \<and>
    append_each fs_ops cs log2 = (Inr (), log3) \<and> log_inv log3 \<and> entries log3 = complete_records ss n es @ new \<and>
    map (\<lambda>e. (entry_table e, entry_change e)) new = cs \<and>
    fs_journal (backend log3) = journal_of ss (entries log3)"
proof -
  let ?es = "complete_records ss n es"
  obtain log1 where log1: "open_file (Some (take n (journal_of ss es))) [] ss = Inr log1" "log_inv log1"
    "schemas log1 = ss" "entries log1 = ?es" "fs_journal (backend log1) = journal_of ss ?es"
    by (rule exE [OF open_crashed [OF assms(1-3), of n]]) blast
  have fits: "list_all (entry_fits ss) ?es"
    using complete_records_prefix [of es ss n] assms(2) by (metis list_all_append)
  have hist: "history_ok ss [] ?es"
    using log1(2-4) by (simp add: log_inv_def)
  let ?b = "\<lparr>fhandle = \<lparr>content = journal_of ss ?es, cursor = 0, pending = []\<rparr>\<rparr>"
  obtain b where b: "fs_ready b" "fs_journal b = journal_of ss ?es"
    "open_with fs_ops ?b ss = Inr \<lparr>backend = b, schemas = ss, entries = ?es, states = states_of ss ?es\<rparr>"
    by (rule fsbk.open_clean [of ?b ss ?es, OF _ _ history_ok_entry_ok [OF hist] fits])
      (simp_all add: fs_live_def fs_journal_def)
  define log2 where "log2 = \<lparr>backend = b, schemas = ss, entries = ?es, states = states_of ss ?es\<rparr>"
  have log2: "open_file (Some (fs_journal (backend log1))) [] ss = Inr log2" "log_inv log2" "fs_ready (backend log2)"
    "schemas log2 = ss" "entries log2 = ?es" "states log2 = states log1"
    using b hist log1(2-5) by (simp_all add: log2_def open_file_def fs_backend_open_def next_outcome_def log_inv_def)
  then show ?thesis
    using fsbk.append_each_ok [OF log2(2,3), of cs] assms(4) log1(1) b(2)
    by (auto simp: log2_def)
qed

theorem recovery_progress_witness:
  "\<exists>log1 log2 log3 new. open_file (Some (take 20 (journal_of demo_set demo_history))) [] demo_set = Inr log1 \<and>
    open_file (Some (fs_journal (backend log1))) [] demo_set = Inr log2 \<and>
    entries log2 = complete_records demo_set 20 demo_history \<and> states log2 = states log1 \<and>
    append_each fs_ops [(str ''t'', Remove (VU8 7))] log2 = (Inr (), log3) \<and> log_inv log3 \<and>
    entries log3 = complete_records demo_set 20 demo_history @ new \<and>
    map (\<lambda>e. (entry_table e, entry_change e)) new = [(str ''t'', Remove (VU8 7))] \<and>
    fs_journal (backend log3) = journal_of demo_set (entries log3)"
  using demo_journal_length demo_get demo_change_ok
  by (intro recovery_progress [OF demo_history_ok demo_fits]) (simp_all add: acceptable_def)

section \<open>Rewinding\<close>

text \<open>C2: Rewinding.  On any backend that keeps the contract, rewinding a log to a
  sequence number succeeds; it only appends, one entry per undone one, each carrying
  the stored inverse, last first; afterwards the state of every table of the schema set
  is what prefix replay gave at that point before, a table without a state counting as empty.\<close>

theorem rewind_restores:
  assumes "append_backend ops journal live ready" "log_inv log" "ready (backend log)"
  shows "\<exists>log' comp. rewind_to ops seq log = (Inr (), log') \<and> log_inv log' \<and>
    entries log' = entries log @ comp \<and>
    map (\<lambda>e. (entry_table e, entry_change e)) comp =
      map (\<lambda>e. (entry_table e, entry_inverse e)) (rev (drop (unat seq) (entries log))) \<and>
    journal (backend log') = journal (backend log) @ journal_of (schemas log) comp \<and>
    (\<forall>tbl s. schema_get (schemas log) tbl = Some s \<longrightarrow>
      state_at log tbl seq = Some (case log_state log' tbl of None \<Rightarrow> table_new | Some t \<Rightarrow> t))"
proof -
  obtain log' comp where r: "rewind_to ops seq log = (Inr (), log')" "log_inv log'"
    "schemas log' = schemas log" "entries log' = entries log @ comp"
    "map (\<lambda>e. (entry_table e, entry_change e)) comp =
      map (\<lambda>e. (entry_table e, entry_inverse e)) (rev (drop (unat seq) (entries log)))"
    "journal (backend log') = journal (backend log) @ journal_of (schemas log) comp"
    "\<forall>tbl. replay (schemas log) tbl (entries log') = replay (schemas log) tbl (take (unat seq) (entries log))"
    using append_backend.rewind_ok [OF assms] by blast
  have "state_at log tbl seq = Some (case log_state log' tbl of None \<Rightarrow> table_new | Some t \<Rightarrow> t)"
    if s: "schema_get (schemas log) tbl = Some s" for tbl s
  proof -
    have "(case log_state log' tbl of None \<Rightarrow> table_new | Some t \<Rightarrow> t) = replay (schemas log) tbl (entries log')"
      using r(2,3) s replay_untouched [of tbl "entries log'"]
      by (auto simp: log_state_def log_inv_def states_of_get)
    then show ?thesis using s r(7) by (simp add: state_at_replay)
  qed
  with r show ?thesis by blast
qed

theorem rewind_restores_witness:
  "\<exists>log' comp. rewind_to fs_ops 1 demo_log = (Inr (), log') \<and> log_inv log' \<and>
    entries log' = entries demo_log @ comp \<and>
    map (\<lambda>e. (entry_table e, entry_change e)) comp =
      map (\<lambda>e. (entry_table e, entry_inverse e)) (rev (drop (unat (1 :: u64)) (entries demo_log))) \<and>
    fs_journal (backend log') = fs_journal (backend demo_log) @ journal_of (schemas demo_log) comp \<and>
    (\<forall>tbl s. schema_get (schemas demo_log) tbl = Some s \<longrightarrow>
      state_at demo_log tbl 1 = Some (case log_state log' tbl of None \<Rightarrow> table_new | Some t \<Rightarrow> t))"
  by (rule rewind_restores [OF fsbk.append_backend_axioms demo_log_inv(1,2)])

section \<open>Appending and the invariant\<close>

text \<open>Appending, on every branch.  An unknown table and a change that validation refuses
  leave the log as it was; a change that validation accepts is written as one record whose stored
  inverse was computed against the replay of the entries so far (the later refusals of \<open>append\<close>
  cannot happen), and then either the backend failed and neither entries nor states
  changed, or the entry is added under the next sequence number and patched into the state.\<close>

theorem append_outcome:
  assumes "log_inv log" "change_wf c" "str_ok tbl"
  shows "case schema_get (schemas log) tbl of
      None \<Rightarrow> log_append ops tbl c log = (Inl (UnknownTable tbl), log)
    | Some s \<Rightarrow> (case validate tbl s c of
        Inl e \<Rightarrow> log_append ops tbl c log = (Inl e, log)
      | Inr _ \<Rightarrow> \<exists>i. let e = \<lparr>entry_table = tbl, entry_change = c, entry_inverse = i\<rparr> in
          inverse_ok (schemas log) (entries log) e \<and>
          log_append ops tbl c log = (case be_append ops (record_bytes (schemas log) e) (backend log) of
              (Inl err, b) \<Rightarrow> (Inl err, log\<lparr>backend := b\<rparr>)
            | (Inr _, b) \<Rightarrow> (Inr (word_of_nat (length (entries log))),
                log\<lparr>backend := b, states := patch_states s tbl c (states log), entries := entries log @ [e]\<rparr>)))"
  using assms by (rule log_append_cases)

theorem append_outcome_witness:
  "case schema_get (schemas demo_log) (str ''t'') of
      None \<Rightarrow> log_append fs_ops (str ''t'') (Remove (VU8 7)) demo_log = (Inl (UnknownTable (str ''t'')), demo_log)
    | Some s \<Rightarrow> (case validate (str ''t'') s (Remove (VU8 7)) of
        Inl e \<Rightarrow> log_append fs_ops (str ''t'') (Remove (VU8 7)) demo_log = (Inl e, demo_log)
      | Inr _ \<Rightarrow> \<exists>i. let e = \<lparr>entry_table = str ''t'', entry_change = Remove (VU8 7), entry_inverse = i\<rparr> in
          inverse_ok (schemas demo_log) (entries demo_log) e \<and>
          log_append fs_ops (str ''t'') (Remove (VU8 7)) demo_log =
            (case be_append fs_ops (record_bytes (schemas demo_log) e) (backend demo_log) of
              (Inl err, b) \<Rightarrow> (Inl err, demo_log\<lparr>backend := b\<rparr>)
            | (Inr _, b) \<Rightarrow> (Inr (word_of_nat (length (entries demo_log))),
                demo_log\<lparr>backend := b, states := patch_states s (str ''t'') (Remove (VU8 7)) (states demo_log),
                  entries := entries demo_log @ [e]\<rparr>)))"
  by (rule append_outcome [OF demo_log_inv(1) demo_change_ok(2,3)])

text \<open>C4: The states never drift from the log.  In every log reachable from an empty
  journal by appends and rewinds, over any backend and with any failures, each entry is
  valid and carries the inverse computed at its position, and the materialized state of a table is
  the prefix replay over the whole log, absent exactly when no entry names the table.\<close>

theorem reachable_states:
  assumes "reachable ops ss log" "length (entries log) < 2 ^ 64"
  shows "history_ok ss [] (entries log) \<and>
    log_state log tbl =
      (if list_ex (\<lambda>e. entry_table e = tbl) (entries log) then state_at log tbl (log_len log) else None)"
proof -
  have inv: "log_inv log" "schemas log = ss"
    using reachable_inv [OF assms(1)] by simp_all
  have "unat (log_len log) = length (entries log)"
    using assms(2) by (simp add: log_len_def word_of_nat_unat_small)
  moreover have "tbl \<in> entry_table ` set (entries log) \<longleftrightarrow> list_ex (\<lambda>e. entry_table e = tbl) (entries log)"
    by (auto simp: list_ex_iff)
  ultimately show ?thesis
    using inv by (auto simp: log_inv_def log_state_def states_of_get state_at_replay)
qed

theorem reachable_states_witness:
  "\<exists>log. reachable mem_ops demo_set log \<and> length (entries log) = 1 \<and> history_ok demo_set [] (entries log) \<and>
    log_state log (str ''t'') =
      (if list_ex (\<lambda>e. entry_table e = str ''t'') (entries log) then state_at log (str ''t'') (log_len log) else None)"
proof -
  let ?log = "\<lparr>backend = mem_backend_new, schemas = demo_set, entries = [], states = bt_empty\<rparr>"
  have "reachable mem_ops demo_set ?log"
    by (rule reachable.opened [of mem_ops mem_backend_new])
      (simp_all add: open_with_def mem_ops_def mem_load_def mem_backend_new_def scan_loop.simps rebuild_states_def)
  then have r: "reachable mem_ops demo_set (snd (log_append mem_ops (str ''t'') (Remove (VU8 7)) ?log))"
    using demo_change_ok by (intro reachable.appended)
  have inv: "log_inv ?log" by (simp add: log_inv_def states_of_def)
  have len: "length (entries (snd (log_append mem_ops (str ''t'') (Remove (VU8 7)) ?log))) = 1"
    using demo_change_ok demo_get
    by (auto intro: membk.append_ok [OF inv])
  then show ?thesis using reachable_states [OF r] r by fastforce
qed

text \<open>C29: Opening is strict.  Suppose every registered schema has a key, and a file holds fewer than 2^63
  bytes.  Then, whatever the bytes are and whichever system calls fail, a log
  that opens contains only entries that are valid for the schema set, and its states are
  the replay of those entries.  (For a schema without a key this fails: a crafted \<open>Insert\<close> into such a table
  opens, although no append accepts one.)\<close>

theorem open_accepts_valid:
  assumes "open_file (Some bs) outcomes ss = Inr log" "length bs < 2 ^ 63" "keyed ss"
  shows "schemas log = ss \<and> list_all (entry_ok ss) (entries log) \<and> states log = states_of ss (entries log)"
  using open_file_scan [OF assms(1)] scan_sound [of fs_ops ss bs 0 "[]" _ "entries log"] assms(2,3)
  by (metis list.pred_inject(1))

theorem open_accepts_valid_witness:
  "\<exists>log. open_file (Some (journal_of demo_set demo_history)) [] demo_set = Inr log \<and> schemas log = demo_set \<and>
    list_all (entry_ok demo_set) (entries log) \<and> states log = states_of demo_set (entries log)"
proof -
  let ?b = "\<lparr>fhandle = \<lparr>content = journal_of demo_set demo_history, cursor = 0, pending = []\<rparr>\<rparr>"
  have "fs_live ?b" "fs_journal ?b = journal_of demo_set demo_history"
    by (simp_all add: fs_live_def fs_journal_def)
  then obtain log where "open_with fs_ops ?b demo_set = Inr log"
    using fsbk.open_clean history_ok_entry_ok [OF demo_history_ok] demo_fits by metis
  then have op: "open_file (Some (journal_of demo_set demo_history)) [] demo_set = Inr log"
    by (simp add: open_file_def fs_backend_open_def next_outcome_def)
  moreover have "keyed demo_set" by (simp add: keyed_def demo_defs schema_key_def)
  moreover have "length (journal_of demo_set demo_history) < 2 ^ 63" using demo_journal_length by simp
  ultimately show ?thesis using open_accepts_valid by blast
qed

section \<open>A failed append\<close>

lemma log_append_valid:
  assumes "log_inv log" "schema_get (schemas log) tbl = Some s" "change_ok s c" "str_ok tbl"
  obtains e where "log_append ops tbl c log =
    (case be_append ops (record_bytes (schemas log) e) (backend log) of
        (Inl err, b) \<Rightarrow> (Inl err, log\<lparr>backend := b\<rparr>)
      | (Inr _, b) \<Rightarrow> (Inr (word_of_nat (length (entries log))),
          log\<lparr>backend := b, states := patch_states s tbl c (states log), entries := entries log @ [e]\<rparr>))"
proof -
  have "validate tbl s c = Inr ()"
    using validate_iff [OF inverse_wf [OF assms(3)]] assms(3) by blast
  then show thesis
    using that log_append_cases [OF assms(1) inverse_wf [OF assms(3)] assms(4), of ops] assms(2)
    by (auto simp: Let_def)
qed

lemma enc_varnat_1: "enc_varnat 1 = [1]"
  by (simp add: enc_varnat.simps)

lemma scan_misaligned:
  assumes "list_all (entry_ok ss) es" "list_all (entry_fits ss) es" "fingerprint ss \<noteq> 1"
    and "scan_loop ops ss (journal_of ss es @ 1 # record_bytes ss e) 0 [] b = Inr (es', b')"
  shows "es' = es"
proof -
  let ?bs = "journal_of ss es @ 1 # record_bytes ss e"
  have "scan_loop ops ss ?bs (length (journal_of ss es)) es b = Inr (es', b')"
    using scan_entries [of ss es ?bs "[]" "1 # record_bytes ss e" ops "[]" b] assms by simp
  moreover have "env_fingerprint env = 1"
    if "dec_envelope_prefix (1 # record_bytes ss e) = Inr env" for env
  proof -
    have "1 # record_bytes ss e = enc_varnat 1 @ enc_varnat 1 @ enc_varnat (fingerprint ss) @
        enc_bytes (fst (enc_entry_payload ss e))"
      by (simp add: record_bytes_def enc_envelope_def VERSION_def enc_varnat_1)
    then show ?thesis
      using that by (auto simp: dec_envelope_prefix_def dec_enc_varnat and_then_eq_Inr)
  qed
  ultimately show ?thesis
    using assms(3) by (subst (asm) scan_loop.simps)
      (auto split: sum.splits dec_fail.splits prod.splits if_splits)
qed

text \<open>A failed append is not rolled back.  If the write of a record fails after
  its first byte, the log reports the error and keeps its entries, but the byte stays in the file;
  the next append then reports success, and no later opening of the file recovers its entry.\<close>

theorem failed_append_loses_next:
  assumes "log_inv log" "list_all (entry_fits (schemas log)) (entries log)" "fingerprint (schemas log) \<noteq> 1"
    and "backend log = \<lparr>fhandle = \<lparr>content = journal_of (schemas log) (entries log),
      cursor = length (journal_of (schemas log) (entries log)), pending = [Fails err 1]\<rparr>\<rparr>"
    and "schema_get (schemas log) tbl = Some s" "change_ok s c" "change_ok s c'" "str_ok tbl"
  shows "\<exists>log1 log2 e. log_append fs_ops tbl c log = (Inl (Io err), log1) \<and> entries log1 = entries log \<and>
    log_append fs_ops tbl c' log1 = (Inr (word_of_nat (length (entries log))), log2) \<and>
    entries log2 = entries log @ [e] \<and>
    (\<forall>outcomes log''. open_file (Some (fs_journal (backend log2))) outcomes (schemas log) = Inr log'' \<longrightarrow>
      entries log'' = entries log)"
proof -
  let ?ss = "schemas log" and ?j = "journal_of (schemas log) (entries log)"
  obtain e1 where e1: "log_append fs_ops tbl c log =
    (case be_append fs_ops (record_bytes ?ss e1) (backend log) of
        (Inl err, b) \<Rightarrow> (Inl err, log\<lparr>backend := b\<rparr>)
      | (Inr _, b) \<Rightarrow> (Inr (word_of_nat (length (entries log))),
          log\<lparr>backend := b, states := patch_states s tbl c (states log), entries := entries log @ [e1]\<rparr>))"
    using log_append_valid [OF assms(1,5,6,8)] by blast
  define b1 where "b1 = \<lparr>fhandle = \<lparr>content = ?j @ [1], cursor = length ?j + 1, pending = []\<rparr>\<rparr>"
  have one: "take 1 (record_bytes ?ss e1) = [1]"
    by (simp add: record_bytes_def enc_envelope_def VERSION_def enc_varnat_1)
  then have "be_append fs_ops (record_bytes ?ss e1) (backend log) = (Inl (Io err), b1)"
    by (simp add: fs_ops_def fs_append_def file_write_all_def next_outcome_def write_at_def assms(4) b1_def)
  then have step1: "log_append fs_ops tbl c log = (Inl (Io err), log\<lparr>backend := b1\<rparr>)"
    using e1 by simp
  define log1 where "log1 = log\<lparr>backend := b1\<rparr>"
  have log1: "log_inv log1" "schemas log1 = ?ss" "entries log1 = entries log" "backend log1 = b1"
    using log_inv_backend [OF assms(1)] by (simp_all add: log1_def)
  obtain e where e: "log_append fs_ops tbl c' log1 =
    (case be_append fs_ops (record_bytes ?ss e) b1 of
        (Inl err, b) \<Rightarrow> (Inl err, log1\<lparr>backend := b\<rparr>)
      | (Inr _, b) \<Rightarrow> (Inr (word_of_nat (length (entries log1))),
          log1\<lparr>backend := b, states := patch_states s tbl c' (states log1), entries := entries log1 @ [e]\<rparr>))"
    using log_append_valid [OF log1(1), of tbl s c' fs_ops] assms(5,7,8) log1(2,4) by metis
  obtain b2 where b2: "be_append fs_ops (record_bytes ?ss e) b1 = (Inr (), b2)"
      "fs_journal b2 = ?j @ 1 # record_bytes ?ss e"
    by (simp add: fs_defs b1_def)
  obtain log2 where log2: "log_append fs_ops tbl c' log1 = (Inr (word_of_nat (length (entries log))), log2)"
      "entries log2 = entries log @ [e]" "backend log2 = b2"
    using e b2(1) log1(3) by simp
  have ok: "list_all (entry_ok ?ss) (entries log)"
    using assms(1) by (auto simp: log_inv_def intro: history_ok_entry_ok)
  have "entries log'' = entries log" if "open_file (Some (fs_journal b2)) outcomes ?ss = Inr log''" for outcomes log''
    using open_file_scan [OF that] scan_misaligned [OF ok assms(2,3)] unfolding b2(2) by metis
  then show ?thesis
    using step1 [folded log1_def] log1(3) log2 by blast
qed

lemma demo_fingerprint: "fingerprint demo_set \<noteq> 1"
  by (simp add: fingerprint_def mix_table_def mix_field_def mix_def demo_defs as_bytes_def utf8_char_def Let_def)

theorem failed_append_loses_next_witness:
  "\<exists>log log1 log2 e. log_append fs_ops (str ''t'') (Remove (VU8 7)) log = (Inl (Io 28), log1) \<and>
    entries log1 = entries log \<and>
    log_append fs_ops (str ''t'') (Remove (VU8 7)) log1 = (Inr (word_of_nat (length (entries log))), log2) \<and>
    entries log2 = entries log @ [e] \<and>
    (\<forall>outcomes log''. open_file (Some (fs_journal (backend log2))) outcomes (schemas log) = Inr log'' \<longrightarrow>
      entries log'' = entries log)"
proof -
  define log where "log = demo_log\<lparr>backend := \<lparr>fhandle = \<lparr>content = journal_of demo_set demo_history,
      cursor = length (journal_of demo_set demo_history), pending = [Fails 28 1]\<rparr>\<rparr>\<rparr>"
  have log: "log_inv log" "schemas log = demo_set" "entries log = demo_history"
    using log_inv_backend [OF demo_log_inv(1)] by (simp_all add: log_def demo_log_inv)
  show ?thesis
    by (rule exI [of _ log], rule failed_append_loses_next [where s = demo_schema])
      (simp_all add: log demo_fits demo_fingerprint demo_get demo_change_ok, simp add: log_def)
qed

end
