(* ===== verification/WireTheorems.thy ===== *)
theory WireTheorems
  imports Journal
begin

text \<open>
  The properties of the wire format of \<open>crates/wasm-delta\<close> (\<open>codec.rs\<close>, \<open>value.rs\<close>,
  \<open>row.rs\<close>, \<open>delta.rs\<close> and the fingerprint of \<open>log.rs\<close>): round trips, the
  separation of torn from corrupt input, what the decoders accept, canonical
  keys and the inversion of changes.  They rest on the laws of the locale
  \<open>wire_codec\<close> at its interpretations.
\<close>

section \<open>Varints\<close>

text \<open>The varint decoder, on every input.  With \<open>k\<close> leading continuation bytes it reports
  corrupt input exactly when an eleventh byte is present and the first ten all continue, torn input
  when the bytes end inside the number, and otherwise the little-endian base-128 value of the
  first \<open>k + 1\<close> bytes reduced modulo 2 to the 64, consuming exactly those bytes.\<close>

theorem varnat_decodes:
  "dec_varnat bs =
    (let k = length (takeWhile continues bs) in
     if 10 \<le> k \<and> 10 < length bs then Inl Corrupt
     else if k = length bs then Inl Torn
     else Inr (word_of_nat (leb_value (take (k + 1) bs)), k + 1))"
  unfolding dec_varnat_eq varnat_spec_def VARNAT_MAX_BYTES_def ..

lemma leb_value_zeros: "leb_value (replicate n 128 @ [d]) = 128 ^ n * (unat d mod 128)"
  by (induction n) simp_all

text \<open>Overflow is not rejected.  A ten-byte varint whose value exceeds 64 bits is accepted, whatever
  its last digit: the bits past the 64th are dropped and only the lowest bit of the last digit survives,
  so many encodings of different numbers decode to the same value.\<close>

theorem varnat_overflow_accepted:
  assumes "d < 128"
  shows "dec_varnat (replicate 9 128 @ [d]) = Inr (word_of_nat (2 ^ 63 * (unat d mod 2)), 10) \<and>
    leb_value (replicate 9 128 @ [d]) = 2 ^ 63 * unat d"
proof -
  have "unat d mod 128 = unat d"
    using assms by (simp add: word_less_nat_alt)
  then have val: "leb_value (replicate 9 128 @ [d]) = 2 ^ 63 * unat d"
    unfolding leb_value_zeros by simp
  have tw: "length (takeWhile continues (replicate 9 128 @ [d])) = 9"
    using assms by (simp add: takeWhile_append not_le)
  have "dec_varnat (replicate 9 128 @ [d]) = Inr (word_of_nat (leb_value (replicate 9 128 @ [d])), 10)"
    unfolding dec_varnat_eq varnat_spec_def VARNAT_MAX_BYTES_def tw Let_def by simp
  moreover have "word_of_nat (2 ^ 63 * unat d) = (word_of_nat (2 ^ 63 * (unat d mod 2)) :: u64)"
  proof -
    have "2 ^ 63 * (unat d mod 2) = 2 ^ 63 * unat d mod 2 ^ 64"
      using mult_mod_right [of "2 ^ 63" "unat d" 2] by simp
    then show ?thesis
      unfolding word_of_nat_eq_iff take_bit_eq_mod by simp
  qed
  ultimately show ?thesis using val by simp
qed

theorem varnat_overflow_accepted_witness:
  "dec_varnat (replicate 9 128 @ [2]) = Inr (word_of_nat (2 ^ 63 * (unat (2 :: u8) mod 2)), 10) \<and>
    leb_value (replicate 9 128 @ [2]) = 2 ^ 63 * unat (2 :: u8)"
  by (rule varnat_overflow_accepted) simp

section \<open>Values and rows\<close>

text \<open>C27: Values round-trip in the stream.  The encoding of a value that matches its type decodes, whatever bytes
  follow it, to that value and exactly its own length; and the same for a row that its schema accepts.\<close>

theorem value_roundtrip:
  assumes "value_ty_matches t v" "value_ok v"
    and "row_new s vs = Some r" "list_all value_ok vs"
  shows "decode_value t (encode_value t v @ rest) = Some (v, length (encode_value t v)) \<and>
    (\<exists>out. encode_row s r = Some out \<and> decode_row s (out @ rest) = Some (r, length out))"
proof -
  have v: "typed t v" using assms(1,2) by (simp add: typed_def)
  have r: "row_ok s r" "schema_check s (row_values r)"
    using assms(3,4) by (auto simp: row_new_def row_ok_iff split: if_splits)
  show ?thesis
    using valuec.roundtrip [OF v] rowc.roundtrip [OF r(1)] r(2)
    by (simp add: encode_value_def decode_value_def encode_row_def decode_row_def)
qed

theorem value_roundtrip_witness:
  "decode_value (TOpt TU16) (encode_value (TOpt TU16) (VOpt (Some (VU16 300))) @ [9]) =
      Some (VOpt (Some (VU16 300)), length (encode_value (TOpt TU16) (VOpt (Some (VU16 300))))) \<and>
    (\<exists>out. encode_row \<lparr>sfields = [\<lparr>fname = str ''k'', fty = TI8\<rparr>]\<rparr> \<lparr>row_values = [VI8 (- 1)]\<rparr> = Some out \<and>
      decode_row \<lparr>sfields = [\<lparr>fname = str ''k'', fty = TI8\<rparr>]\<rparr> (out @ [9]) = Some (\<lparr>row_values = [VI8 (- 1)]\<rparr>, length out))"
  by (rule value_roundtrip [where vs = "[VI8 (- 1)]"]) (simp_all add: row_new_def schema_check_def)

text \<open>Truncation is always recognised.  Every strict prefix of the encoding of a value, of a row, or of
  a journal record decodes as torn: never as a shorter value, and never as corrupt.\<close>

theorem torn_prefix:
  assumes "typed t v" "strict_prefix p (enc_value t v)"
    and "row_ok s r" "strict_prefix q (enc_row s r)"
    and "entry_fits ss e" "strict_prefix w (record_bytes ss e)"
  shows "dec_value t p = Inl Torn \<and> dec_row s q = Inl Torn \<and> dec_envelope_prefix w = Inl Torn"
  using valuec.torn [OF assms(1,2)] rowc.torn [OF assms(3,4)] scan_torn_record [OF assms(5,6)] by simp

theorem torn_prefix_witness:
  "dec_value (TOpt TU16) [1, 172] = Inl Torn \<and>
    dec_row \<lparr>sfields = [\<lparr>fname = str ''k'', fty = TU8\<rparr>, \<lparr>fname = str ''v'', fty = TBool\<rparr>]\<rparr> [7] = Inl Torn \<and>
    dec_envelope_prefix [] = Inl Torn"
  by (rule torn_prefix [where v = "VOpt (Some (VU16 300))" and r = "\<lparr>row_values = [VU8 7, VBool True]\<rparr>"
        and ss = schema_set_new and e = "\<lparr>entry_table = [], entry_change = Remove (VU8 1),
          entry_inverse = Remove (VU8 1)\<rparr>"])
    (simp_all add: typed_def row_ok_def enc_row_def enc_bool_def enc_varnat.simps strict_prefix_def entry_fits_def
      enc_entry_payload_def schema_get_def schema_set_new_def bt_empty_def record_bytes_not_Nil [symmetric])

text \<open>The decoder is strict.  Whatever it accepts has the requested type and satisfies the invariants of Rust's own
  types, it read at least one byte, and it never read past the end.\<close>

theorem decoded_value_typed:
  assumes "dec_value t bs = Inr (v, u)" "length bs < 2 ^ 63"
  shows "value_ty_matches t v \<and> value_ok v \<and> 0 < u \<and> u \<le> length bs"
  using dec_value_typed [OF assms] dec_value_pos [OF assms(1)] valuec.consumes [OF assms(1)]
  by (simp add: typed_def)

theorem decoded_value_typed_witness:
  "value_ty_matches (TOpt TU8) (VOpt (Some (VU8 5))) \<and> value_ok (VOpt (Some (VU8 5))) \<and>
    0 < (2::nat) \<and> 2 \<le> length [1, 5, 9 :: u8]"
  by (rule decoded_value_typed) simp_all

text \<open>Encodings are canonical in a stream.  If two values of one type are encoded at the start of the same bytes
  they are equal; so encodings are injective and no encoding is a prefix of another.\<close>

theorem encoding_prefix_free:
  assumes "typed t v" "typed t w" "enc_value t v @ xs = enc_value t w @ ys"
  shows "v = w \<and> xs = ys"
proof -
  have "prefix (enc_value t v) (enc_value t w) \<or> prefix (enc_value t w) (enc_value t v)"
    using assms(3) by (metis prefixI prefix_same_cases)
  then have "v = w"
    using valuec.prefix_free assms(1,2) by blast
  then show ?thesis using assms(3) by simp
qed

theorem encoding_prefix_free_witness:
  "VU32 300 = VU32 300 \<and> [1 :: u8] = [1]"
  by (rule encoding_prefix_free [of TU32]) (simp_all add: typed_def)

section \<open>Keys and changes\<close>

text \<open>Keys are canonical.  Two rows that a keyed schema accepts are stored under the same key bytes exactly when
  their key fields hold the same value; a change refers to a row exactly by these bytes.\<close>

theorem keys_canonical:
  assumes "row_ok s r" "row_ok s r'" "schema_key s \<noteq> None"
  shows "(row_key_bytes s r = row_key_bytes s r' \<longleftrightarrow> row_key r = row_key r') \<and>
    change_key_bytes s (Insert r) = Option.bind (row_key r) (\<lambda>k. change_key_bytes s (Remove k))"
proof -
  obtain kf where kf: "schema_key s = Some kf" using assms(3) by auto
  then obtain k where "row_key r = Some k" "typed (fty kf) k" "row_key_bytes s r = Some (enc_value (fty kf) k)"
    using row_ok_key [OF assms(1)] by blast
  then show ?thesis
    using key_value_inject [OF assms] enc_key_typed [OF kf] by simp
qed

theorem keys_canonical_witness:
  "(row_key_bytes \<lparr>sfields = [\<lparr>fname = str ''k'', fty = TU8\<rparr>, \<lparr>fname = str ''v'', fty = TU8\<rparr>]\<rparr> \<lparr>row_values = [VU8 1, VU8 2]\<rparr> =
    row_key_bytes \<lparr>sfields = [\<lparr>fname = str ''k'', fty = TU8\<rparr>, \<lparr>fname = str ''v'', fty = TU8\<rparr>]\<rparr> \<lparr>row_values = [VU8 1, VU8 3]\<rparr> \<longleftrightarrow>
    row_key \<lparr>row_values = [VU8 1, VU8 2]\<rparr> = row_key \<lparr>row_values = [VU8 1, VU8 3]\<rparr>) \<and>
   change_key_bytes \<lparr>sfields = [\<lparr>fname = str ''k'', fty = TU8\<rparr>, \<lparr>fname = str ''v'', fty = TU8\<rparr>]\<rparr> (Insert \<lparr>row_values = [VU8 1, VU8 2]\<rparr>) =
    Option.bind (row_key \<lparr>row_values = [VU8 1, VU8 2]\<rparr>)
      (\<lambda>k. change_key_bytes \<lparr>sfields = [\<lparr>fname = str ''k'', fty = TU8\<rparr>, \<lparr>fname = str ''v'', fty = TU8\<rparr>]\<rparr> (Remove k))"
  by (rule keys_canonical) (simp_all add: row_ok_def typed_def schema_key_def)

text \<open>C28: The inversion law.  On a well-formed table every valid change has an inverse computed from the row it
  overwrites; the inverse is again a valid change on the same key, and patching the change and then
  its inverse restores the table exactly.\<close>

theorem inverse_undoes:
  assumes "table_ok s t" "change_ok s c"
  shows "\<exists>k i. change_key_bytes s c = Some k \<and> invert s c (table_get t k) = Some i \<and>
    change_ok s i \<and> change_key_bytes s i = Some k \<and> table_ok s (patch s c t) \<and>
    patch s i (patch s c t) = t"
proof -
  obtain k where k: "change_key_bytes s c = Some k"
    using assms(2) by (rule change_ok_key)
  obtain i where i: "invert s c (table_get t k) = Some i" "change_ok s i" "change_key_bytes s i = Some k"
    using invert_ok [OF assms k] by blast
  then show ?thesis
    using k table_ok_patch [OF assms] patch_invert [OF assms k i(1)] by blast
qed

theorem inverse_undoes_witness:
  "\<exists>k i. change_key_bytes \<lparr>sfields = [\<lparr>fname = str ''k'', fty = TU8\<rparr>]\<rparr> (Insert \<lparr>row_values = [VU8 1]\<rparr>) = Some k \<and>
    invert \<lparr>sfields = [\<lparr>fname = str ''k'', fty = TU8\<rparr>]\<rparr> (Insert \<lparr>row_values = [VU8 1]\<rparr>) (table_get table_new k) = Some i \<and>
    change_ok \<lparr>sfields = [\<lparr>fname = str ''k'', fty = TU8\<rparr>]\<rparr> i \<and>
    change_key_bytes \<lparr>sfields = [\<lparr>fname = str ''k'', fty = TU8\<rparr>]\<rparr> i = Some k \<and>
    table_ok \<lparr>sfields = [\<lparr>fname = str ''k'', fty = TU8\<rparr>]\<rparr>
      (patch \<lparr>sfields = [\<lparr>fname = str ''k'', fty = TU8\<rparr>]\<rparr> (Insert \<lparr>row_values = [VU8 1]\<rparr>) table_new) \<and>
    patch \<lparr>sfields = [\<lparr>fname = str ''k'', fty = TU8\<rparr>]\<rparr> i
      (patch \<lparr>sfields = [\<lparr>fname = str ''k'', fty = TU8\<rparr>]\<rparr> (Insert \<lparr>row_values = [VU8 1]\<rparr>) table_new) = table_new"
  by (rule inverse_undoes) (simp_all add: change_ok_def schema_key_def row_ok_def typed_def)

section \<open>The fingerprint\<close>

text \<open>The fingerprint does not separate names.  Moving the end of a table's name to the front of its first field's
  name gives a different schema set with the same fingerprint, so a journal written against one passes the
  fingerprint check of the other.\<close>

theorem fingerprint_ambiguous:
  "fingerprint (register (tbl @ x) (schema_new (\<lparr>fname = f, fty = t\<rparr> # fs)) schema_set_new) =
   fingerprint (register tbl (schema_new (\<lparr>fname = x @ f, fty = t\<rparr> # fs)) schema_set_new)"
  by (simp add: fingerprint_def register_def schema_set_new_def bt_empty_def schema_new_def
      mix_table_def mix_field_def mix_def as_bytes_def)

end
