(* ===== verification/Machines.thy ===== *)
theory Machines
  imports Prelude
begin

text \<open>
  The generated state machines: the order lifecycle (\<open>order_machine_generated.rs\<close>), its
  typestate projection (\<open>order_typestate_generated.rs\<close>) and the driver's stage machine
  (\<open>pipeline_generated.rs\<close>).  A run is a list of events; \<open>run\<close> is \<open>None\<close> as soon as a
  step is refused.  What the machines have in common is the locale \<open>ranked_machine\<close>: a
  recovery event that leads to the initial state from everywhere, and a rank that every
  other step raises.  Both machines interpret it.
\<close>

section \<open>Runs\<close>

fun run :: "('s \<Rightarrow> 'e \<Rightarrow> 's option) \<Rightarrow> 's \<Rightarrow> 'e list \<Rightarrow> 's option" where
  "run step s [] = Some s"
| "run step s (e # es) = Option.bind (step s e) (\<lambda>s'. run step s' es)"

inductive reach :: "('s \<Rightarrow> 'e \<Rightarrow> 's option) \<Rightarrow> 's \<Rightarrow> 's \<Rightarrow> bool" for step s0 where
  start: "reach step s0 s0"
| step: "reach step s0 s \<Longrightarrow> step s e = Some s' \<Longrightarrow> reach step s0 s'"

inductive_cases reachE: "reach step s0 s"

lemma run_append: "run step s (es @ fs) = Option.bind (run step s es) (\<lambda>s'. run step s' fs)"
  by (induction step s es rule: run.induct) (auto split: Option.bind_splits)

lemma reach_run: "run step s0 es = Some s \<Longrightarrow> reach step s0 s"
proof (induction es arbitrary: s rule: rev_induct)
  case Nil
  then show ?case by (auto intro: reach.start)
next
  case (snoc e es)
  then show ?case
    by (auto simp: run_append bind_eq_Some_conv intro: reach.step)
qed

lemma run_reach: "reach step s0 s \<Longrightarrow> \<exists>es. run step s0 es = Some s"
proof (induction rule: reach.induct)
  case start
  then show ?case by (intro exI [of _ "[]"]) simp
next
  case (step s e s')
  then obtain es where "run step s0 es = Some s" by blast
  with step(2) show ?case by (intro exI [of _ "es @ [e]"]) (simp add: run_append)
qed

locale ranked_machine =
  fixes step :: "'s \<Rightarrow> 'e \<Rightarrow> 's option"
    and init :: 's
    and reset :: 'e
    and rank :: "'s \<Rightarrow> nat"
    and top :: nat
  assumes recovers: "step s reset = Some init"
    and raises: "step s e = Some s' \<Longrightarrow> e \<noteq> reset \<Longrightarrow> rank s < rank s'"
    and bounded: "rank s \<le> top"
begin

lemma run_raises: "run step s es = Some s' \<Longrightarrow> reset \<notin> set es \<Longrightarrow> rank s + length es \<le> rank s'"
proof (induction es arbitrary: s)
  case (Cons e es)
  then obtain t where t: "step s e = Some t" "run step t es = Some s'"
    by (auto simp: bind_eq_Some_conv)
  with Cons have "rank s < rank t" "rank t + length es \<le> rank s'"
    using raises by auto
  then show ?case by simp
qed simp

text \<open>Without the recovery event every run ends: the machine is acyclic.\<close>

lemma run_bounded: "run step s es = Some s' \<Longrightarrow> reset \<notin> set es \<Longrightarrow> length es \<le> top - rank s"
  using run_raises [of s es s'] bounded [of s'] by simp

lemma no_cycle: "run step s es = Some s \<Longrightarrow> reset \<notin> set es \<Longrightarrow> es = []"
  using run_raises [of s es s] by simp

lemma recover: "run step s es = Some s' \<Longrightarrow> run step s (es @ [reset]) = Some init"
  by (simp add: run_append recovers)

end

section \<open>The order lifecycle\<close>

datatype order_status = Cart | Placed | Shipped | Delivered | Cancelled | Stray

datatype order_event = Place | Ship | Deliver | Cancel | Reset

fun order_step :: "order_status \<Rightarrow> order_event \<Rightarrow> order_status option" where
  "order_step Cart Place = Some Placed"
| "order_step Placed Ship = Some Shipped"
| "order_step Shipped Deliver = Some Delivered"
| "order_step Cart Cancel = Some Cancelled"
| "order_step Placed Cancel = Some Cancelled"
| "order_step _ Reset = Some Cart"
| "order_step _ _ = None"

fun order_rank :: "order_status \<Rightarrow> nat" where
  "order_rank Cart = 0"
| "order_rank Placed = 1"
| "order_rank Shipped = 2"
| "order_rank Delivered = 3"
| "order_rank Cancelled = 3"
| "order_rank Stray = 3"

interpretation orders: ranked_machine order_step Cart Reset order_rank 3
proof unfold_locales
  show "order_step s Reset = Some Cart" for s by (cases s) auto
  show "order_rank s < order_rank s'" if "order_step s e = Some s'" "e \<noteq> Reset" for s e s'
    using that by (cases s; cases e) auto
  show "order_rank s \<le> 3" for s by (cases s) auto
qed

lemma order_reach: "reach order_step Cart s \<longleftrightarrow> s \<noteq> Stray"
proof
  show "s \<noteq> Stray" if "reach order_step Cart s"
    using that
  proof (induction rule: reach.induct)
    case (step s e s')
    then show ?case by (cases s; cases e) auto
  qed simp
  have r: "run order_step Cart (case s of Cart \<Rightarrow> [] | Placed \<Rightarrow> [Place] | Shipped \<Rightarrow> [Place, Ship]
      | Delivered \<Rightarrow> [Place, Ship, Deliver] | Cancelled \<Rightarrow> [Cancel] | Stray \<Rightarrow> [Ship]) = Some s"
    if "s \<noteq> Stray"
    using that by (cases s) auto
  show "reach order_step Cart s" if "s \<noteq> Stray"
    by (rule reach_run, rule r, rule that)
qed

section \<open>The typestate projection\<close>

datatype cart_ts = Cart_ts u64
datatype placed_ts = Placed_ts u64
datatype shipped_ts = Shipped_ts u64
datatype delivered_ts = Delivered_ts u64
datatype cancelled_ts = Cancelled_ts u64

fun cart_place :: "cart_ts \<Rightarrow> placed_ts" where
  "cart_place (Cart_ts i) = Placed_ts i"

fun cart_cancel :: "cart_ts \<Rightarrow> cancelled_ts" where
  "cart_cancel (Cart_ts i) = Cancelled_ts i"

fun placed_ship :: "placed_ts \<Rightarrow> shipped_ts" where
  "placed_ship (Placed_ts i) = Shipped_ts i"

fun placed_cancel :: "placed_ts \<Rightarrow> cancelled_ts" where
  "placed_cancel (Placed_ts i) = Cancelled_ts i"

fun shipped_deliver :: "shipped_ts \<Rightarrow> delivered_ts" where
  "shipped_deliver (Shipped_ts i) = Delivered_ts i"

text \<open>The value of any of the structs: which one it is, and its row id.\<close>

datatype ts = TsCart cart_ts | TsPlaced placed_ts | TsShipped shipped_ts | TsDelivered delivered_ts
  | TsCancelled cancelled_ts

fun ts_status :: "ts \<Rightarrow> order_status" where
  "ts_status (TsCart _) = Cart"
| "ts_status (TsPlaced _) = Placed"
| "ts_status (TsShipped _) = Shipped"
| "ts_status (TsDelivered _) = Delivered"
| "ts_status (TsCancelled _) = Cancelled"

fun ts_id :: "ts \<Rightarrow> u64" where
  "ts_id (TsCart (Cart_ts i)) = i"
| "ts_id (TsPlaced (Placed_ts i)) = i"
| "ts_id (TsShipped (Shipped_ts i)) = i"
| "ts_id (TsDelivered (Delivered_ts i)) = i"
| "ts_id (TsCancelled (Cancelled_ts i)) = i"

text \<open>The method of a struct for an event, where the projection has one.\<close>

fun ts_call :: "ts \<Rightarrow> order_event \<Rightarrow> ts option" where
  "ts_call (TsCart c) Place = Some (TsPlaced (cart_place c))"
| "ts_call (TsCart c) Cancel = Some (TsCancelled (cart_cancel c))"
| "ts_call (TsPlaced p) Ship = Some (TsShipped (placed_ship p))"
| "ts_call (TsPlaced p) Cancel = Some (TsCancelled (placed_cancel p))"
| "ts_call (TsShipped s) Deliver = Some (TsDelivered (shipped_deliver s))"
| "ts_call _ _ = None"

lemma ts_call_step:
  "e \<noteq> Reset \<Longrightarrow> map_option ts_status (ts_call t e) = order_step (ts_status t) e"
  by (cases t; cases e) auto

lemma ts_call_id: "ts_call t e = Some t' \<Longrightarrow> ts_id t' = ts_id t"
proof (induction t e rule: ts_call.induct)
  case (1 c)
  then show ?case by (cases c) auto
next
  case (2 c)
  then show ?case by (cases c) auto
next
  case (3 p)
  then show ?case by (cases p) auto
next
  case (4 p)
  then show ?case by (cases p) auto
next
  case (5 s)
  then show ?case by (cases s) auto
qed auto

section \<open>The driver's stage machine\<close>

datatype pipeline_stage = Idle | Reflecting | Checked | Emitted | Tied | Failed string

datatype pipeline_event = Reflect | Check | Emit | Tie | PipelineReset

fun pipeline_step :: "pipeline_stage \<Rightarrow> pipeline_event \<Rightarrow> pipeline_stage option" where
  "pipeline_step Idle Reflect = Some Reflecting"
| "pipeline_step Reflecting Check = Some Checked"
| "pipeline_step Checked Emit = Some Emitted"
| "pipeline_step Emitted Tie = Some Tied"
| "pipeline_step _ PipelineReset = Some Idle"
| "pipeline_step _ _ = None"

fun pipeline_rank :: "pipeline_stage \<Rightarrow> nat" where
  "pipeline_rank Idle = 0"
| "pipeline_rank Reflecting = 1"
| "pipeline_rank Checked = 2"
| "pipeline_rank Emitted = 3"
| "pipeline_rank Tied = 4"
| "pipeline_rank (Failed _) = 4"

interpretation pipeline: ranked_machine pipeline_step Idle PipelineReset pipeline_rank 4
proof unfold_locales
  show "pipeline_step s PipelineReset = Some Idle" for s by (cases s) auto
  show "pipeline_rank s < pipeline_rank s'" if "pipeline_step s e = Some s'" "e \<noteq> PipelineReset" for s e s'
    using that by (cases s; cases e) auto
  show "pipeline_rank s \<le> 4" for s by (cases s) auto
qed

text \<open>Each stage but the first has one predecessor, so a run into it passed through all of them.\<close>

lemma pipeline_pred:
  assumes "run pipeline_step Idle (es @ [e]) = Some s" "s \<noteq> Idle"
  shows "\<exists>p. run pipeline_step Idle es = Some p \<and>
    (p, e, s) \<in> {(Idle, Reflect, Reflecting), (Reflecting, Check, Checked), (Checked, Emit, Emitted), (Emitted, Tie, Tied)}"
proof -
  obtain p where p: "run pipeline_step Idle es = Some p" "pipeline_step p e = Some s"
    using assms(1) by (auto simp: run_append bind_eq_Some_conv)
  then show ?thesis using assms(2) by (cases p; cases e) auto
qed

lemma pipeline_history:
  assumes "run pipeline_step Idle es = Some s" "s \<noteq> Idle"
  obtains es' e p where "es = es' @ [e]" "run pipeline_step Idle es' = Some p"
    "(p, e, s) \<in> {(Idle, Reflect, Reflecting), (Reflecting, Check, Checked), (Checked, Emit, Emitted), (Emitted, Tie, Tied)}"
proof (cases es rule: rev_cases)
  case Nil
  then show thesis using assms by simp
next
  case (snoc es' e)
  then show thesis using pipeline_pred [of es' e s] assms that by blast
qed

lemma pipeline_tied:
  "run pipeline_step Idle es = Some Tied \<longleftrightarrow>
    (\<exists>pre. es = pre @ [Reflect, Check, Emit, Tie] \<and> run pipeline_step Idle pre = Some Idle)"
proof
  assume "run pipeline_step Idle es = Some Tied"
  then obtain es1 where 1: "es = es1 @ [Tie]" "run pipeline_step Idle es1 = Some Emitted"
    by (rule pipeline_history) auto
  from 1(2) obtain es2 where 2: "es1 = es2 @ [Emit]" "run pipeline_step Idle es2 = Some Checked"
    by (rule pipeline_history) auto
  from 2(2) obtain es3 where 3: "es2 = es3 @ [Check]" "run pipeline_step Idle es3 = Some Reflecting"
    by (rule pipeline_history) auto
  from 3(2) obtain es4 where 4: "es3 = es4 @ [Reflect]" "run pipeline_step Idle es4 = Some Idle"
    by (rule pipeline_history) auto
  show "\<exists>pre. es = pre @ [Reflect, Check, Emit, Tie] \<and> run pipeline_step Idle pre = Some Idle"
    using 1 2 3 4 by auto
qed (auto simp: run_append)

lemma pipeline_reach: "reach pipeline_step Idle s \<longleftrightarrow> (\<forall>w. s \<noteq> Failed w)"
proof
  show "\<forall>w. s \<noteq> Failed w" if "reach pipeline_step Idle s"
    using that
  proof (induction rule: reach.induct)
    case (step s e s')
    then show ?case by (cases s; cases e) auto
  qed simp
  have r: "run pipeline_step Idle (take (pipeline_rank s) [Reflect, Check, Emit, Tie]) = Some s"
    if "\<forall>w. s \<noteq> Failed w"
    using that by (cases s) auto
  show "reach pipeline_step Idle s" if "\<forall>w. s \<noteq> Failed w"
    by (rule reach_run, rule r, rule that)
qed

end
