(* ===== verification/Circuit.thy ===== *)
theory Circuit
  imports Prelude
begin

text \<open>
  The stream circuits of \<open>circuit_generated.rs\<close>: dynamically typed values, the nodes, and
  \<open>eval\<close>, which evaluates a circuit at a tick over an input stream.  Integers are 64-bit and
  wrap, as \<open>i64\<close> does in a release build.  A closure over a stream is the stream function.
  The memo of a feedback loop is an iteration with fuel: at tick \<open>n\<close> it runs with fuel
  \<open>n + 1\<close>, and \<open>feedback_fix\<close> shows that this solves the fixed-point equation the
  memoized recursion computes, because every node is causal (\<open>eval_causal\<close>).

  For circuits over scalars the abstract specification is the stream calculus itself:
  \<open>den\<close> maps integer streams to integer streams, \<open>eval\<close> refines it (\<open>eval_den\<close>), and in it
  the incrementalization laws are proved: the chain rule and the collapse on linear
  circuits.
\<close>

section \<open>Values\<close>

datatype cval = I i64 | P cval cval

definition cval_zero :: cval where
  "cval_zero = I 0"

fun cval_fst :: "cval \<Rightarrow> cval" where
  "cval_fst (P a b) = a"
| "cval_fst v = v"

fun cval_snd :: "cval \<Rightarrow> cval" where
  "cval_snd (P a b) = b"
| "cval_snd v = v"

fun cval_add :: "cval \<Rightarrow> cval \<Rightarrow> cval" where
  "cval_add (I x) (I y) = I (x + y)"
| "cval_add (P a1 b1) (P a2 b2) = P (cval_add a1 a2) (cval_add b1 b2)"
| "cval_add v _ = v"

fun cval_sub :: "cval \<Rightarrow> cval \<Rightarrow> cval" where
  "cval_sub (I x) (I y) = I (x - y)"
| "cval_sub (P a1 b1) (P a2 b2) = P (cval_sub a1 a2) (cval_sub b1 b2)"
| "cval_sub v _ = v"

section \<open>Circuits\<close>

datatype node =
    Delay | Derivative | Integral | Incremental node | Lift "i64 \<Rightarrow> i64"
  | Seq node node | Par node node | Feedback node

type_synonym cstream = "nat \<Rightarrow> cval"

text \<open>The prefix sum, started from the zero value.\<close>

fun integrated :: "cstream \<Rightarrow> cstream" where
  "integrated s 0 = cval_add cval_zero (s 0)"
| "integrated s (Suc i) = cval_add (integrated s i) (s (Suc i))"

definition delayed :: "cstream \<Rightarrow> cstream" where
  "delayed s n = (if n = 0 then cval_zero else s (n - 1))"

text \<open>The memoized loop: \<open>body\<close> reads the input paired with the delayed output.\<close>

fun feedback_go :: "(cstream \<Rightarrow> cstream) \<Rightarrow> cstream \<Rightarrow> nat \<Rightarrow> cstream" where
  "feedback_go body s 0 i = cval_zero"
| "feedback_go body s (Suc fuel) i =
     body (\<lambda>j. P (s j) (delayed (feedback_go body s fuel) j)) i"

primrec eval :: "node \<Rightarrow> cstream \<Rightarrow> cstream" where
  "eval Delay s n = delayed s n"
| "eval Derivative s n = cval_sub (s n) (delayed s n)"
| "eval Integral s n = integrated s n"
| "eval (Incremental g) s n =
     cval_sub (eval g (integrated s) n) (delayed (eval g (integrated s)) n)"
| "eval (Lift f) s n = (case s n of I x \<Rightarrow> I (f x) | v \<Rightarrow> v)"
| "eval (Seq f g) s n = eval g (eval f s) n"
| "eval (Par f g) s n = P (eval f (\<lambda>i. cval_fst (s i)) n) (eval g (\<lambda>i. cval_snd (s i)) n)"
| "eval (Feedback body) s n = feedback_go (eval body) s (Suc n) n"

definition demo_line_total :: "i64 \<Rightarrow> i64" where
  "demo_line_total x = x * x"

definition demo_double :: "i64 \<Rightarrow> i64" where
  "demo_double x = 2 * x"

definition order_total_circuit :: node where
  "order_total_circuit = Seq (Lift demo_line_total) (Seq (Lift demo_double) Integral)"

definition order_total_incremental :: node where
  "order_total_incremental = Seq (Incremental (Lift demo_line_total)) (Seq (Lift demo_double) Integral)"

section \<open>Causality and feedback\<close>

lemma integrated_cong: "(\<And>j. j \<le> n \<Longrightarrow> s j = t j) \<Longrightarrow> integrated s n = integrated t n"
  by (induction n) auto

lemma delayed_cong: "(\<And>j. j < n \<Longrightarrow> s j = t j) \<Longrightarrow> delayed s n = delayed t n"
  by (cases n) (auto simp: delayed_def)

lemma feedback_cong:
  assumes "\<And>s t n. (\<And>j. j \<le> n \<Longrightarrow> s j = t j) \<Longrightarrow> body s n = body t n"
  shows "(\<And>j. j \<le> i \<Longrightarrow> s j = t j) \<Longrightarrow> feedback_go body s k i = feedback_go body t k i"
proof (induction k arbitrary: i)
  case (Suc k)
  then show ?case
    by (auto intro!: assms delayed_cong)
qed simp

lemma eval_causal: "(\<And>j. j \<le> n \<Longrightarrow> s j = t j) \<Longrightarrow> eval c s n = eval c t n"
proof (induction c arbitrary: s t n)
  case Delay
  then show ?case by (auto intro: delayed_cong)
next
  case Derivative
  then show ?case using delayed_cong [of n s t] by simp
next
  case Integral
  then show ?case using integrated_cong [of n s t] by simp
next
  case (Incremental g)
  have i: "integrated s j = integrated t j" if "j \<le> n" for j
    using that Incremental.prems by (intro integrated_cong) auto
  have "eval g (integrated s) n = eval g (integrated t) n"
    using i by (intro Incremental.IH) auto
  moreover have "delayed (eval g (integrated s)) n = delayed (eval g (integrated t)) n"
    using i by (intro delayed_cong Incremental.IH) auto
  ultimately show ?case by simp
next
  case (Seq f g)
  show ?case
    unfolding eval.simps using Seq.prems by (intro Seq.IH(2) Seq.IH(1)) auto
next
  case (Par f g)
  have "eval f (\<lambda>i. cval_fst (s i)) n = eval f (\<lambda>i. cval_fst (t i)) n"
    using Par.prems by (intro Par.IH(1)) simp
  moreover have "eval g (\<lambda>i. cval_snd (s i)) n = eval g (\<lambda>i. cval_snd (t i)) n"
    using Par.prems by (intro Par.IH(2)) simp
  ultimately show ?case by simp
next
  case (Feedback b)
  show ?case
    unfolding eval.simps using Feedback.prems by (intro feedback_cong Feedback.IH) auto
qed simp

text \<open>Fuel beyond the tick changes nothing.\<close>

lemma feedback_fuel:
  assumes "\<And>s t n. (\<And>j. j \<le> n \<Longrightarrow> s j = t j) \<Longrightarrow> body s n = body t n"
  shows "i < k \<Longrightarrow> i < l \<Longrightarrow> feedback_go body s k i = feedback_go body s l i"
proof (induction i arbitrary: k l rule: less_induct)
  case (less i)
  obtain k' l' where kl: "k = Suc k'" "l = Suc l'"
    using less.prems by (metis less_imp_Suc_add)
  have "feedback_go body s k' j = feedback_go body s l' j" if "j < i" for j
    using that less.prems kl by (intro less.IH) auto
  then show ?case
    unfolding kl feedback_go.simps by (intro assms) (auto intro!: delayed_cong)
qed

lemma feedback_fix:
  "eval (Feedback b) s n = eval b (\<lambda>j. P (s j) (delayed (eval (Feedback b) s) j)) n"
proof -
  have fuel: "feedback_go (eval b) s n j = eval (Feedback b) s j" if "j < n" for j
    unfolding eval.simps using that by (intro feedback_fuel eval_causal) auto
  have step: "P (s j) (delayed (feedback_go (eval b) s n) j) = P (s j) (delayed (eval (Feedback b) s) j)"
    if "j \<le> n" for j
    using that fuel delayed_cong [of j "feedback_go (eval b) s n" "eval (Feedback b) s"]
    by (simp del: eval.simps)
  have "eval (Feedback b) s n = eval b (\<lambda>j. P (s j) (delayed (feedback_go (eval b) s n) j)) n"
    by simp
  also have "\<dots> = eval b (\<lambda>j. P (s j) (delayed (eval (Feedback b) s) j)) n"
    using step by (rule eval_causal)
  finally show ?thesis .
qed

section \<open>Scalar circuits and their stream semantics\<close>

type_synonym istream = "nat \<Rightarrow> i64"

definition deriv :: "istream \<Rightarrow> istream" where
  "deriv x n = x n - (if n = 0 then 0 else x (n - 1))"

definition integ :: "istream \<Rightarrow> istream" where
  "integ x n = (\<Sum>j\<le>n. x j)"

lemma deriv_integ: "deriv (integ x) = x"
proof
  fix n
  show "deriv (integ x) n = x n"
    by (cases n) (simp_all add: deriv_def integ_def)
qed

lemma integ_deriv: "integ (deriv x) = x"
proof
  fix n
  show "integ (deriv x) n = x n"
    by (induction n) (simp_all add: integ_def deriv_def)
qed

text \<open>Circuits without pairs, and what they compute on integer streams.\<close>

primrec scalar :: "node \<Rightarrow> bool" where
  "scalar Delay = True"
| "scalar Derivative = True"
| "scalar Integral = True"
| "scalar (Incremental g) = scalar g"
| "scalar (Lift f) = True"
| "scalar (Seq f g) = (scalar f \<and> scalar g)"
| "scalar (Par f g) = False"
| "scalar (Feedback b) = False"

primrec den :: "node \<Rightarrow> istream \<Rightarrow> istream" where
  "den Delay x = (\<lambda>n. if n = 0 then 0 else x (n - 1))"
| "den Derivative x = deriv x"
| "den Integral x = integ x"
| "den (Incremental g) x = deriv (den g (integ x))"
| "den (Lift f) x = (\<lambda>n. f (x n))"
| "den (Seq f g) x = den g (den f x)"
| "den (Par f g) x = x"
| "den (Feedback b) x = x"

lemma integrated_I: "integrated (\<lambda>n. I (x n)) = (\<lambda>n. I (integ x n))"
proof
  fix n
  show "integrated (\<lambda>n. I (x n)) n = I (integ x n)"
    by (induction n) (simp_all add: integ_def cval_zero_def add.commute)
qed

lemma delayed_I: "delayed (\<lambda>n. I (x n)) = (\<lambda>n. I (if n = 0 then 0 else x (n - 1)))"
  by (auto simp: delayed_def cval_zero_def)

lemma eval_Seq: "eval (Seq f g) s = eval g (eval f s)"
  by (simp add: fun_eq_iff)

lemma eval_Incremental:
  "eval (Incremental g) s = (\<lambda>n. cval_sub (eval g (integrated s) n) (delayed (eval g (integrated s)) n))"
  by (simp add: fun_eq_iff)

lemma eval_den: "scalar c \<Longrightarrow> eval c (\<lambda>n. I (x n)) = (\<lambda>n. I (den c x n))"
proof (induction c arbitrary: x)
  case (Incremental g)
  then have g: "eval g (\<lambda>n. I (integ x n)) = (\<lambda>n. I (den g (integ x) n))" by simp
  show ?case
    unfolding eval_Incremental integrated_I g delayed_I by (rule ext) (simp add: deriv_def)
next
  case (Seq f g)
  then show ?case unfolding eval_Seq by simp
qed (auto simp: fun_eq_iff integrated_I delayed_I deriv_def)

text \<open>The chain rule, and the collapse on circuits that commute with integration.\<close>

lemma den_chain: "den (Incremental (Seq f g)) x = den (Seq (Incremental f) (Incremental g)) x"
  by (simp add: integ_deriv)

primrec linear :: "node \<Rightarrow> bool" where
  "linear Delay = True"
| "linear Derivative = True"
| "linear Integral = True"
| "linear (Incremental g) = linear g"
| "linear (Lift f) = (\<forall>a b. f (a + b) = f a + f b)"
| "linear (Seq f g) = (linear f \<and> linear g)"
| "linear (Par f g) = False"
| "linear (Feedback b) = False"

lemma additive_sum:
  fixes f :: "i64 \<Rightarrow> i64"
  assumes "\<And>a b. f (a + b) = f a + f b"
  shows "f (\<Sum>j\<le>n. x j) = (\<Sum>j\<le>(n::nat). f (x j))"
  by (induction n) (simp_all add: assms)

lemma linear_integ: "linear c \<Longrightarrow> den c (integ x) = integ (den c x)"
proof (induction c arbitrary: x)
  case Delay
  have "(if n = 0 then 0 else integ x (n - 1)) = integ (\<lambda>n. if n = 0 then 0 else x (n - 1)) n" for n
    by (cases n) (simp_all add: integ_def sum.atMost_Suc_shift del: sum.atMost_Suc)
  then show ?case by (simp add: fun_eq_iff)
next
  case Derivative
  then show ?case by (simp add: deriv_integ integ_deriv)
next
  case Integral
  then show ?case by simp
next
  case (Incremental g)
  then show ?case by (simp add: deriv_integ integ_deriv)
next
  case (Lift f)
  then show ?case by (simp add: fun_eq_iff integ_def additive_sum)
qed simp_all

lemma den_linear: "linear c \<Longrightarrow> den (Incremental c) x = den c x"
  by (simp add: linear_integ deriv_integ)

lemma linear_scalar: "linear c \<Longrightarrow> scalar c"
  by (induction c) auto

lemma incremental_chain:
  assumes "scalar f" "scalar g"
  shows "eval (Incremental (Seq f g)) (\<lambda>n. I (x n)) = eval (Seq (Incremental f) (Incremental g)) (\<lambda>n. I (x n))"
  using assms eval_den [of "Incremental (Seq f g)" x] eval_den [of "Seq (Incremental f) (Incremental g)" x]
    den_chain [of f g x] by simp

lemma incremental_linear:
  assumes "linear c"
  shows "eval (Incremental c) (\<lambda>n. I (x n)) = eval c (\<lambda>n. I (x n))"
  using assms eval_den [of "Incremental c" x] eval_den [of c x] den_linear [of c x] linear_scalar [of c] by simp

end
