(* ===== verification/MachineTheorems.thy ===== *)
theory MachineTheorems
  imports Machines Circuit Records
begin

text \<open>
  The properties of the generated modules: the lifecycle, typestate and stage machines, the
  stream circuit and its incrementalization, and the ticks of the record updates against
  the registered invariants.
\<close>

section \<open>The state machines\<close>

lemma order_progress: "(\<exists>e. e \<noteq> Reset \<and> order_step s e \<noteq> None) \<longleftrightarrow> s \<in> {Cart, Placed, Shipped}"
proof -
  have "e = Reset \<or> s \<in> {Cart, Placed, Shipped}" if "order_step s e \<noteq> None" for e
    using that by (cases s; cases e) simp_all
  moreover have "order_step Cart Place \<noteq> None" "order_step Placed Ship \<noteq> None" "order_step Shipped Deliver \<noteq> None" by simp_all
  ultimately show ?thesis by blast
qed

text \<open>C39: The order lifecycle.  From an empty cart exactly the five named states are reachable, never the stray one; a delivered
  or cancelled order accepts only the reset, and every other reachable state accepts some other event, so an order is
  never stuck before its end; and without a reset a history has at most three events and never returns to a state it left.\<close>

theorem order_lifecycle:
  "(reach order_step Cart s \<longleftrightarrow> s \<noteq> Stray) \<and>
   (order_step Delivered e \<noteq> None \<longleftrightarrow> e = Reset) \<and> (order_step Cancelled e \<noteq> None \<longleftrightarrow> e = Reset) \<and>
   ((\<exists>e'. e' \<noteq> Reset \<and> order_step s e' \<noteq> None) \<longleftrightarrow> s \<in> {Cart, Placed, Shipped}) \<and>
   (\<forall>es t. run order_step s es = Some t \<and> Reset \<notin> set es \<longrightarrow>
      length es \<le> 3 - order_rank s \<and> (t = s \<longrightarrow> es = []))"
  using order_reach [of s] order_progress [of s] orders.run_bounded [of s] orders.no_cycle [of s] by (cases e) auto

theorem order_lifecycle_witness:
  "reach order_step Cart Shipped \<and> order_step Delivered Ship = None \<and>
    length [Deliver] \<le> 3 - order_rank Shipped"
proof -
  have "run order_step Shipped [Deliver] = Some Delivered \<and> Reset \<notin> set [Deliver]" by simp
  then show ?thesis using order_lifecycle [of Shipped Ship] by blast
qed

text \<open>The typestate projection.  Calling the method of an event on a struct moves to the struct of exactly the state
  the machine steps to and keeps the row id, a method exists exactly when the machine accepts the event, and
  so every sequence of calls that type-checks is a run of the machine.\<close>

theorem typestate_agrees:
  assumes "e \<noteq> Reset"
  shows "map_option ts_status (ts_call t e) = order_step (ts_status t) e \<and>
    (case ts_call t e of None \<Rightarrow> order_step (ts_status t) e = None | Some t' \<Rightarrow> ts_id t' = ts_id t)"
  using ts_call_step [OF assms, of t] ts_call_id [of t e] by (auto split: option.splits)

theorem typestate_agrees_witness:
  "map_option ts_status (ts_call (TsPlaced (Placed_ts 7)) Ship) = order_step Placed Ship \<and>
    ts_id (TsShipped (placed_ship (Placed_ts 7))) = 7"
  using typestate_agrees [of Ship "TsPlaced (Placed_ts 7)"] by simp

text \<open>The driver's stages.  A history of the stage machine ends in the tied state exactly when its last four events are reflect, check,
  emit and tie, in that order and from the idle state, so no artifact is tied without having been checked and emitted;
  a failed stage is never reached by stepping, and without a reset at most four steps are possible.\<close>

theorem pipeline_ties_in_order:
  "(run pipeline_step Idle es = Some Tied \<longleftrightarrow>
      (\<exists>pre. es = pre @ [Reflect, Check, Emit, Tie] \<and> run pipeline_step Idle pre = Some Idle)) \<and>
   (reach pipeline_step Idle s \<longleftrightarrow> (\<forall>w. s \<noteq> Failed w)) \<and>
   run pipeline_step s [PipelineReset] = Some Idle \<and>
   (run pipeline_step Idle es = None \<or> PipelineReset \<in> set es \<or> length es \<le> 4)"
  using pipeline_tied [of es] pipeline_reach [of s] pipeline.recovers [of s] pipeline.run_bounded [of Idle es]
  by (cases "run pipeline_step Idle es") auto

section \<open>The circuit\<close>

text \<open>C12: The certified incrementalization.  On every stream of 64-bit integers, with wrap-around, the incremental order-total circuit
  computes at each tick exactly the incremental form of the batch circuit: its output change for the input change.\<close>

theorem incrementalization_correct:
  "eval order_total_incremental (\<lambda>n. I (x n)) k = eval (Incremental order_total_circuit) (\<lambda>n. I (x n)) k"
proof -
  have lin: "linear (Seq (Lift demo_double) Integral)"
    by (simp add: demo_double_def distrib_left)
  have sc: "scalar (Lift demo_line_total)" "scalar (Incremental (Lift demo_line_total))" by simp_all
  have "eval (Incremental order_total_circuit) (\<lambda>n. I (x n)) =
      eval (Incremental (Seq (Lift demo_double) Integral)) (eval (Incremental (Lift demo_line_total)) (\<lambda>n. I (x n)))"
    unfolding order_total_circuit_def incremental_chain [OF sc(1) linear_scalar [OF lin]] eval_Seq ..
  also have "\<dots> = eval (Seq (Lift demo_double) Integral) (eval (Incremental (Lift demo_line_total)) (\<lambda>n. I (x n)))"
    unfolding eval_den [OF sc(2)] by (rule incremental_linear [OF lin])
  also have "\<dots> = eval order_total_incremental (\<lambda>n. I (x n))"
    by (simp only: order_total_incremental_def eval_Seq)
  finally show ?thesis by simp
qed

text \<open>Incrementalization of scalar circuits.  For circuits without pairs the incremental form of a composition is the composition
  of the incremental forms, and a linear circuit is its own incremental form.\<close>

theorem incremental_laws:
  assumes "scalar f" "scalar g" "linear c"
  shows "eval (Incremental (Seq f g)) (\<lambda>n. I (x n)) = eval (Seq (Incremental f) (Incremental g)) (\<lambda>n. I (x n)) \<and>
    eval (Incremental c) (\<lambda>n. I (x n)) = eval c (\<lambda>n. I (x n))"
  using incremental_chain [OF assms(1,2)] incremental_linear [OF assms(3)] by blast

theorem incremental_laws_witness:
  "eval (Incremental (Seq (Lift demo_line_total) Delay)) (\<lambda>n. I (word_of_nat n)) =
      eval (Seq (Incremental (Lift demo_line_total)) (Incremental Delay)) (\<lambda>n. I (word_of_nat n)) \<and>
    eval (Incremental (Seq (Lift demo_double) Integral)) (\<lambda>n. I (word_of_nat n)) =
      eval (Seq (Lift demo_double) Integral) (\<lambda>n. I (word_of_nat n))"
  by (rule incremental_laws) (simp_all add: demo_double_def distrib_left)

text \<open>Feedback.  Evaluation is causal: a circuit's output at a tick depends only on the input up to that tick.  Hence the memoized loop of a feedback
  node terminates and its output is the solution of the loop's equation at every tick: the body applied to the input paired with the delayed output.\<close>

theorem feedback_solves:
  "eval (Feedback b) s n = eval b (\<lambda>j. P (s j) (delayed (eval (Feedback b) s) j)) n \<and>
   eval c s n = eval c (\<lambda>j. if j \<le> n then s j else arbitrary_tail j) n"
  using feedback_fix [of b s n] eval_causal [of n s "\<lambda>j. if j \<le> n then s j else arbitrary_tail j" c] by simp

text \<open>Integration of pairs.  The accumulator starts from the scalar zero, and adding a pair to a scalar returns the scalar; so the integral
  of a stream of pairs is the scalar zero at every tick, and a sum over pairs, which the typed circuits allow, is lost.\<close>

theorem integral_loses_pairs:
  "eval Integral (\<lambda>n. P (a n) (b n)) k = I 0 \<and>
   eval (Incremental (Par f g)) (\<lambda>n. P (a n) (b n)) k = eval (Incremental (Par f g)) (\<lambda>n. P (a' n) (b' n)) k"
proof -
  have "integrated (\<lambda>n. P (c n) (d n)) = (\<lambda>n. I 0)" for c d
  proof
    fix n
    show "integrated (\<lambda>n. P (c n) (d n)) n = I 0"
      by (induction n) (simp_all add: cval_zero_def)
  qed
  then show ?thesis by simp
qed

section \<open>Ticks and invariants\<close>

text \<open>A tick of the users against their invariants.  Names and tags never change, an email changes only to the name of a row
  with a long enough name, and a second tick changes nothing; but a valid user whose id exceeds 100 is invalid
  after the tick, its id being reset to zero, while every other valid user stays valid.\<close>

theorem tick_user_breaks_id:
  assumes "validate_user r"
  shows "\<exists>r'. tick_user [r] = [r'] \<and> tick_user [r'] = [r'] \<and>
    user_name r' = user_name r \<and> user_tags r' = user_tags r \<and> user_email r' = user_name r \<and>
    (validate_user r' \<longleftrightarrow> user_id r \<le> 100) \<and> check_name_min_length r'"
  using assms
  by (auto simp: tick_user_map validate_user_def check_name_min_length_def not_less)

theorem tick_user_breaks_id_witness:
  "\<exists>r'. tick_user [\<lparr>user_id = 200, user_name = str ''alice'', user_email = [], user_tags = []\<rparr>] = [r'] \<and>
    tick_user [r'] = [r'] \<and> user_name r' = str ''alice'' \<and> user_tags r' = [] \<and> user_email r' = str ''alice'' \<and>
    (validate_user r' \<longleftrightarrow> (200 :: u64) \<le> 100) \<and> check_name_min_length r'"
  using tick_user_breaks_id [of "\<lparr>user_id = 200, user_name = str ''alice'', user_email = [], user_tags = []\<rparr>"]
  by (simp add: validate_user_def str_len_def str_def as_bytes_def utf8_char_def Let_def)

text \<open>A tick of the flags.  It establishes the rollout bound on every row whatever the input, preserves the validity of a row and every
  other field, changes no row that satisfies the bound, and a second tick changes nothing.\<close>

theorem tick_flag_clamps:
  "list_all check_rollout_le_100 (tick_flag rs) \<and> tick_flag (tick_flag rs) = tick_flag rs \<and>
   map flag_key (tick_flag rs) = map flag_key rs \<and>
   (list_all check_rollout_le_100 rs \<longleftrightarrow> tick_flag rs = rs) \<and>
   list_all (\<lambda>(r, r'). validate_flag r' \<longleftrightarrow> check_key_nonempty r) (zip rs (tick_flag rs))"
proof -
  have row: "r\<lparr>flag_rollout := if 100 < flag_rollout r then 100 else flag_rollout r\<rparr> = r \<longleftrightarrow> \<not> 100 < flag_rollout r" for r
    by (cases r) auto
  show ?thesis
    unfolding tick_flag_map
    by (induction rs) (auto simp: check_rollout_le_100_def validate_flag_def check_key_nonempty_def row)
qed

end
