(* ===== verification/OracleTheorems.thy ===== *)
theory OracleTheorems
  imports Oracle
begin

text \<open>
  The properties of the differential oracle: what the table-driven comparison means, that a
  verdict is a true witness of a divergence, and that the manifest's surface string is the
  canonical one the host compares.
\<close>

section \<open>Comparison\<close>

lemma compare_full: "compare_outcomes Full e g \<longleftrightarrow> e = g"
proof -
  obtain x p where e: "e = \<lparr>oc_error = x, oc_payload = p\<rparr>" by (cases e)
  obtain y q where g: "g = \<lparr>oc_error = y, oc_payload = q\<rparr>" by (cases g)
  show ?thesis
    unfolding e g compare_outcomes_def COMPARE_TABLE_def compare_row_def
    by (cases x; cases y) auto
qed

lemma compare_modes:
  "(compare_outcomes Ignore e g \<longleftrightarrow> \<not> (oc_error e = None \<and> oc_error g = None \<and> oc_payload e \<noteq> oc_payload g)) \<and>
   (compare_outcomes Identity e g \<longleftrightarrow> oc_error e = oc_error g) \<and>
   (compare_outcomes Full e g \<longleftrightarrow> e = g)"
proof -
  obtain x p where e: "e = \<lparr>oc_error = x, oc_payload = p\<rparr>" by (cases e)
  obtain y q where g: "g = \<lparr>oc_error = y, oc_payload = q\<rparr>" by (cases g)
  show ?thesis
    unfolding e g compare_outcomes_def COMPARE_TABLE_def compare_row_def
    by (cases x; cases y) auto
qed

text \<open>C38: The comparison modes.  The table-driven fold is total and means: ignore passes when either side is an error or the payloads agree,
  identity passes when the two sides carry the same error or none, and full passes exactly on equal outcomes, so
  full implies identity and identity of two values implies ignore only with equal payloads.\<close>

theorem compare_meaning:
  "(compare_outcomes Ignore e g \<longleftrightarrow> \<not> (oc_error e = None \<and> oc_error g = None \<and> oc_payload e \<noteq> oc_payload g)) \<and>
   (compare_outcomes Identity e g \<longleftrightarrow> oc_error e = oc_error g) \<and>
   (compare_outcomes Full e g \<longleftrightarrow> e = g)"
  using compare_modes by blast

lemma first_diff_loop_shift: "first_diff_loop (k + i) xs ys = map_option ((+) k) (first_diff_loop i xs ys)"
proof (induction i xs ys arbitrary: k rule: first_diff_loop.induct)
  case (4 i x xs y ys)
  then show ?case using "4.IH" [of k] by (simp add: add.assoc)
qed auto

lemma first_diff_loop_None: "first_diff_loop i xs ys = None \<longleftrightarrow> xs = ys"
  by (induction i xs ys rule: first_diff_loop.induct) auto

lemma first_diff_loop_Some:
  "first_diff_loop i xs ys = Some k \<Longrightarrow> i \<le> k \<and>
    take (k - i) xs = take (k - i) ys \<and> (k - i < length xs \<or> k - i < length ys) \<and>
    (k - i < length xs \<and> k - i < length ys \<longrightarrow> xs ! (k - i) \<noteq> ys ! (k - i))"
proof (induction i xs ys rule: first_diff_loop.induct)
  case (4 i x xs y ys)
  show ?case
  proof (cases "x = y")
    case True
    with 4 have "i + 1 \<le> k \<and> take (k - (i + 1)) xs = take (k - (i + 1)) ys \<and>
        (k - (i + 1) < length xs \<or> k - (i + 1) < length ys) \<and>
        (k - (i + 1) < length xs \<and> k - (i + 1) < length ys \<longrightarrow> xs ! (k - (i + 1)) \<noteq> ys ! (k - (i + 1)))"
      by simp
    moreover define m where "m = k - (i + 1)"
    ultimately have "k - i = Suc m" "take m xs = take m ys" "m < length xs \<or> m < length ys"
      "m < length xs \<and> m < length ys \<longrightarrow> xs ! m \<noteq> ys ! m" "i \<le> k"
      by auto
    then show ?thesis using True by auto
  qed (use "4.prems" in auto)
qed auto

lemma chars_inject: "chars a = chars b \<longleftrightarrow> a = b"
  by (metis concat_chars)

text \<open>C37: Verdicts.  In full mode there is no verdict exactly for equal outcomes, in identity mode exactly when
  both sides have the same error or both none, and in ignore mode exactly when a side is an error or the
  payloads agree.  A verdict in any mode carries both outcomes, its
  category is determined by which sides are errors and whether their identities agree, and its offset is none
  exactly when the payloads agree and otherwise the first character at which they differ (the end of the
  shorter one, if it is a prefix of the other).\<close>

theorem verdict_witnesses:
  "(verdict Full e g = None \<longleftrightarrow> e = g) \<and>
   (verdict Identity e g = None \<longleftrightarrow> oc_error e = oc_error g) \<and>
   (verdict Ignore e g = None \<longleftrightarrow> \<not> (oc_error e = None \<and> oc_error g = None \<and> oc_payload e \<noteq> oc_payload g)) \<and>
   (\<forall>mode d. verdict mode e g = Some d \<longrightarrow>
    dv_expected d = e \<and> dv_observed d = g \<and>
    (dv_category d = ValueMismatch \<longleftrightarrow> oc_error e = None \<and> oc_error g = None) \<and>
    (dv_category d = ExpectedValueGotError \<longleftrightarrow> oc_error e = None \<and> oc_error g \<noteq> None) \<and>
    (dv_category d = ExpectedErrorGotValue \<longleftrightarrow> oc_error e \<noteq> None \<and> oc_error g = None) \<and>
    (dv_category d = ErrorPayloadMismatch \<longleftrightarrow> oc_error e = oc_error g \<and> oc_error e \<noteq> None) \<and>
    (dv_payload_diff_at d = None \<longleftrightarrow> oc_payload e = oc_payload g) \<and>
    (\<forall>k. dv_payload_diff_at d = Some k \<longrightarrow>
      take k (chars (oc_payload e)) = take k (chars (oc_payload g)) \<and>
      (k < length (chars (oc_payload e)) \<or> k < length (chars (oc_payload g))) \<and>
      (k < length (chars (oc_payload e)) \<and> k < length (chars (oc_payload g)) \<longrightarrow>
        chars (oc_payload e) ! k \<noteq> chars (oc_payload g) ! k)))"
proof -
  have none: "verdict mode e g = None \<longleftrightarrow> compare_outcomes mode e g" for mode
    by (simp add: verdict_def)
  have cat: "classify e g = (case (oc_error e, oc_error g) of (None, None) \<Rightarrow> ValueMismatch
      | (None, Some _) \<Rightarrow> ExpectedValueGotError | (Some _, None) \<Rightarrow> ExpectedErrorGotValue
      | (Some x, Some y) \<Rightarrow> if x = y then ErrorPayloadMismatch else ErrorIdentityMismatch)"
    unfolding classify_def CLASSIFY_TABLE_def by (cases "oc_error e"; cases "oc_error g") simp_all
  have some: "d = \<lparr>dv_expected = e, dv_observed = g, dv_category = classify e g,
      dv_payload_diff_at = first_diff_at (oc_payload e) (oc_payload g)\<rparr>" if "verdict mode e g = Some d" for mode d
    using that by (auto simp: verdict_def split: if_splits)
  note diff = first_diff_loop_Some [of 0 "chars (oc_payload e)" "chars (oc_payload g)"]
  show ?thesis
  proof (intro conjI allI impI)
    fix mode d assume "verdict mode e g = Some d"
    note d = some [OF this]
    show "dv_expected d = e" "dv_observed d = g"
      "dv_category d = ValueMismatch \<longleftrightarrow> oc_error e = None \<and> oc_error g = None"
      "dv_category d = ExpectedValueGotError \<longleftrightarrow> oc_error e = None \<and> oc_error g \<noteq> None"
      "dv_category d = ExpectedErrorGotValue \<longleftrightarrow> oc_error e \<noteq> None \<and> oc_error g = None"
      "dv_category d = ErrorPayloadMismatch \<longleftrightarrow> oc_error e = oc_error g \<and> oc_error e \<noteq> None"
      "dv_payload_diff_at d = None \<longleftrightarrow> oc_payload e = oc_payload g"
      by (auto simp: d cat first_diff_at_def first_diff_loop_None chars_inject split: option.splits)
    fix k assume k: "dv_payload_diff_at d = Some k"
    show "take k (chars (oc_payload e)) = take k (chars (oc_payload g))"
      "k < length (chars (oc_payload e)) \<or> k < length (chars (oc_payload g))"
      using k diff [of k] by (simp_all add: d first_diff_at_def)
    assume "k < length (chars (oc_payload e)) \<and> k < length (chars (oc_payload g))"
    then show "chars (oc_payload e) ! k \<noteq> chars (oc_payload g) ! k"
      using k diff [of k] by (simp add: d first_diff_at_def)
  qed (simp_all only: none compare_modes)
qed

theorem verdict_witnesses_witness:
  "\<exists>d. verdict Full (outcome_value ''42'') (outcome_value ''43'') = Some d \<and>
    dv_category d = ValueMismatch \<and> dv_payload_diff_at d = Some 1"
proof -
  let ?e = "outcome_value ''42''" and ?g = "outcome_value ''43''"
  have "chars ''42'' = [''4'', ''2'']" "chars ''43'' = [''4'', ''3'']"
    by (simp_all add: is_continuation_def)
  then have v: "verdict Full ?e ?g = Some \<lparr>dv_expected = ?e, dv_observed = ?g, dv_category = classify ?e ?g,
      dv_payload_diff_at = Some 1\<rparr>"
    by (simp add: verdict_def outcome_value_def first_diff_at_def compare_full)
  show ?thesis
    using verdict_witnesses [of ?e ?g] v by (fastforce simp: outcome_value_def)
qed

section \<open>The manifest's surface\<close>

text \<open>One row of the manifest, once its two fields are there.\<close>

definition see :: "string \<Rightarrow> nat \<Rightarrow> surface \<Rightarrow> surface" where
  "see f n seen = (if f \<in> fst ` set seen then seen else seen @ [(f, n)])"

lemma surface_loop_Cons:
  "surface_loop js i (row # rows) seen = Inr ps \<longleftrightarrow>
    (\<exists>f args. js_str js (js_index js row ''fn'') = Some f \<and> js_array js (js_index js row ''args'') = Some args \<and>
      surface_loop js (i + 1) rows (see f (length args) seen) = Inr ps)"
proof -
  have "list_ex (\<lambda>(g, _). g = f) seen \<longleftrightarrow> f \<in> fst ` set seen" for f
    by (force simp: list_ex_iff)
  then show ?thesis
    by (simp add: row_str_def row_arr_def and_then_eq_Inr see_def)
qed

lemma surface_loop_spec:
  "surface_loop js i rows seen = Inr ps \<Longrightarrow> distinct (map fst seen) \<Longrightarrow>
    distinct (map fst ps) \<and>
    set (map fst ps) = set (map fst seen) \<union> {f. \<exists>r \<in> set rows. js_str js (js_index js r ''fn'') = Some f}"
proof (induction rows arbitrary: i seen)
  case (Cons row rows)
  from Cons.prems(1) obtain f args where f: "js_str js (js_index js row ''fn'') = Some f"
    and args: "js_array js (js_index js row ''args'') = Some args"
    and rest: "surface_loop js (i + 1) rows (see f (length args) seen) = Inr ps"
    using surface_loop_Cons [of js i row rows seen ps] by fast
  have "distinct (map fst (see f (length args) seen))" "set (map fst (see f (length args) seen)) = insert f (set (map fst seen))"
    using Cons.prems(2) by (auto simp: see_def)
  with Cons.IH [OF rest] show ?case
    using f by auto
qed simp

lemma surface_loop_ok:
  "surface_loop js i rows seen = Inr ps \<Longrightarrow> list_all (\<lambda>(f, n). surface_name_ok f \<and> n < 2 ^ 64) seen \<Longrightarrow>
    list_all (\<lambda>r. pred_option surface_name_ok (js_str js (js_index js r ''fn''))) rows \<Longrightarrow>
    list_all (\<lambda>r. pred_option (\<lambda>as. length as < 2 ^ 64) (js_array js (js_index js r ''args''))) rows \<Longrightarrow>
    list_all (\<lambda>(f, n). surface_name_ok f \<and> n < 2 ^ 64) ps"
proof (induction rows arbitrary: i seen)
  case (Cons row rows)
  from Cons.prems(1) obtain f args where f: "js_str js (js_index js row ''fn'') = Some f"
    and args: "js_array js (js_index js row ''args'') = Some args"
    and rest: "surface_loop js (i + 1) rows (see f (length args) seen) = Inr ps"
    using surface_loop_Cons [of js i row rows seen ps] by fast
  have "list_all (\<lambda>(f, n). surface_name_ok f \<and> n < 2 ^ 64) (see f (length args) seen)"
    using Cons.prems(2-4) f args by (simp add: see_def)
  from Cons.IH [OF rest this] show ?case
    using Cons.prems(3,4) by simp
qed simp

text \<open>The manifest's surface.  When every row has its fields, the surface string is the canonical rendering of a list that names each replayed
  function exactly once; the host's parser reads back exactly that list, so the string the driver hashes and the expectation the host
  checks are the same format.\<close>

theorem manifest_surface_canonical:
  assumes "manifest_surface js rows = Inr s"
    and "list_all (\<lambda>r. pred_option surface_name_ok (js_str js (js_index js r ''fn''))) rows"
    and "list_all (\<lambda>r. pred_option (\<lambda>as. length as < 2 ^ 64) (js_array js (js_index js r ''args''))) rows"
  shows "\<exists>ps. s = render_surface ps \<and> parse_surface s = ps \<and> distinct (map fst ps) \<and>
    set (map fst ps) = {f. \<exists>r \<in> set rows. js_str js (js_index js r ''fn'') = Some f}"
proof -
  obtain ps where ps: "surface_loop js 0 rows [] = Inr ps" "s = render_surface ps"
    using assms(1) by (auto simp: manifest_surface_def and_then_eq_Inr render_surface_def)
  have spec: "distinct (map fst ps)" "set (map fst ps) = {f. \<exists>r \<in> set rows. js_str js (js_index js r ''fn'') = Some f}"
    using surface_loop_spec [OF ps(1)] by simp_all
  have "list_all (\<lambda>(f, n). surface_name_ok f \<and> n < 2 ^ 64) ps"
    using surface_loop_ok [OF ps(1)] assms(2,3) by simp
  then show ?thesis
    using ps spec parse_render_surface by blast
qed

text \<open>Two rows of one function and one of another.\<close>

definition demo_rows :: "json_doc list" where
  "demo_rows =
    (let r = (\<lambda>f args. JObj [(''fn'', JStr f), (''args'', JArr (map JStr args)), (''expected'', JStr ''0'')])
     in [r ''total'' [''1'', ''2'', ''3''], r ''greet'' [''1''], r ''total'' [''4'', ''5'', ''6'']])"

theorem manifest_surface_canonical_witness:
  "\<exists>s ps. manifest_surface (doc_ops (\<lambda>_. None) (\<lambda>_. [])) demo_rows = Inr s \<and>
    s = render_surface ps \<and> parse_surface s = ps \<and> distinct (map fst ps) \<and> ''greet'' \<in> set (map fst ps)"
proof -
  let ?js = "doc_ops (\<lambda>_. None) (\<lambda>_. [])"
  have "surface_loop ?js 0 demo_rows [] = Inr [(''total'', 3), (''greet'', 1)]"
    by (simp add: demo_rows_def row_str_def row_arr_def)
  then have s: "manifest_surface ?js demo_rows = Inr (render_surface [(''total'', 3), (''greet'', 1)])"
    unfolding manifest_surface_def render_surface_def by simp
  have "list_all (\<lambda>r. pred_option surface_name_ok (js_str ?js (js_index ?js r ''fn''))) demo_rows"
    "list_all (\<lambda>r. pred_option (\<lambda>as. length as < 2 ^ 64) (js_array ?js (js_index ?js r ''args''))) demo_rows"
    by (simp_all add: demo_rows_def surface_name_ok_def)
  from manifest_surface_canonical [OF s this] obtain ps where
    "render_surface [(''total'', 3), (''greet'', 1)] = render_surface ps"
    "parse_surface (render_surface [(''total'', 3), (''greet'', 1)]) = ps" "distinct (map fst ps)"
    "set (map fst ps) = {f. \<exists>r \<in> set demo_rows. js_str ?js (js_index ?js r ''fn'') = Some f}"
    by blast
  moreover have "js_str ?js (js_index ?js (demo_rows ! 1) ''fn'') = Some ''greet''" "demo_rows ! 1 \<in> set demo_rows"
    by (simp_all add: demo_rows_def)
  ultimately show ?thesis using s by blast
qed

end
