(* ===== verification/Replay.thy ===== *)
theory Replay
  imports Runtime
begin

text \<open>
  The driver of the differential oracle on the component runtime
  (\<open>crates/oracle-runner/src/main.rs\<close>): the replay of one manifest row, the stream drain,
  the loop of \<open>probe\<close>, the row lookup of \<open>explain\<close>, the command line and the exit codes.

  The replay runs on the state of \<open>Runtime\<close>: the shared engine with its epoch and the
  runtime with its instance, fuel and deadline, which every row leaves to the next.  Time
  is the argument \<open>clock\<close>: how many intervals of the engine's threads pass before row \<open>i\<close>.
  The concurrent calls of the engine, with the chunks of the stream they return, are the
  record \<open>concurrent\<close>.  A panic of the driver is an outcome of its own.
\<close>

section \<open>Outcomes of a row\<close>

text \<open>
  What the runtime answers to a call: a trap, the results, or for the stream functions
  the drained items, already rendered.
\<close>

datatype answer = Trapped | Results "wval list" | Drained "string list"

definition outcome_of :: "float_ops \<Rightarrow> answer \<Rightarrow> outcome" where
  "outcome_of fo a = (case a of
       Drained items \<Rightarrow> outcome_value (''('' @ join '','' items @ '')'')
     | Results (v # _) \<Rightarrow> outcome_value (ser_val fo v)
     | Results [] \<Rightarrow> outcome_value ''?''
     | Trapped \<Rightarrow> outcome_trap)"

section \<open>The stream drain\<close>

record gateway_user =
  gu_id :: u64
  gu_name :: string
  gu_email :: string
  gu_tags :: "string list"

definition render_user :: "gateway_user \<Rightarrow> string" where
  "render_user u = ''{ id='' @ show_nat (unat (gu_id u)) @ '', name='' @ gu_name u @ '', email='' @ gu_email u @
     '', tags=('' @ join '','' (gu_tags u) @ '') }''"

text \<open>
  \<open>poll_consume\<close>: the chunk read from the source joins the drained items; an empty chunk
  ends the stream when it is finished and waits otherwise.  \<open>drain_chunks\<close> runs it over the
  chunks of a stream.
\<close>

datatype poll = Pending | Dropped | Completed

definition poll_consume :: "('a \<Rightarrow> string) \<Rightarrow> 'a list \<Rightarrow> bool \<Rightarrow> string list \<Rightarrow> poll \<times> string list" where
  "poll_consume show_item buf finish out =
     (if buf = [] then (if finish then Dropped else Pending, out) else (Completed, out @ map show_item buf))"

fun drain_chunks :: "('a \<Rightarrow> string) \<Rightarrow> 'a list list \<Rightarrow> string list \<Rightarrow> string list" where
  "drain_chunks show_item [] out = snd (poll_consume show_item [] True out)"
| "drain_chunks show_item (buf # bufs) out = drain_chunks show_item bufs (snd (poll_consume show_item buf False out))"

section \<open>The replay of a row\<close>

text \<open>
  The engine's concurrent operations: a call, given the epoch, the deadline, the fuel and
  the one result slot, and the chunks of the stream it returned, as integers or as users.
\<close>

record 'i concurrent =
  cc_call :: "nat \<Rightarrow> nat \<Rightarrow> u64 \<Rightarrow> 'i \<Rightarrow> string \<Rightarrow> wval list \<Rightarrow> wval \<Rightarrow> (string + wval) \<times> 'i \<times> u64"
  cc_u64 :: "nat \<Rightarrow> nat \<Rightarrow> u64 \<Rightarrow> 'i \<Rightarrow> (string + u64 list list) \<times> 'i \<times> u64"
  cc_users :: "nat \<Rightarrow> nat \<Rightarrow> u64 \<Rightarrow> 'i \<Rightarrow> (string + gateway_user list list) \<times> 'i \<times> u64"
  cc_debug :: "wval \<Rightarrow> string"

type_synonym 'i host_state = "host_engine \<times> 'i component_runtime"

datatype replay_fault = Failed string | Panicked string

text \<open>The runtime after an operation of the engine.\<close>

definition after_op :: "'i host_state \<Rightarrow> 'i \<Rightarrow> u64 \<Rightarrow> 'i host_state" where
  "after_op st i fuel = (fst st, (snd st)\<lparr>cr_instance := Some i, cr_fuel := fuel\<rparr>)"

definition drain_answer :: "'i concurrent \<Rightarrow> string \<Rightarrow> 'i host_state \<Rightarrow> 'i \<Rightarrow> (replay_fault + answer) \<times> 'i host_state" where
  "drain_answer cc f st i = (case st of (en, rt) \<Rightarrow>
     if f = ''watch-counts'' then
       (case cc_u64 cc (he_epoch en) (cr_deadline rt) (cr_fuel rt) i of (r, i', fuel) \<Rightarrow>
         (and_then (map_err Failed r) (\<lambda>bufs. Inr (Drained (drain_chunks (\<lambda>n. show_nat (unat n)) bufs []))), after_op st i' fuel))
     else
       (case cc_users cc (he_epoch en) (cr_deadline rt) (cr_fuel rt) i of (r, i', fuel) \<Rightarrow>
         (and_then (map_err Failed r) (\<lambda>bufs. Inr (Drained (drain_chunks render_user bufs []))), after_op st i' fuel)))"

definition stream_answer :: "('c, 'i) wasmtime \<Rightarrow> 'i concurrent \<Rightarrow> string \<Rightarrow> wval list \<Rightarrow> 'i host_state \<Rightarrow>
    (replay_fault + answer) \<times> 'i host_state" where
  "stream_answer wt cc f args st = (case st of (en, rt) \<Rightarrow> case cr_instance rt of
       None \<Rightarrow> (Inl (Panicked ''instance''), st)
     | Some i \<Rightarrow>
         if wt_results wt i f = None then (Inl (Failed (''oracle replay: export `'' @ f @ ''` missing on the component'')), st)
         else let slot = (if f = ''watch-counts'' then WU64 0 else WList []) in
           (case cc_call cc (he_epoch en) (cr_deadline rt) (cr_fuel rt) i f args slot of
              (Inl e, i', fuel) \<Rightarrow> (Inl (Failed e), after_op st i' fuel)
            | (Inr v, i', fuel) \<Rightarrow>
                if v = WStream then drain_answer cc f (after_op st i' fuel) i'
                else (Inl (Failed (f @ '': not a stream: '' @ cc_debug cc v)), after_op st i' fuel)))"

definition replay_answer :: "('c, 'i) wasmtime \<Rightarrow> 'i concurrent \<Rightarrow> string \<Rightarrow> wval list \<Rightarrow> 'i host_state \<Rightarrow>
    (replay_fault + answer) \<times> 'i host_state" where
  "replay_answer wt cc f args st =
     (if f = ''watch-counts'' \<or> f = ''watch-users'' then stream_answer wt cc f args st
      else case rt_call wt f args st of
          (Inr results, st') \<Rightarrow> (Inr (Results results), st')
        | (Inl _, st') \<Rightarrow> (Inr Trapped, st'))"

definition replay_row :: "float_ops \<Rightarrow> ('c, 'i) wasmtime \<Rightarrow> 'i concurrent \<Rightarrow> string \<Rightarrow> wval list \<Rightarrow> 'i host_state \<Rightarrow>
    (replay_fault + outcome) \<times> 'i host_state" where
  "replay_row fo wt cc f args st = (case replay_answer wt cc f args st of
     (r, st') \<Rightarrow> (and_then r (\<lambda>a. Inr (outcome_of fo a)), st'))"

section \<open>The probe loop\<close>

datatype run_error = RowFault oracle_fault | ReplayFault replay_fault

text \<open>\<open>n\<close> intervals of the engine's threads.\<close>

definition elapse :: "nat \<Rightarrow> 'i host_state \<Rightarrow> 'i host_state" where
  "elapse n st = ((tick ^^ n) (fst st), snd st)"

text \<open>The loop of \<open>probe\<close> from row \<open>i\<close> on: the number of failed rows.\<close>

fun probe_loop :: "float_ops \<Rightarrow> ('c, 'i) wasmtime \<Rightarrow> 'i concurrent \<Rightarrow> (nat \<Rightarrow> nat) \<Rightarrow> bool \<Rightarrow> nat \<Rightarrow> mrow list \<Rightarrow> nat \<Rightarrow>
    'i host_state \<Rightarrow> (run_error + nat) \<times> 'i host_state" where
  "probe_loop fo wt cc clock as_rows i [] failures st = (Inr failures, st)"
| "probe_loop fo wt cc clock as_rows i (row # rows) failures st =
     (case build_args fo (mr_fn row) (mr_args row) of
        Inl e \<Rightarrow> (Inl (RowFault e), st)
      | Inr args \<Rightarrow> (case replay_row fo wt cc (mr_fn row) args (elapse (clock i) st) of
          (Inl e, st') \<Rightarrow> (Inl (ReplayFault e), st')
        | (Inr got, st') \<Rightarrow>
            let expected = outcome_value (mr_expected row);
                failed = (if as_rows then \<not> compare_outcomes Full expected got else verdict Full expected got \<noteq> None)
            in probe_loop fo wt cc clock as_rows (i + 1) rows (if failed then failures + 1 else failures) st'))"

text \<open>The row that \<open>explain\<close> reruns: by index, or by function and arguments.\<close>

datatype lookup_error = NoRowAt nat nat | BadId | NoSuchRow string

fun find_row :: "nat \<Rightarrow> string \<Rightarrow> string list \<Rightarrow> mrow list \<Rightarrow> (nat \<times> mrow) option" where
  "find_row i f want [] = None"
| "find_row i f want (r # rs) =
     (if mr_fn r = f \<and> mr_args r = want then Some (i, r) else find_row (i + 1) f want rs)"

definition explain_row :: "string \<Rightarrow> mrow list \<Rightarrow> lookup_error + nat \<times> mrow" where
  "explain_row ident rows = (case parse_u64 ident of
       Some i \<Rightarrow> if i < length rows then Inr (i, rows ! i) else Inl (NoRowAt i (length rows))
     | None \<Rightarrow>
         if CHR '':'' \<notin> set ident then Inl BadId
         else let f = takeWhile (\<lambda>c. c \<noteq> CHR '':'') ident; args = tl (dropWhile (\<lambda>c. c \<noteq> CHR '':'') ident);
                  want = (if args = [] then [] else split_on (CHR '','') args)
              in ok_or (find_row 0 f want rows) (NoSuchRow ident))"

section \<open>The command line\<close>

record cli =
  cli_manifest :: string
  cli_component :: string
  cli_rest :: "string list"

datatype cli_error = NeedsPath string

fun parse_flags :: "string list \<Rightarrow> cli \<Rightarrow> cli_error + cli" where
  "parse_flags [] c = Inr c"
| "parse_flags (a # as) c =
     (if a = ''--manifest'' then
        (case as of [] \<Rightarrow> Inl (NeedsPath a) | p # as' \<Rightarrow> parse_flags as' (c\<lparr>cli_manifest := p\<rparr>))
      else if a = ''--component'' then
        (case as of [] \<Rightarrow> Inl (NeedsPath a) | p # as' \<Rightarrow> parse_flags as' (c\<lparr>cli_component := p\<rparr>))
      else parse_flags as (c\<lparr>cli_rest := cli_rest c @ [a]\<rparr>))"

definition DEFAULT_CLI :: "string \<Rightarrow> cli" where
  "DEFAULT_CLI root = \<lparr>cli_manifest = root @ ''/lean/wasm-backend/artifact/diff.json'',
     cli_component = root @ ''/lean/wasm-backend/artifact/demo.component.wasm'', cli_rest = []\<rparr>"

text \<open>
  The process.  \<open>or_files\<close> reads a text file and \<open>or_read\<close> a binary one, \<open>or_engine\<close> is the
  construction of an engine, \<open>or_load\<close> compiles a component, \<open>or_lean\<close> is the run of the
  Lean oracle, when it is built.  The result is the exit code: 2 for a missing or unknown
  command, 1 for any error or a divergence, 101 for a panic.
\<close>

record ('j, 'c, 'i) oracle_env =
  or_json :: "'j json_ops"
  or_parse :: "string \<Rightarrow> string + 'j list"
  or_floats :: float_ops
  or_files :: "string \<Rightarrow> string + string"
  or_read :: "string \<Rightarrow> string + string"
  or_engine :: "string + unit"
  or_load :: "string \<Rightarrow> string + 'c"
  or_wt :: "('c, 'i) wasmtime"
  or_cc :: "'i concurrent"
  or_clock :: "nat \<Rightarrow> nat"
  or_lean :: "string \<Rightarrow> string list \<Rightarrow> string \<Rightarrow> string + unit"
  or_root :: string

datatype main_error =
    InputFault oracle_fault | CliFault cli_error | UsageShown | SetupFailed string | HostFailed host_fault
  | RunFailed run_error | LookupFailed lookup_error | LeanFailed string

definition read_rows :: "('j, 'c, 'i) oracle_env \<Rightarrow> string \<Rightarrow> main_error + 'j list" where
  "read_rows env p = and_then (map_err SetupFailed (or_files env p)) (\<lambda>raw. map_err SetupFailed (or_parse env raw))"

definition manifest_of :: "('j, 'c, 'i) oracle_env \<Rightarrow> cli \<Rightarrow> main_error + mrow list" where
  "manifest_of env c = map_err InputFault (load_manifest (or_json env) (or_parse env) (or_files env (cli_manifest c)))"

definition surface_of_rows :: "('j, 'c, 'i) oracle_env \<Rightarrow> cli \<Rightarrow> main_error + string" where
  "surface_of_rows env c = and_then (read_rows env (cli_manifest c)) (\<lambda>rows.
     map_err InputFault (manifest_surface (or_json env) rows))"

text \<open>A fresh engine, the component, a runtime without capabilities, instantiated.\<close>

definition start_runtime :: "('j, 'c, 'i) oracle_env \<Rightarrow> cli \<Rightarrow> main_error + 'i host_state" where
  "start_runtime env c =
     and_then (map_err SetupFailed (or_engine env)) (\<lambda>_.
     and_then (map_err SetupFailed (or_read env (cli_component c))) (\<lambda>bs.
     and_then (map_err SetupFailed (or_load env bs)) (\<lambda>comp.
     let en = \<lparr>he_epoch = 0, he_threads = 0\<rparr> in
     and_then (map_err HostFailed (runtime_new (or_wt env) en CAP_NONE)) (\<lambda>rt.
       case instantiate (or_wt env) comp (en, rt) of
         (Inl e, _) \<Rightarrow> Inl (HostFailed e)
       | (Inr _, st) \<Rightarrow> Inr st))))"

definition probe_cmd :: "('j, 'c, 'i) oracle_env \<Rightarrow> cli \<Rightarrow> main_error + nat" where
  "probe_cmd env c =
     and_then (case cli_rest c of
         [] \<Rightarrow> Inr ''rows''
       | r # rs \<Rightarrow> if r = ''--compare'' then (case rs of [] \<Rightarrow> Inl UsageShown | m # _ \<Rightarrow> Inr m) else Inl UsageShown) (\<lambda>as.
     if as \<noteq> ''rows'' \<and> as \<noteq> ''verdict'' then Inl UsageShown else
     and_then (surface_of_rows env c) (\<lambda>_.
     and_then (manifest_of env c) (\<lambda>rows.
     and_then (start_runtime env c) (\<lambda>st.
     and_then (map_err RunFailed (fst (probe_loop (or_floats env) (or_wt env) (or_cc env) (or_clock env) (as = ''rows'') 0 rows 0 st)))
       (\<lambda>failures. Inr (if 0 < failures then 1 else 0))))))"

definition explain_cmd :: "('j, 'c, 'i) oracle_env \<Rightarrow> cli \<Rightarrow> main_error + nat" where
  "explain_cmd env c =
     and_then (case cli_rest c of [] \<Rightarrow> Inl UsageShown | ident # _ \<Rightarrow> Inr ident) (\<lambda>ident.
     and_then (surface_of_rows env c) (\<lambda>_.
     and_then (manifest_of env c) (\<lambda>rows.
     and_then (map_err LookupFailed (explain_row ident rows)) (\<lambda>(i, row).
     and_then (start_runtime env c) (\<lambda>st.
     and_then (map_err (RunFailed \<circ> RowFault) (build_args (or_floats env) (mr_fn row) (mr_args row))) (\<lambda>args.
     and_then (map_err (RunFailed \<circ> ReplayFault)
         (fst (replay_row (or_floats env) (or_wt env) (or_cc env) (mr_fn row) args (elapse (or_clock env 0) st)))) (\<lambda>got.
     and_then (map_err LeanFailed (or_lean env (mr_fn row) (mr_args row)
         (if oc_error got \<noteq> None then ''@trap'' else oc_payload got))) (\<lambda>_.
       Inr (if verdict Full (outcome_value (mr_expected row)) got \<noteq> None then 1 else 0)))))))))"

text \<open>An error of \<open>main\<close> exits with 1; only a panic does not.\<close>

definition exit_code :: "main_error + nat \<Rightarrow> nat" where
  "exit_code r = (case r of
       Inr n \<Rightarrow> n
     | Inl (RunFailed (ReplayFault (Panicked _))) \<Rightarrow> 101
     | Inl _ \<Rightarrow> 1)"

text \<open>
  The arguments after the program's name are byte strings: \<open>std::env::args\<close> panics when
  one of them is not UTF-8, before anything else is done.
\<close>

definition oracle_main :: "('j, 'c, 'i) oracle_env \<Rightarrow> string list \<Rightarrow> nat" where
  "oracle_main env argv = (if \<not> list_all utf8_valid argv then 101 else case argv of
       [] \<Rightarrow> 2
     | cmd # rest \<Rightarrow> exit_code (and_then (map_err CliFault (parse_flags rest (DEFAULT_CLI (or_root env)))) (\<lambda>c.
           if cmd = ''schema-surface'' then and_then (surface_of_rows env c) (\<lambda>_. Inr 0)
           else if cmd = ''probe'' then probe_cmd env c
           else if cmd = ''explain'' then explain_cmd env c
           else Inr 2)))"

end
