(* ===== verification/ReplayTheorems.thy ===== *)
theory ReplayTheorems
  imports Replay RuntimeTheorems OracleTheorems
begin

text \<open>
  The properties of the oracle driver on the component runtime: when the replay of a
  manifest exits with success, that a replay outlasting an epoch interval never does, what
  a trap does to the run, and which exit codes there are.
\<close>

section \<open>What a row leaves behind\<close>

text \<open>An operation of the replay keeps the engine, the deadline and that there is an instance.\<close>

definition keeps :: "'i host_state \<Rightarrow> 'i host_state \<Rightarrow> bool" where
  "keeps st st' \<longleftrightarrow> fst st' = fst st \<and> cr_deadline (snd st') = cr_deadline (snd st) \<and>
     (cr_instance (snd st) = None \<longleftrightarrow> cr_instance (snd st') = None)"

lemma keeps_refl: "keeps st st"
  by (simp add: keeps_def)

lemma keeps_trans: "keeps st st1 \<Longrightarrow> keeps st1 st2 \<Longrightarrow> keeps st st2"
  by (simp add: keeps_def)

lemma keeps_after_op: "cr_instance (snd st) \<noteq> None \<Longrightarrow> keeps st (after_op st i fuel)"
  by (simp add: keeps_def after_op_def)

lemma after_op_instance: "cr_instance (snd (after_op st i fuel)) \<noteq> None"
  by (simp add: after_op_def)

lemma keeps_rt_call: "keeps st (snd (rt_call wt f args st))"
  by (cases st) (auto simp: keeps_def rt_call_def Let_def split: option.split sum.split prod.split)

lemma keeps_drain: "cr_instance (snd st) \<noteq> None \<Longrightarrow> keeps st (snd (drain_answer cc f st i))"
  by (cases st) (auto simp: drain_answer_def intro: keeps_after_op split: prod.split)

lemma keeps_stream: "keeps st (snd (stream_answer wt cc f args st))"
proof (cases st)
  case (Pair en rt)
  show ?thesis
  proof (cases "cr_instance rt")
    case None
    then show ?thesis by (simp add: Pair stream_answer_def keeps_refl)
  next
    case (Some i)
    let ?st = "(en, rt)"
    obtain r j fuel where c: "cc_call cc (he_epoch en) (cr_deadline rt) (cr_fuel rt) i f args
        (if f = ''watch-counts'' then WU64 0 else WList []) = (r, j, fuel)" by (rule prod_cases3)
    have one: "keeps ?st (after_op ?st j fuel)"
      by (rule keeps_after_op) (simp add: Some)
    then have two: "keeps ?st (snd (drain_answer cc f (after_op ?st j fuel) j))"
      by (rule keeps_trans [OF _ keeps_drain]) (rule after_op_instance)
    show ?thesis
      using Some c one two by (simp add: Pair stream_answer_def Let_def keeps_refl split: sum.split)
  qed
qed

text \<open>A row of the replay is a history of the runtime in the sense of \<open>Runtime\<close>: a plain row is a call, a stream row at most
  two uses of the store, so that the runtime's invariant covers the driver.\<close>

lemma after_op_store:
  "cr_instance (snd st) \<noteq> None \<Longrightarrow> after_op st i fuel = host_step wt (OpStore (\<lambda>_ _. (i, fuel))) st"
  by (cases st) (auto simp: after_op_def use_store_def)

lemma drain_history:
  assumes "cr_instance (snd st) \<noteq> None"
  shows "\<exists>g. snd (drain_answer cc f st i) = host_step wt (OpStore g) st"
proof (cases st)
  case (Pair en rt)
  have "\<exists>j fuel. snd (drain_answer cc f st i) = after_op st j fuel"
    by (auto simp: Pair drain_answer_def split: prod.split)
  then show ?thesis using after_op_store [OF assms] by metis
qed

lemma stream_history: "\<exists>gs. snd (stream_answer wt cc f args st) = host_run wt (map OpStore gs) st"
proof (cases st)
  case (Pair en rt)
  have stop: "\<exists>gs. st = host_run wt (map OpStore gs) st"
    by (intro exI [of _ "[]"]) (simp add: host_run_def)
  show ?thesis
  proof (cases "cr_instance rt")
    case None
    then show ?thesis using stop by (simp add: Pair stream_answer_def)
  next
    case (Some i)
    obtain r j fuel where c: "cc_call cc (he_epoch en) (cr_deadline rt) (cr_fuel rt) i f args
        (if f = ''watch-counts'' then WU64 0 else WList []) = (r, j, fuel)" by (rule prod_cases3)
    let ?g = "\<lambda>_ _. (j, fuel)"
    have st: "after_op st j fuel = host_step wt (OpStore ?g) st"
      using Some by (intro after_op_store) (simp add: Pair)
    obtain g where g: "snd (drain_answer cc f (after_op st j fuel) j) = host_step wt (OpStore g) (after_op st j fuel)"
      using drain_history [OF after_op_instance] by metis
    have one: "\<exists>gs. after_op st j fuel = host_run wt (map OpStore gs) st"
      unfolding st by (intro exI [of _ "[?g]"]) (simp add: host_run_def)
    have two: "\<exists>gs. snd (drain_answer cc f (after_op st j fuel) j) = host_run wt (map OpStore gs) st"
      by (intro exI [of _ "[?g, g]"]) (simp only: g list.map host_run_Cons st [symmetric], simp add: host_run_def)
    show ?thesis
      using stop one two Some c by (simp add: Pair stream_answer_def Let_def split: sum.split)
  qed
qed

lemma replay_history:
  "\<exists>ops. snd (replay_row fo wt cc f args st) = host_run wt ops st \<and>
    (ops = [OpCall f args] \<or> (\<exists>gs. ops = map OpStore gs))"
proof (cases "f = ''watch-counts'' \<or> f = ''watch-users''")
  case True
  then show ?thesis
    using stream_history [of wt cc f args st] by (auto simp: replay_row_def replay_answer_def split: prod.split)
next
  case False
  then show ?thesis
    by (intro exI [of _ "[OpCall f args]"])
      (auto simp: replay_row_def replay_answer_def host_run_def split: prod.split sum.split)
qed

lemma keeps_replay: "keeps st (snd (replay_row fo wt cc f args st))"
  using keeps_stream [of st wt cc f args] keeps_rt_call [of st wt f args]
  by (auto simp: replay_row_def replay_answer_def split: prod.split sum.split)

lemma replay_state: "replay_row fo wt cc f args st = (r, st') \<Longrightarrow> keeps st st'"
  using keeps_replay [of st fo wt cc f args] by simp

section \<open>The probe\<close>

text \<open>The rows pass from row \<open>i\<close> on: each builds its arguments, is answered, and has the expected outcome, on the state the previous ones left.\<close>

fun rows_pass :: "float_ops \<Rightarrow> ('c, 'i) wasmtime \<Rightarrow> 'i concurrent \<Rightarrow> (nat \<Rightarrow> nat) \<Rightarrow> nat \<Rightarrow> mrow list \<Rightarrow> 'i host_state \<Rightarrow> bool" where
  "rows_pass fo wt cc clock i [] st = True"
| "rows_pass fo wt cc clock i (row # rows) st = (case build_args fo (mr_fn row) (mr_args row) of
       Inl _ \<Rightarrow> False
     | Inr args \<Rightarrow> (case replay_row fo wt cc (mr_fn row) args (elapse (clock i) st) of
         (Inl _, _) \<Rightarrow> False
       | (Inr got, st') \<Rightarrow> got = outcome_value (mr_expected row) \<and> rows_pass fo wt cc clock (i + 1) rows st'))"

lemma rows_pass_Cons:
  assumes "rows_pass fo wt cc clock i (row # rows) st"
  obtains args got st' where "replay_row fo wt cc (mr_fn row) args (elapse (clock i) st) = (Inr got, st')"
    "got = outcome_value (mr_expected row)" "rows_pass fo wt cc clock (i + 1) rows st'"
proof (cases "build_args fo (mr_fn row) (mr_args row)")
  case (Inr args)
  obtain r st' where r: "replay_row fo wt cc (mr_fn row) args (elapse (clock i) st) = (r, st')" by (rule prod.exhaust)
  show thesis
    using assms Inr r by (cases r) (auto intro: that)
qed (use assms in simp)

lemma failed_iff:
  "(if as_rows then \<not> compare_outcomes Full (outcome_value s) got else verdict Full (outcome_value s) got \<noteq> None) \<longleftrightarrow>
    got \<noteq> outcome_value s"
  by (auto simp: verdict_def compare_full)

lemma probe_step:
  assumes "build_args fo (mr_fn row) (mr_args row) = Inr args"
    "replay_row fo wt cc (mr_fn row) args (elapse (clock i) st) = (Inr got, st')"
  shows "probe_loop fo wt cc clock as_rows i (row # rows) k st =
    probe_loop fo wt cc clock as_rows (i + 1) rows (if got \<noteq> outcome_value (mr_expected row) then k + 1 else k) st'"
  unfolding failed_iff [symmetric, of _ _ as_rows] using assms by (simp add: Let_def)

lemma probe_loop_mono: "fst (probe_loop fo wt cc clock as_rows i rows k st) = Inr n \<Longrightarrow> k \<le> n"
proof (induction rows arbitrary: i k st)
  case (Cons row rows)
  then obtain args got st' where "build_args fo (mr_fn row) (mr_args row) = Inr args"
    "replay_row fo wt cc (mr_fn row) args (elapse (clock i) st) = (Inr got, st')"
    by (auto split: sum.splits prod.splits)
  note step = probe_step [where fo = fo and row = row and args = args and wt = wt and cc = cc and clock = clock and i = i
    and st = st and got = got and st' = st' and as_rows = as_rows and rows = rows and k = k, OF this]
  show ?case
    using Cons.IH [of "i + 1" k st'] Cons.IH [of "i + 1" "k + 1" st'] Cons.prems unfolding step
    by (auto split: if_splits)
qed simp

lemma probe_loop_zero:
  "fst (probe_loop fo wt cc clock as_rows i rows k st) = Inr k \<longleftrightarrow> rows_pass fo wt cc clock i rows st"
proof (induction rows arbitrary: i st)
  case (Cons row rows)
  show ?case
  proof (cases "build_args fo (mr_fn row) (mr_args row)")
    case (Inr args)
    obtain r st' where r: "replay_row fo wt cc (mr_fn row) args (elapse (clock i) st) = (r, st')" by (rule prod.exhaust)
    show ?thesis
    proof (cases r)
      case got: (Inr got)
      show ?thesis
        unfolding probe_step [where fo = fo and row = row and args = args and wt = wt and cc = cc and clock = clock and i = i
          and st = st and got = got and st' = st' and as_rows = as_rows and rows = rows and k = k, OF Inr r [unfolded got]]
        using Cons.IH [of "i + 1" st'] probe_loop_mono [of fo wt cc clock as_rows "i + 1" rows "k + 1" st' k] Inr r got
        by auto
    qed (use Inr r in simp)
  qed simp
qed simp

text \<open>What the start of the runtime establishes.\<close>

definition started :: "'i host_state \<Rightarrow> bool" where
  "started st \<longleftrightarrow> cr_instance (snd st) \<noteq> None \<and> 1 \<le> he_threads (fst st) \<and> cr_deadline (snd st) = 1"

lemma start_runtime_started:
  assumes "start_runtime env c = Inr st"
  shows "started st"
proof -
  obtain comp rt where new: "runtime_new (or_wt env) \<lparr>he_epoch = 0, he_threads = 0\<rparr> CAP_NONE = Inr rt"
    and run: "(case instantiate (or_wt env) comp (\<lparr>he_epoch = 0, he_threads = 0\<rparr>, rt) of
        (Inl e, _) \<Rightarrow> Inl (HostFailed e) | (Inr _, st) \<Rightarrow> Inr st) = Inr st"
    using assms unfolding start_runtime_def Let_def result_simps by blast
  then have inst: "instantiate (or_wt env) comp (\<lparr>he_epoch = 0, he_threads = 0\<rparr>, rt) = (Inr (), st)"
    by (auto split: prod.splits sum.splits)
  have "cr_deadline rt = 1"
    using new by (auto simp: runtime_new_def Let_def result_simps)
  then show ?thesis
    using inst by (auto simp: instantiate_def Let_def started_def start_epoch_thread_def split: prod.splits sum.splits)
qed

lemma started_elapse: "started (elapse n st) \<longleftrightarrow> started st"
proof -
  have "he_threads ((tick ^^ n) en) = he_threads en" for en
    by (induction n) (simp_all add: tick_def)
  then show ?thesis by (simp add: started_def elapse_def)
qed

lemma started_keeps: "keeps st st' \<Longrightarrow> started st \<Longrightarrow> started st'"
  by (auto simp: keeps_def started_def)

lemma started_replay:
  "replay_row fo wt cc f args (elapse n st) = (r, st') \<Longrightarrow> started st \<Longrightarrow> started st'"
  using started_keeps [OF replay_state, of fo wt cc f args "elapse n st" r st'] by (simp add: started_elapse)

lemma probe_cmd_zero:
  "probe_cmd env c = Inr 0 \<longleftrightarrow>
    (\<exists>s rows st. (cli_rest c = [] \<or> (\<exists>m more. cli_rest c = ''--compare'' # m # more \<and> m \<in> {''rows'', ''verdict''})) \<and>
      surface_of_rows env c = Inr s \<and> manifest_of env c = Inr rows \<and> start_runtime env c = Inr st \<and>
      rows_pass (or_floats env) (or_wt env) (or_cc env) (or_clock env) 0 rows st)"
proof -
  let ?mode = "case cli_rest c of [] \<Rightarrow> Inr ''rows''
     | r # rs \<Rightarrow> if r = ''--compare'' then (case rs of [] \<Rightarrow> Inl UsageShown | m # _ \<Rightarrow> Inr m) else Inl UsageShown"
  let ?loop = "\<lambda>as rows st. fst (probe_loop (or_floats env) (or_wt env) (or_cc env) (or_clock env) (as = ''rows'') 0 rows 0 st)"
  let ?run = "\<lambda>as. and_then (surface_of_rows env c) (\<lambda>_. and_then (manifest_of env c) (\<lambda>rows.
     and_then (start_runtime env c) (\<lambda>st. and_then (map_err RunFailed (?loop as rows st)) (\<lambda>failures.
       Inr (if 0 < failures then 1 else (0 :: nat))))))"
  have mode: "?mode = Inr as \<and> (as = ''rows'' \<or> as = ''verdict'') \<longleftrightarrow> (cli_rest c = [] \<and> as = ''rows'') \<or>
      (\<exists>more. cli_rest c = ''--compare'' # as # more \<and> as \<in> {''rows'', ''verdict''})" for as
    by (auto split: list.splits)
  have run: "?run as = Inr 0 \<longleftrightarrow> (\<exists>s rows st. surface_of_rows env c = Inr s \<and> manifest_of env c = Inr rows \<and>
      start_runtime env c = Inr st \<and> rows_pass (or_floats env) (or_wt env) (or_cc env) (or_clock env) 0 rows st)" for as
  proof -
    have "(\<exists>n. ?loop as rows st = Inr n \<and> n = 0) \<longleftrightarrow>
        rows_pass (or_floats env) (or_wt env) (or_cc env) (or_clock env) 0 rows st" for rows st
      using probe_loop_zero [of "or_floats env" "or_wt env" "or_cc env" "or_clock env" "as = ''rows''" 0 rows 0 st] by auto
    then show ?thesis
      by (auto simp: result_simps split: if_splits)
  qed
  have guarded: "and_then x (\<lambda>as. if as \<noteq> a \<and> as \<noteq> b then Inl u else R as) = Inr 0 \<longleftrightarrow>
      (\<exists>as. (x = Inr as \<and> (as = a \<or> as = b)) \<and> R as = Inr 0)" for x :: "main_error + string" and a b u and R :: "string \<Rightarrow> main_error + nat"
    by (cases x) auto
  show ?thesis
    unfolding probe_cmd_def guarded mode run by blast
qed

lemma exit_code_zero: "exit_code r = 0 \<longleftrightarrow> r = Inr 0"
  by (auto simp: exit_code_def split: sum.split main_error.split run_error.split replay_fault.split)

lemma utf8_probe: "utf8_valid ''probe''"
  by code_simp

lemma oracle_main_probe:
  "oracle_main env (''probe'' # rest) = 0 \<longleftrightarrow> list_all utf8_valid rest \<and>
    (\<exists>c. parse_flags rest (DEFAULT_CLI (or_root env)) = Inr c \<and> probe_cmd env c = Inr 0)"
  by (auto simp: oracle_main_def exit_code_zero result_simps utf8_probe)

lemma manifest_length: "manifest_of env c = Inr rows \<Longrightarrow> 100 \<le> length rows"
  using load_rows_length
  by (fastforce simp: manifest_of_def load_manifest_def result_simps split: if_splits)

text \<open>C13: The probe.  The replay command exits with success exactly when its arguments are UTF-8 and the flags parse, the manifest is readable, complete and has at least a
  hundred rows, the component starts on a fresh engine, and every row passes in turn on the state the rows before it left: its arguments
  fit the conventions, its call is answered, and the serialized result is the expected text; both print modes agree on this.\<close>

theorem probe_exits_clean:
  "oracle_main env (''probe'' # rest) = 0 \<longleftrightarrow> list_all utf8_valid rest \<and>
    (\<exists>c s rows st. parse_flags rest (DEFAULT_CLI (or_root env)) = Inr c \<and>
      (cli_rest c = [] \<or> (\<exists>m more. cli_rest c = ''--compare'' # m # more \<and> m \<in> {''rows'', ''verdict''})) \<and>
      surface_of_rows env c = Inr s \<and> manifest_of env c = Inr rows \<and> 100 \<le> length rows \<and> start_runtime env c = Inr st \<and>
      rows_pass (or_floats env) (or_wt env) (or_cc env) (or_clock env) 0 rows st)"
  using manifest_length unfolding oracle_main_probe probe_cmd_zero by blast

section \<open>Time\<close>

text \<open>What the engine documents: a concurrent call on a store whose deadline the epoch has reached fails.\<close>

definition stream_law :: "'i concurrent \<Rightarrow> bool" where
  "stream_law cc \<longleftrightarrow> (\<forall>e d fuel i f args slot. d \<le> e \<longrightarrow> (\<exists>msg. fst (cc_call cc e d fuel i f args slot) = Inl msg))"

lemma expired_row:
  assumes laws: "epoch_law wt" "stream_law cc" and st: "started st" "1 \<le> he_epoch (fst st)"
    and r: "replay_row fo wt cc f args st = (Inr got, st')"
  shows "got = outcome_trap"
proof -
  obtain en rt where p: "st = (en, rt)" by (rule prod.exhaust)
  then have d: "cr_deadline rt \<le> he_epoch en" and i: "cr_instance rt \<noteq> None"
    using st by (simp_all add: started_def)
  show ?thesis
  proof (cases "f = ''watch-counts'' \<or> f = ''watch-users''")
    case True
    have "\<exists>msg. fst (cc_call cc (he_epoch en) (cr_deadline rt) fuel j f args slot) = Inl msg" for fuel j slot
      using laws(2) d unfolding stream_law_def by blast
    then have "\<exists>e. fst (stream_answer wt cc f args st) = Inl e"
      using i by (auto simp: p stream_answer_def Let_def split: prod.split sum.split) (metis Inl_Inr_False fst_conv)+
    then show ?thesis
      using r True by (auto simp: replay_row_def replay_answer_def split: prod.splits)
  next
    case False
    then show ?thesis
      using r expired_call [OF laws(1) d, of f args]
      by (auto simp: p replay_row_def replay_answer_def outcome_of_def split: prod.splits sum.splits)
  qed
qed

lemma elapse_epoch: "started st \<Longrightarrow> he_epoch (fst st) + n \<le> he_epoch (fst (elapse n st))"
proof (induction n)
  case (Suc n)
  then have "1 \<le> he_threads (fst (elapse n st))"
    using started_elapse [of n st] by (simp add: started_def)
  moreover have "fst (elapse (Suc n) st) = tick (fst (elapse n st))"
    by (simp add: elapse_def)
  ultimately show ?case using Suc by (simp add: tick_def)
qed (simp add: elapse_def)

text \<open>A passing replay leaves no time between its rows.\<close>

lemma rows_pass_clock:
  assumes laws: "epoch_law wt" "stream_law cc"
  shows "rows_pass fo wt cc clock i rows st \<Longrightarrow> started st \<Longrightarrow> k < length rows \<Longrightarrow> clock (i + k) = 0"
proof (induction rows arbitrary: i k st)
  case (Cons row rows)
  from Cons.prems(1) obtain args got st' where r: "replay_row fo wt cc (mr_fn row) args (elapse (clock i) st) = (Inr got, st')"
    and got: "got = outcome_value (mr_expected row)" and rest: "rows_pass fo wt cc clock (i + 1) rows st'"
    by (rule rows_pass_Cons)
  have started: "started (elapse (clock i) st)"
    using Cons.prems(2) by (simp add: started_elapse)
  have zero: "clock i = 0"
  proof (rule ccontr)
    assume "clock i \<noteq> 0"
    then have "1 \<le> he_epoch (fst (elapse (clock i) st))"
      using elapse_epoch [OF Cons.prems(2), of "clock i"] by simp
    from expired_row [OF laws started this r] show False
      using got by (simp add: outcome_trap_def outcome_value_def)
  qed
  show ?case
  proof (cases k)
    case 0
    then show ?thesis using zero by simp
  next
    case (Suc m)
    then show ?thesis
      using Cons.IH [OF rest started_replay [OF r Cons.prems(2)], of m] Cons.prems(3) by simp
  qed
qed simp

text \<open>A replay that always succeeds: a hundred rows of one function whose result is its argument.\<close>

definition demo_concurrent :: "unit concurrent" where
  "demo_concurrent = \<lparr>cc_call = (\<lambda>e d fuel i _ _ _. (if d \<le> e then Inl ''epoch'' else Inr WStream, i, fuel)),
     cc_u64 = (\<lambda>_ _ fuel i. (Inr [[1, 2], [3]], i, fuel)), cc_users = (\<lambda>_ _ fuel i. (Inr [], i, fuel)), cc_debug = (\<lambda>_. [])\<rparr>"

definition demo_floats :: float_ops where
  "demo_floats = \<lparr>f32_text = (\<lambda>_. []), f64_text = (\<lambda>_. []), f64_parse = (\<lambda>_. None)\<rparr>"

definition demo_manifest_row :: json_doc where
  "demo_manifest_row = JObj [(''fn'', JStr ''double''), (''args'', JArr [JStr ''21'']), (''expected'', JStr ''21'')]"

definition demo_env :: "(nat \<Rightarrow> nat) \<Rightarrow> (json_doc, unit, unit) oracle_env" where
  "demo_env clock = \<lparr>or_json = doc_ops (\<lambda>_. None) (\<lambda>_. []), or_parse = (\<lambda>_. Inr (replicate 100 demo_manifest_row)),
     or_floats = demo_floats, or_files = (\<lambda>_. Inr []), or_read = (\<lambda>_. Inr []), or_engine = Inr (), or_load = (\<lambda>_. Inr ()),
     or_wt = demo_engine, or_cc = demo_concurrent, or_clock = clock, or_lean = (\<lambda>_ _ _. Inr ()), or_root = []\<rparr>"

lemma demo_rows_pass:
  "started st \<Longrightarrow> he_epoch (fst st) = 0 \<Longrightarrow>
    rows_pass demo_floats demo_engine demo_concurrent (\<lambda>_. 0) i (replicate n \<lparr>mr_fn = ''double'', mr_args = [''21''], mr_expected = ''21''\<rparr>) st"
proof (induction n arbitrary: i st)
  case (Suc n)
  obtain en rt where p: "st = (en, rt)" by (rule prod.exhaust)
  have b: "build_args demo_floats ''double'' [''21''] = Inr [WU64 21]"
    by (simp add: build_args_def arg_u64_def flat_arg_def ok_or_def parse_u64_def ascii_defs digits_value_def digit_value_def)
  obtain st' where c: "rt_call demo_engine ''double'' [WU64 21] st = (Inr [WU64 21], st')"
    using Suc.prems by (auto simp: p started_def rt_call_def demo_engine_def Let_def result_simps)
  have "ser_val demo_floats (WU64 21) = ''21''"
    by (simp add: show_nat.simps digit_char_def char_of_def bit_0)
  with c have r: "replay_row demo_floats demo_engine demo_concurrent ''double'' [WU64 21] (elapse 0 st) = (Inr (outcome_value ''21''), st')"
    by (simp add: replay_row_def replay_answer_def elapse_def outcome_of_def del: ser_val.simps)
  have "keeps st st'" using keeps_rt_call [of st demo_engine "''double''" "[WU64 21]"] c by simp
  then have "started st'" "he_epoch (fst st') = 0"
    using Suc.prems started_keeps [of st st'] by (simp_all add: keeps_def)
  from Suc.IH [OF this, of "i + 1"] show ?case
    using b r by simp
qed simp

lemma demo_manifest: "manifest_of (demo_env clock) c = Inr (replicate 100 \<lparr>mr_fn = ''double'', mr_args = [''21''], mr_expected = ''21''\<rparr>)"
proof -
  have "load_rows (doc_ops p q) i (replicate n demo_manifest_row) =
      Inr (replicate n \<lparr>mr_fn = ''double'', mr_args = [''21''], mr_expected = ''21''\<rparr>)" for p q n i
    by (induction n arbitrary: i) (simp_all add: demo_manifest_row_def row_arr_def row_str_def ok_or_def)
  moreover have "length (replicate 100 demo_manifest_row) = 100" by (rule length_replicate)
  ultimately show ?thesis
    unfolding manifest_of_def load_manifest_def demo_env_def by (simp add: map_err_simps)
qed

lemma demo_surface: "\<exists>s. surface_of_rows (demo_env clock) c = Inr s"
proof -
  have "\<exists>ps. surface_loop (doc_ops p q) i (replicate n demo_manifest_row) seen = Inr ps" for p q n i seen
    by (induction n arbitrary: i seen) (simp_all add: demo_manifest_row_def row_arr_def row_str_def ok_or_def)
  then show ?thesis
    unfolding surface_of_rows_def read_rows_def demo_env_def manifest_surface_def
    by (simp add: map_err_simps) (metis and_then_simps(2) map_err_simps(2))
qed

lemma demo_starts: "\<exists>st. start_runtime (demo_env clock) c = Inr st \<and> started st \<and> he_epoch (fst st) = 0"
proof -
  have "\<exists>st. start_runtime (demo_env clock) c = Inr st \<and> he_epoch (fst st) = 0"
    by (simp add: start_runtime_def demo_env_def demo_engine_def runtime_new_def Let_def map_err_simps instantiate_def
        start_epoch_thread_def wasi_for_def cap_none)
  then show ?thesis using start_runtime_started by blast
qed

lemma demo_probe_passes: "oracle_main (demo_env (\<lambda>_. 0)) [''probe''] = 0"
proof -
  let ?c = "DEFAULT_CLI (or_root (demo_env (\<lambda>_. 0)))"
  obtain st where "start_runtime (demo_env (\<lambda>_. 0)) ?c = Inr st" "started st" "he_epoch (fst st) = 0"
    using demo_starts by blast
  moreover have "or_floats (demo_env (\<lambda>_. 0)) = demo_floats" "or_wt (demo_env (\<lambda>_. 0)) = demo_engine"
    "or_cc (demo_env (\<lambda>_. 0)) = demo_concurrent" "or_clock (demo_env (\<lambda>_. 0)) = (\<lambda>_. 0)"
    by (simp_all add: demo_env_def)
  ultimately have "probe_cmd (demo_env (\<lambda>_. 0)) ?c = Inr 0"
    unfolding probe_cmd_zero using demo_manifest demo_surface demo_rows_pass
    by (metis DEFAULT_CLI_def cli.select_convs(3))
  then show ?thesis
    unfolding oracle_main_probe by simp
qed

text \<open>C14: A replay that outlasts one interval fails.  If any interval of the engine's threads elapses between the start of the runtime and one of the
  first hundred rows, the probe does not exit with success, whatever the component and the manifest are: from then on a plain row
  is a trap and a stream row ends the run, and no manifest has fewer rows.\<close>

theorem probe_out_of_time:
  assumes "epoch_law (or_wt env)" "stream_law (or_cc env)" and "k < 100" "0 < or_clock env k"
  shows "oracle_main env (''probe'' # rest) \<noteq> 0"
proof
  assume "oracle_main env (''probe'' # rest) = 0"
  then obtain c rows st where "100 \<le> length rows" and st: "start_runtime env c = Inr st"
    and pass: "rows_pass (or_floats env) (or_wt env) (or_cc env) (or_clock env) 0 rows st"
    unfolding oracle_main_probe probe_cmd_zero using manifest_length by blast
  then show False
    using rows_pass_clock [OF assms(1,2) pass start_runtime_started [OF st], of k] assms(3,4) by simp
qed

theorem probe_out_of_time_witness:
  "oracle_main (demo_env (\<lambda>_. 0)) [''probe''] = 0 \<and>
    oracle_main (demo_env (\<lambda>k. if k = 57 then 1 else 0)) [''probe''] \<noteq> 0"
proof
  show "oracle_main (demo_env (\<lambda>_. 0)) [''probe''] = 0" by (rule demo_probe_passes)
  have "epoch_law (or_wt (demo_env clock))" "stream_law (or_cc (demo_env clock))" for clock
    by (simp_all add: demo_env_def epoch_law_def stream_law_def demo_engine_def demo_concurrent_def)
  then show "oracle_main (demo_env (\<lambda>k. if k = 57 then 1 else 0)) [''probe''] \<noteq> 0"
    by (intro probe_out_of_time [of _ 57]) (simp_all add: demo_env_def)
qed

text \<open>Traps.  A call that fails is a trap outcome of its row, which fails the row and lets the replay go on; but a stream call that fails ends
  the whole run with a driver error, whatever the other rows are.\<close>

lemma trap_ends_stream_run:
  assumes "build_args fo (mr_fn row) (mr_args row) = Inr args"
  shows "mr_fn row \<notin> {''watch-counts'', ''watch-users''} \<Longrightarrow> rt_call wt (mr_fn row) args (elapse (clock i) st) = (Inl e, st') \<Longrightarrow>
      probe_loop fo wt cc clock as_rows i (row # rows) k st = probe_loop fo wt cc clock as_rows (i + 1) rows (k + 1) st'"
    and "mr_fn row \<in> {''watch-counts'', ''watch-users''} \<Longrightarrow> stream_answer wt cc (mr_fn row) args (elapse (clock i) st) = (Inl e', st') \<Longrightarrow>
      fst (probe_loop fo wt cc clock as_rows i (row # rows) k st) = Inl (ReplayFault e')"
proof -
  show "probe_loop fo wt cc clock as_rows i (row # rows) k st = probe_loop fo wt cc clock as_rows (i + 1) rows (k + 1) st'"
    if "mr_fn row \<notin> {''watch-counts'', ''watch-users''}" "rt_call wt (mr_fn row) args (elapse (clock i) st) = (Inl e, st')"
  proof -
    have r: "replay_row fo wt cc (mr_fn row) args (elapse (clock i) st) = (Inr outcome_trap, st')"
      using that by (simp add: replay_row_def replay_answer_def outcome_of_def)
    show ?thesis
      unfolding probe_step [where fo = fo and row = row and args = args and wt = wt and cc = cc and clock = clock and i = i
        and st = st and got = outcome_trap and st' = st' and as_rows = as_rows and rows = rows and k = k, OF assms r]
      by (simp add: outcome_trap_def outcome_value_def)
  qed
  show "fst (probe_loop fo wt cc clock as_rows i (row # rows) k st) = Inl (ReplayFault e')"
    if "mr_fn row \<in> {''watch-counts'', ''watch-users''}" "stream_answer wt cc (mr_fn row) args (elapse (clock i) st) = (Inl e', st')"
    using that assms by (auto simp: replay_row_def replay_answer_def)
qed

section \<open>Exit codes\<close>

lemma replay_no_panic:
  assumes "started st"
  shows "fst (replay_row fo wt cc f args st) \<noteq> Inl (Panicked s)"
proof -
  obtain en rt i where p: "st = (en, rt)" "cr_instance rt = Some i"
    using assms by (cases st) (auto simp: started_def)
  have drain: "fst (drain_answer cc f st' j) \<noteq> Inl (Panicked s)" for st' j
    by (cases st') (auto simp: drain_answer_def map_err_def and_then_def split: prod.split sum.split)
  obtain r j fuel where c: "cc_call cc (he_epoch en) (cr_deadline rt) (cr_fuel rt) i f args
      (if f = ''watch-counts'' then WU64 0 else WList []) = (r, j, fuel)" by (rule prod_cases3)
  have "fst (stream_answer wt cc f args st) \<noteq> Inl (Panicked s)"
    using drain c by (simp add: p stream_answer_def Let_def split: sum.split)
  then show ?thesis
    by (auto simp: replay_row_def replay_answer_def and_then_eq_Inl split: prod.split sum.split)
qed

lemma probe_no_panic:
  "started st \<Longrightarrow> fst (probe_loop fo wt cc clock as_rows i rows k st) \<noteq> Inl (ReplayFault (Panicked s))"
proof (induction rows arbitrary: i k st)
  case (Cons row rows)
  show ?case
  proof (cases "build_args fo (mr_fn row) (mr_args row)")
    case (Inr args)
    obtain r st' where r: "replay_row fo wt cc (mr_fn row) args (elapse (clock i) st) = (r, st')" by (rule prod.exhaust)
    show ?thesis
    proof (cases r)
      case (Inl e)
      then show ?thesis
        using replay_no_panic [of "elapse (clock i) st" fo wt cc "mr_fn row" args s] Cons.prems Inr r
        by (simp add: started_elapse)
    next
      case got: (Inr got)
      then show ?thesis
        using Cons.IH [OF started_replay [OF r Cons.prems]] Inr r by (simp add: Let_def)
    qed
  qed simp
qed simp

text \<open>C17: Exit codes.  Whatever the files, the engine and the clock do (and as long as the output can be written), the driver exits with 101
  exactly when an argument is not UTF-8.  Otherwise it exits with 2 exactly when there is no command, or an unknown one
  whose flags parse; with 1 whenever the flags do not parse, whatever the command is; and with 0 or 1 for every known command whose flags parse:
  in particular the missing instance of a stream row, on which it would panic, never happens.\<close>

theorem exit_codes:
  "if list_all utf8_valid argv then
     (case argv of
        [] \<Rightarrow> oracle_main env argv = 2
      | cmd # rest \<Rightarrow> (case parse_flags rest (DEFAULT_CLI (or_root env)) of
          Inl _ \<Rightarrow> oracle_main env argv = 1
        | Inr _ \<Rightarrow> if cmd \<in> {''schema-surface'', ''probe'', ''explain''} then oracle_main env argv \<in> {0, 1}
                  else oracle_main env argv = 2))
   else oracle_main env argv = 101"
proof -
  have code: "exit_code r \<in> {0, 1}" if "\<forall>s. r \<noteq> Inl (RunFailed (ReplayFault (Panicked s)))" "\<forall>n. r = Inr n \<longrightarrow> n \<in> {0, 1}" for r
    using that by (auto simp: exit_code_def split: sum.split main_error.split run_error.split replay_fault.split)
  have surf: "surface_of_rows env c \<noteq> Inl (RunFailed e)" for c e
    by (auto simp: surface_of_rows_def read_rows_def and_then_def map_err_def split: sum.split)
  have man: "manifest_of env c \<noteq> Inl (RunFailed e)" for c e
    by (auto simp: manifest_of_def map_err_def split: sum.split)
  have start: "start_runtime env c \<noteq> Inl (RunFailed e)" for c e
    by (auto simp: start_runtime_def Let_def and_then_def map_err_def split: sum.split prod.split)
  have probe: "exit_code (probe_cmd env c) \<in> {0, 1}" for c
  proof (rule code; intro allI)
    have np: "start_runtime env c = Inr st \<Longrightarrow> fst (probe_loop fo (or_wt env) cc clock b i rows k st) \<noteq> Inl (ReplayFault (Panicked s))"
      for fo cc clock b i rows k st s
      using probe_no_panic start_runtime_started by blast
    show "probe_cmd env c \<noteq> Inl (RunFailed (ReplayFault (Panicked s)))" for s
      using surf man start np
      by (auto simp: probe_cmd_def and_then_eq_Inl map_err_def split: list.splits if_splits sum.splits)
    show "probe_cmd env c = Inr n \<longrightarrow> n \<in> {0, 1}" for n
      by (auto simp: probe_cmd_def and_then_eq_Inr split: list.splits if_splits)
  qed
  have explain: "exit_code (explain_cmd env c) \<in> {0, 1}" for c
  proof (rule code; intro allI)
    have np: "start_runtime env c = Inr st \<Longrightarrow> fst (replay_row fo (or_wt env) cc f args (elapse n st)) \<noteq> Inl (Panicked s)"
      for fo cc f args n st s
      using replay_no_panic start_runtime_started started_elapse by blast
    show "explain_cmd env c \<noteq> Inl (RunFailed (ReplayFault (Panicked s)))" for s
      using surf man start np
      by (auto simp: explain_cmd_def and_then_eq_Inl map_err_def split: list.splits if_splits sum.splits)
    show "explain_cmd env c = Inr n \<longrightarrow> n \<in> {0, 1}" for n
      by (auto simp: explain_cmd_def and_then_eq_Inr split: list.splits if_splits)
  qed
  have surface: "exit_code (and_then (surface_of_rows env c) (\<lambda>_. Inr 0)) \<in> {0, 1}" for c
    using surf by (intro code) (auto simp: and_then_eq_Inl and_then_eq_Inr)
  show ?thesis
  proof (cases argv)
    case (Cons cmd rest)
    show ?thesis
    proof (cases "parse_flags rest (DEFAULT_CLI (or_root env))")
      case (Inl e)
      then show ?thesis using Cons by (simp add: oracle_main_def exit_code_def map_err_def)
    next
      case (Inr c)
      have "oracle_main env argv = exit_code (if cmd = ''schema-surface'' then and_then (surface_of_rows env c) (\<lambda>_. Inr 0)
          else if cmd = ''probe'' then probe_cmd env c else if cmd = ''explain'' then explain_cmd env c else Inr 2)"
        if "list_all utf8_valid argv"
        using that Cons Inr by (simp add: oracle_main_def map_err_def)
      moreover have "oracle_main env argv = 101" if "\<not> list_all utf8_valid argv"
        using that by (simp add: oracle_main_def)
      moreover have "exit_code (Inr 2) = 2" by (simp add: exit_code_def)
      ultimately show ?thesis
        using probe [of c] explain [of c] surface [of c] Cons Inr by auto
    qed
  qed (simp add: oracle_main_def)
qed

end
