(* ===== verification/Oci.thy ===== *)
theory Oci
  imports Json Btree "HOL-Library.Char_ord"
begin

text \<open>
  The artifact store of the code generator (\<open>crates/forge/src/oci.rs\<close>): a
  content-addressed directory of blobs and the map from artifact labels to digests, with
  the header-insensitive comparison that both the store and the driver's byte-tie use.

  The files are a model of the file system: a map from paths to contents, and the paths
  the system refuses.  A refused write leaves the file as it was; directories are
  implicit in the paths.  The digest function and the JSON operations are parameters.
  Texts and file contents are byte strings; the line splitting and
  the white space of the standard library are written out, the UTF-8 repair is in \<open>Text\<close>.
\<close>

section \<open>Files\<close>

datatype io_error = NotFound | Denied | InvalidUtf8 | IoContext string string string io_error

record disk =
  dk_files :: "(string, string) btree"
  dk_denied :: "string \<Rightarrow> bool"

definition fs_read :: "disk \<Rightarrow> string \<Rightarrow> io_error + string" where
  "fs_read d p = (if dk_denied d p then Inl Denied else ok_or (bt_get (dk_files d) p) NotFound)"

definition fs_write :: "disk \<Rightarrow> string \<Rightarrow> string \<Rightarrow> (io_error + unit) \<times> disk" where
  "fs_write d p data =
     (if dk_denied d p then (Inl Denied, d)
      else (Inr (), d\<lparr>dk_files := bt_insert p data (dk_files d)\<rparr>))"

definition fs_exists :: "disk \<Rightarrow> string \<Rightarrow> bool" where
  "fs_exists d p \<longleftrightarrow> bt_get (dk_files d) p \<noteq> None"

text \<open>\<open>PathBuf::join\<close>: an absolute path replaces the base.\<close>

definition path_join :: "string \<Rightarrow> string \<Rightarrow> string" where
  "path_join a b =
     (if (b \<noteq> [] \<and> hd b = CHR ''/'') \<or> a = [] then b
      else if last a = CHR ''/'' then a @ b else a @ ''/'' @ b)"

section \<open>Reading texts\<close>

definition fs_read_to_string :: "disk \<Rightarrow> string \<Rightarrow> io_error + string" where
  "fs_read_to_string d p = and_then (fs_read d p) (\<lambda>s. if utf8_valid s then Inr s else Inl InvalidUtf8)"

section \<open>Lines and white space\<close>

definition LF :: char where "LF = CHR 0x0A"

definition CR :: char where "CR = CHR 0x0D"

definition strip_cr :: "string \<Rightarrow> string" where
  "strip_cr l = (if l \<noteq> [] \<and> last l = CR then butlast l else l)"

text \<open>\<open>str::lines\<close>: a final line without a newline keeps a carriage return.\<close>

definition text_lines :: "string \<Rightarrow> string list" where
  "text_lines s = (let ps = split_on LF s in
     map strip_cr (butlast ps) @ (if last ps = [] then [] else [last ps]))"

text \<open>The length of the white-space character at the front, 0 when there is none.\<close>

fun ws_len :: "nat list \<Rightarrow> nat" where
  "ws_len (b # bs) =
     (if b = 32 \<or> (9 \<le> b \<and> b \<le> 13) then 1
      else if b = 0xC2 \<and> take 1 bs \<in> {[0x85], [0xA0]} then 2
      else if b = 0xE1 \<and> take 2 bs = [0x9A, 0x80] then 3
      else if b = 0xE2 \<and> take 1 bs = [0x80] \<and>
              (case tl bs of c # _ \<Rightarrow> (0x80 \<le> c \<and> c \<le> 0x8A) \<or> c \<in> {0xA8, 0xA9, 0xAF} | [] \<Rightarrow> False) then 3
      else if b = 0xE2 \<and> take 2 bs = [0x81, 0x9F] then 3
      else if b = 0xE3 \<and> take 2 bs = [0x80, 0x80] then 3
      else 0)"
| "ws_len [] = 0"

function trim_start :: "string \<Rightarrow> string" where
  "trim_start s = (case ws_len (map code_of s) of 0 \<Rightarrow> s | Suc n \<Rightarrow> trim_start (drop (Suc n) s))"
  by pat_completeness auto
termination
  by (relation "measure length") (auto split: list.splits, (case_tac s; simp))

declare trim_start.simps [simp del]

section \<open>The header strip\<close>

definition is_header_line :: "string \<Rightarrow> bool" where
  "is_header_line line = (let t = trim_start line in
     t = [] \<or> prefix ''//'' t \<or> prefix ''#'' t \<or> prefix ''--'' t \<or> prefix '';;'' t)"

fun strip_loop :: "bool \<Rightarrow> string list \<Rightarrow> string" where
  "strip_loop in_header [] = []"
| "strip_loop in_header (line # ls) =
     (if in_header \<and> is_header_line line then strip_loop in_header ls
      else line @ [LF] @ strip_loop False ls)"

definition strip_header :: "string \<Rightarrow> string" where
  "strip_header data = strip_loop True (text_lines (lossy data))"

section \<open>The store\<close>

definition LABEL_ANNOTATION :: string where
  "LABEL_ANNOTATION = ''org.opencontainers.image.ref.name''"

record oci_store =
  oci_root :: string
  oci_tags :: "(string, string) btree"

datatype verify = NotStored | Match | Mismatch string string

text \<open>\<open>str::strip_prefix\<close>.\<close>

definition strip_pre :: "string \<Rightarrow> string \<Rightarrow> string option" where
  "strip_pre p s = (if prefix p s then Some (drop (length p) s) else None)"

definition tag_of :: "'j json_ops \<Rightarrow> 'j \<Rightarrow> (string \<times> string) option" where
  "tag_of js m =
     Option.bind (js_str js (js_index js m ''digest'')) (\<lambda>dg.
     Option.bind (strip_pre ''sha256:'' dg) (\<lambda>digest.
     Option.bind (js_str js (js_index js (js_index js m ''annotations'') LABEL_ANNOTATION)) (\<lambda>label.
       Some (label, digest))))"

definition load_tags :: "'j json_ops \<Rightarrow> disk \<Rightarrow> string \<Rightarrow> (string, string) btree" where
  "load_tags js d index = (case fs_read_to_string d index of
       Inl _ \<Rightarrow> bt_empty
     | Inr raw \<Rightarrow> (case js_parse js raw of
         None \<Rightarrow> bt_empty
       | Some value \<Rightarrow> (case js_array js (js_index js value ''manifests'') of
           None \<Rightarrow> bt_empty
         | Some ms \<Rightarrow> foldl (\<lambda>m (l, dg). bt_insert l dg m) bt_empty (List.map_filter (tag_of js) ms))))"

definition oci_open :: "'j json_ops \<Rightarrow> string \<Rightarrow> disk \<Rightarrow> (io_error + oci_store) \<times> disk" where
  "oci_open js root d =
     (let blobs = path_join root ''blobs/sha256''; layout = path_join root ''oci-layout'';
          index = path_join root ''index.json''
      in if dk_denied d blobs then (Inl Denied, d)
      else case (if fs_exists d layout then (Inr (), d)
                 else fs_write d layout ''{\"imageLayoutVersion\":\"1.0.0\"}'') of
        (Inl e, d1) \<Rightarrow> (Inl e, d1)
      | (Inr _, d1) \<Rightarrow> (case (if fs_exists d1 index then (Inr (), d1)
                 else fs_write d1 index ''{\"schemaVersion\":2,\"manifests\":[]}'') of
          (Inl e, d2) \<Rightarrow> (Inl e, d2)
        | (Inr _, d2) \<Rightarrow> (Inr \<lparr>oci_root = root, oci_tags = load_tags js d2 index\<rparr>, d2)))"

definition blobs_dir :: "oci_store \<Rightarrow> string" where
  "blobs_dir s = path_join (oci_root s) ''blobs/sha256''"

definition oci_digest :: "oci_store \<Rightarrow> string \<Rightarrow> string option" where
  "oci_digest s label = bt_get (oci_tags s) label"

definition blob_path :: "oci_store \<Rightarrow> string \<Rightarrow> string" where
  "blob_path s digest = path_join (blobs_dir s) digest"

definition oci_put :: "(string \<Rightarrow> string) \<Rightarrow> oci_store \<Rightarrow> disk \<Rightarrow> string \<Rightarrow> string \<Rightarrow>
    (io_error + string) \<times> oci_store \<times> disk" where
  "oci_put sha s d label data =
     (let digest = sha data in
      case fs_write d (blob_path s digest) data of
        (Inl e, d') \<Rightarrow> (Inl e, s, d')
      | (Inr _, d') \<Rightarrow> (Inr digest, s\<lparr>oci_tags := bt_insert label digest (oci_tags s)\<rparr>, d'))"

definition oci_get :: "oci_store \<Rightarrow> disk \<Rightarrow> string \<Rightarrow> io_error + string" where
  "oci_get s d digest = fs_read d (blob_path s digest)"

definition oci_has :: "oci_store \<Rightarrow> disk \<Rightarrow> string \<Rightarrow> bool" where
  "oci_has s d digest = fs_exists d (blob_path s digest)"

definition oci_verify :: "(string \<Rightarrow> string) \<Rightarrow> oci_store \<Rightarrow> disk \<Rightarrow> string \<Rightarrow> string \<Rightarrow> io_error + verify" where
  "oci_verify sha s d label path = (case bt_get (oci_tags s) label of
       None \<Rightarrow> Inr NotStored
     | Some stored \<Rightarrow>
         and_then (map_err (IoContext ''verify'' label path) (fs_read d path)) (\<lambda>file.
           let content_actual = sha (strip_header file);
               blob = (case oci_get s d stored of Inl _ \<Rightarrow> [] | Inr b \<Rightarrow> b);
               content_stored = sha (strip_header blob)
           in if content_actual \<noteq> content_stored then Inr (Mismatch content_stored content_actual)
              else Inr Match))"

fun store_artifacts :: "(string \<Rightarrow> string) \<Rightarrow> oci_store \<Rightarrow> disk \<Rightarrow> (string \<times> string) list \<Rightarrow>
    (string, string) btree \<Rightarrow> (io_error + (string, string) btree) \<times> oci_store \<times> disk" where
  "store_artifacts sha s d [] digests = (Inr digests, s, d)"
| "store_artifacts sha s d ((label, path) # ps) digests =
     (case map_err (IoContext ''store'' label path) (fs_read d path) of
        Inl e \<Rightarrow> (Inl e, s, d)
      | Inr data \<Rightarrow> (case oci_put sha s d label data of
          (Inl e, s', d') \<Rightarrow> (Inl e, s', d')
        | (Inr digest, s', d') \<Rightarrow> store_artifacts sha s' d' ps (bt_insert label digest digests)))"

section \<open>The index\<close>

text \<open>The entries of a directory, the first components of the paths under it, each repaired to UTF-8 as the code
  does with \<open>to_string_lossy\<close> (so two names may give one text).\<close>

definition dir_entries :: "disk \<Rightarrow> string \<Rightarrow> string list" where
  "dir_entries d dir = map lossy (remdups (List.map_filter (\<lambda>(p, _).
     map_option (takeWhile (\<lambda>c. c \<noteq> CHR ''/'')) (strip_pre (dir @ ''/'') p)) (dk_files d)))"

definition file_size :: "disk \<Rightarrow> string \<Rightarrow> nat" where
  "file_size d p = (case bt_get (dk_files d) p of None \<Rightarrow> 0 | Some data \<Rightarrow> length data)"

definition manifest_entry :: "'j json_ops \<Rightarrow> string \<Rightarrow> nat \<Rightarrow> string option \<Rightarrow> 'j" where
  "manifest_entry js digest bytes label = js_mk_obj js
     ([(''mediaType'', js_mk_str js ''application/vnd.guestlang.artifact''),
       (''digest'', js_mk_str js (''sha256:'' @ digest)),
       (''size'', js_mk_num js bytes)] @
      (case label of None \<Rightarrow> []
       | Some l \<Rightarrow> [(''annotations'', js_mk_obj js [(LABEL_ANNOTATION, js_mk_str js l)])]))"

definition index_doc :: "'j json_ops \<Rightarrow> oci_store \<Rightarrow> disk \<Rightarrow> 'j" where
  "index_doc js s d =
     (let tagged = map (\<lambda>(label, digest). manifest_entry js digest (file_size d (blob_path s digest)) (Some label))
            (oci_tags s);
          untagged = map (\<lambda>digest. manifest_entry js digest (file_size d (blob_path s digest)) None)
            (sort (filter (\<lambda>dg. dg \<notin> set (bt_values (oci_tags s))) (dir_entries d (blobs_dir s))))
      in js_mk_obj js [(''schemaVersion'', js_mk_num js 2), (''manifests'', js_mk_arr js (tagged @ untagged))])"

definition write_index :: "'j json_ops \<Rightarrow> oci_store \<Rightarrow> disk \<Rightarrow> (io_error + unit) \<times> disk" where
  "write_index js s d =
     (if dk_denied d (blobs_dir s) then (Inl Denied, d)
      else fs_write d (path_join (oci_root s) ''index.json'') (js_pretty js (index_doc js s d)))"

end
