(* ===== verification/Forge.thy ===== *)
theory Forge
  imports Oci Machines
begin

text \<open>
  The code-generation driver (\<open>crates/forge/src/main.rs\<close>): loading the job manifests with
  the classification of corrupt ones, running a job as two subprocesses, the generate mode
  with the artifact store, and the byte-tie check.  The result of a run is its exit code,
  the files it leaves and the lines it reports.

  Outside code enters as the record \<open>externals\<close>: the environment variables, the effect of
  a subprocess on the files, the stream of values of the JSON parser, the JSON accessors,
  the digest function, and the debug text of an argument list.
\<close>

section \<open>Jobs and faults\<close>

datatype forge_fault = ManifestFault string | SubprocessFault string | EnvironmentFault string

record job =
  job_package :: string
  job_exe :: string
  job_args :: "string list"
  job_outputs :: "string list"

record cmd =
  cmd_program :: string
  cmd_args :: "string list"
  cmd_dir :: string
  cmd_path :: string

text \<open>What the JSON stream yields: a value and the offset behind it, or an error text.\<close>

datatype 'j stream_item = Item 'j nat | Broken string

record 'j externals =
  ex_json :: "'j json_ops"
  ex_sha :: "string \<Rightarrow> string"
  ex_env :: "string \<Rightarrow> string option"
  ex_sys :: "cmd \<Rightarrow> disk \<Rightarrow> (string + string option) \<times> disk"
  ex_stream :: "string \<Rightarrow> 'j stream_item list"
  ex_debug :: "string list \<Rightarrow> string"

text \<open>\<open>ex_sys\<close> yields the error of a failed spawn, or the status text of a failed command.\<close>

definition MANIFESTS :: "string list" where
  "MANIFESTS = [''generated/json/jobs_generated.json'', ''generated/json/faults_jobs_generated.json'']"

fun io_text :: "io_error \<Rightarrow> string" where
  "io_text NotFound = ''No such file or directory (os error 2)''"
| "io_text Denied = ''Permission denied (os error 13)''"
| "io_text InvalidUtf8 = ''stream did not contain valid UTF-8''"
| "io_text (IoContext op label path e) = op @ '' '' @ label @ '': '' @ path @ '': '' @ io_text e"

section \<open>Loading the manifests\<close>

definition QUOTE :: char where "QUOTE = CHR 0x22"

text \<open>\<open>str::find\<close> of a text, and the piece \<open>split(marker).nth(1)\<close>.\<close>

fun find_sub :: "string \<Rightarrow> string \<Rightarrow> nat option" where
  "find_sub needle [] = (if needle = [] then Some 0 else None)"
| "find_sub needle (x # xs) = (if prefix needle (x # xs) then Some 0 else map_option Suc (find_sub needle xs))"

definition second_piece :: "string \<Rightarrow> string \<Rightarrow> string option" where
  "second_piece marker s = map_option (\<lambda>i.
     let rest = drop (i + length marker) s in
     case find_sub marker rest of None \<Rightarrow> rest | Some j \<Rightarrow> take j rest) (find_sub marker s)"

definition tail_package :: "string \<Rightarrow> string" where
  "tail_package tail = (case Option.bind (second_piece ''\"package\": \"'' tail)
       (\<lambda>rest. map_option (\<lambda>end. take end rest) (find_sub [QUOTE] rest)) of
     None \<Rightarrow> ''?'' | Some p \<Rightarrow> p)"

definition unterminated_list :: "string \<Rightarrow> string \<Rightarrow> string option" where
  "unterminated_list tail key =
     (let marker = [QUOTE] @ key @ ''\": ['' in
      Option.bind (find_sub marker tail) (\<lambda>idx.
        if find_sub '']'' (drop (idx + length marker) tail) = None
        then Some (''unterminated '' @ key @ '' ('' @ tail_package tail @ '')'') else None))"

definition truncation_class :: "string \<Rightarrow> string \<Rightarrow> string" where
  "truncation_class tail err = (case unterminated_list tail ''args'' of
       Some class' \<Rightarrow> class'
     | None \<Rightarrow> (case unterminated_list tail ''outputs'' of
         Some class' \<Rightarrow> class'
       | None \<Rightarrow>
           if find_sub ''\"outputs\": \"'' tail \<noteq> None then ''job missing outputs ('' @ tail_package tail @ '')''
           else if find_sub ''EOF while parsing a string'' err \<noteq> None then ''unterminated string''
           else ''truncated manifest ('' @ err @ '')''))"

definition str_list :: "'j json_ops \<Rightarrow> 'j \<Rightarrow> string list option" where
  "str_list js v = map_option (\<lambda>xs. List.map_filter (js_str js) xs) (js_array js v)"

definition string_field :: "'j json_ops \<Rightarrow> string \<Rightarrow> (string \<Rightarrow> 'j option) \<Rightarrow> string \<Rightarrow> forge_fault + string" where
  "string_field js manifest obj key = ok_or (Option.bind (obj key) (js_str js))
     (ManifestFault (manifest @ '': job missing `'' @ key @ ''`''))"

definition job_from_value :: "'j json_ops \<Rightarrow> string \<Rightarrow> 'j \<Rightarrow> forge_fault + job" where
  "job_from_value js manifest value =
     and_then (ok_or (js_object js value) (ManifestFault (manifest @ '': job is not an object''))) (\<lambda>obj.
     and_then (string_field js manifest obj ''package'') (\<lambda>package.
     and_then (string_field js manifest obj ''exe'') (\<lambda>exe.
       let args = (case Option.bind (obj ''args'') (str_list js) of None \<Rightarrow> [] | Some l \<Rightarrow> l) in
       and_then (ok_or (Option.bind (obj ''outputs'') (str_list js))
         (ManifestFault (manifest @ '': job missing outputs ('' @ package @ '')''))) (\<lambda>outputs.
       Inr \<lparr>job_package = package, job_exe = exe, job_args = args, job_outputs = outputs\<rparr>))))"

fun jobs_of_values :: "'j json_ops \<Rightarrow> string \<Rightarrow> 'j list \<Rightarrow> forge_fault + job list" where
  "jobs_of_values js manifest [] = Inr []"
| "jobs_of_values js manifest (v # vs) =
     and_then (job_from_value js manifest v) (\<lambda>j.
     and_then (jobs_of_values js manifest vs) (\<lambda>js'. Inr (j # js')))"

fun stream_loop :: "'j json_ops \<Rightarrow> string \<Rightarrow> string \<Rightarrow> nat \<Rightarrow> 'j stream_item list \<Rightarrow> forge_fault + job list" where
  "stream_loop js manifest json consumed [] = Inr []"
| "stream_loop js manifest json consumed (Item value offset # items) =
     and_then (case js_array js value of
         Some elements \<Rightarrow> jobs_of_values js manifest elements
       | None \<Rightarrow> jobs_of_values js manifest [value]) (\<lambda>jobs.
     and_then (stream_loop js manifest json offset items) (\<lambda>jobs'. Inr (jobs @ jobs')))"
| "stream_loop js manifest json consumed (Broken e # items) =
     Inl (ManifestFault (manifest @ '': '' @ truncation_class (drop consumed json) e))"

definition load_jobs_of :: "'j externals \<Rightarrow> disk \<Rightarrow> string \<Rightarrow> string \<Rightarrow> forge_fault + job list" where
  "load_jobs_of ex d root manifest =
     and_then (map_err (\<lambda>e. ManifestFault (manifest @ '': '' @ io_text e))
       (fs_read_to_string d (path_join root manifest))) (\<lambda>raw.
       let json = join [LF] (filter (\<lambda>l. \<not> prefix ''#'' (trim_start l)) (text_lines raw))
       in stream_loop (ex_json ex) manifest json 0 (ex_stream ex json))"

fun load_manifests :: "'j externals \<Rightarrow> disk \<Rightarrow> string \<Rightarrow> string list \<Rightarrow> forge_fault + job list" where
  "load_manifests ex d root [] = Inr []"
| "load_manifests ex d root (m # ms) =
     and_then (load_jobs_of ex d root m) (\<lambda>jobs.
     and_then (load_manifests ex d root ms) (\<lambda>jobs'. Inr (jobs @ jobs')))"

definition load_jobs :: "'j externals \<Rightarrow> disk \<Rightarrow> string \<Rightarrow> forge_fault + job list" where
  "load_jobs ex d root = and_then (load_manifests ex d root MANIFESTS) (\<lambda>jobs.
     if jobs = [] then Inl (ManifestFault ''job manifests parsed to ZERO jobs -- regenerate (just gen)'')
     else Inr jobs)"

section \<open>Running a job\<close>

definition lean_tc :: "'j externals \<Rightarrow> forge_fault + string" where
  "lean_tc ex = (case ex_env ex ''LEAN_TC'' of
       Some tc \<Rightarrow> Inr tc
     | None \<Rightarrow> and_then (ok_or (ex_env ex ''HOME'')
         (EnvironmentFault ''HOME unset -- cannot locate the elan toolchain (set LEAN_TC or HOME)'')) (\<lambda>home.
         Inr (path_join (path_join (path_join home ''.elan/toolchains'') ''leanprover--lean4---v4.33.0'') ''bin'')))"

definition repo_root :: "'j externals \<Rightarrow> string" where
  "repo_root ex = (case ex_env ex ''DEVENV_ROOT'' of Some r \<Rightarrow> r | None \<Rightarrow> ''.'')"

definition run_cmd :: "'j externals \<Rightarrow> cmd \<Rightarrow> string \<Rightarrow> disk \<Rightarrow> (forge_fault + unit) \<times> disk" where
  "run_cmd ex c what d = (case ex_sys ex c d of
       (Inl e, d') \<Rightarrow> (Inl (SubprocessFault (what @ '': '' @ e)), d')
     | (Inr None, d') \<Rightarrow> (Inr (), d')
     | (Inr (Some status), d') \<Rightarrow> (Inl (SubprocessFault (what @ '': exited '' @ status)), d'))"

definition run_job :: "'j externals \<Rightarrow> string \<Rightarrow> string \<Rightarrow> job \<Rightarrow> disk \<Rightarrow> (forge_fault + unit) \<times> disk" where
  "run_job ex tc root j d =
     (let pkg_dir = path_join (path_join root ''lean'') (job_package j);
          lake = path_join tc ''lake'';
          path = tc @ '':'' @ (case ex_env ex ''PATH'' of Some p \<Rightarrow> p | None \<Rightarrow> []);
          command = (\<lambda>args. \<lparr>cmd_program = lake, cmd_args = [''--dir'', ''../..''] @ args, cmd_dir = pkg_dir, cmd_path = path\<rparr>)
      in case run_cmd ex (command [''build'', job_exe j]) (''lake build '' @ job_exe j) d of
        (Inl e, d') \<Rightarrow> (Inl e, d')
      | (Inr _, d') \<Rightarrow> run_cmd ex (command ([''exe'', job_exe j] @ job_args j))
          (''lake exe '' @ job_exe j @ '' '' @ ex_debug ex (job_args j)) d')"

definition read_if_exists :: "disk \<Rightarrow> string \<Rightarrow> string option" where
  "read_if_exists d p = ok_of (fs_read d p)"

section \<open>Reports and exits\<close>

datatype report =
    Fault forge_fault | IllegalTransition | StoreInit io_error
  | GenJob string nat | JobFailed forge_fault
  | OciStored string string | OciOk string | OciNotStored string | OciDrift string string string
  | OciError string io_error | StoreError io_error | IndexWritten | IndexError io_error
  | DriftLine string | TieClean nat

record exit =
  ex_code :: nat
  ex_disk :: disk
  ex_log :: "report list"

definition exit_with :: "nat \<Rightarrow> disk \<Rightarrow> report list \<Rightarrow> exit" where
  "exit_with n d log = \<lparr>ex_code = n, ex_disk = d, ex_log = log\<rparr>"

text \<open>\<open>advance\<close>: a stage the machine refuses ends the process with exit code one.\<close>

definition advance :: "pipeline_stage \<Rightarrow> pipeline_event \<Rightarrow> disk \<Rightarrow> report list \<Rightarrow> (pipeline_stage \<Rightarrow> exit) \<Rightarrow> exit" where
  "advance stage e d log k = (case pipeline_step stage e of
       Some s \<Rightarrow> k s
     | None \<Rightarrow> exit_with 1 d (log @ [IllegalTransition]))"

section \<open>Generate\<close>

fun gen_loop :: "'j externals \<Rightarrow> string \<Rightarrow> string \<Rightarrow> job list \<Rightarrow> bool \<Rightarrow> disk \<Rightarrow> report list \<Rightarrow>
    bool \<times> disk \<times> report list" where
  "gen_loop ex tc root [] failed d log = (failed, d, log)"
| "gen_loop ex tc root (j # js) failed d log =
     (let log' = log @ [GenJob (job_package j) (length (job_outputs j))] in
      case run_job ex tc root j d of
        (Inl e, d') \<Rightarrow> gen_loop ex tc root js True d' (log' @ [JobFailed e])
      | (Inr _, d') \<Rightarrow> gen_loop ex tc root js failed d' log')"

definition artifact_pairs :: "string \<Rightarrow> job list \<Rightarrow> disk \<Rightarrow> (string \<times> string) list" where
  "artifact_pairs root jobs d =
     filter (\<lambda>(_, path). fs_exists d path) (map (\<lambda>out. (out, path_join root out)) (concat (map job_outputs jobs)))"

definition verify_report :: "string \<Rightarrow> io_error + verify \<Rightarrow> report" where
  "verify_report label r = (case r of
       Inr Match \<Rightarrow> OciOk label
     | Inr NotStored \<Rightarrow> OciNotStored label
     | Inr (Mismatch stored actual) \<Rightarrow> OciDrift label stored actual
     | Inl e \<Rightarrow> OciError label e)"

definition store_phase :: "'j externals \<Rightarrow> string \<Rightarrow> job list \<Rightarrow> oci_store \<Rightarrow> disk \<Rightarrow> report list \<Rightarrow>
    (exit + disk \<times> report list)" where
  "store_phase ex root jobs store d log =
     (let pairs = artifact_pairs root jobs d in
      case store_artifacts (ex_sha ex) store d pairs bt_empty of
        (Inl e, store', d') \<Rightarrow> Inl (exit_with 1 d' (log @ [StoreError e]))
      | (Inr digests, store', d') \<Rightarrow>
          let log1 = log @ map (\<lambda>(l, dg). OciStored l dg) digests;
              results = map (\<lambda>(l, p). (l, oci_verify (ex_sha ex) store' d' l p)) pairs;
              log2 = log1 @ map (\<lambda>(l, r). verify_report l r) results
          in if list_ex (\<lambda>(_, r). r \<noteq> Inr Match) results then Inl (exit_with 1 d' log2)
             else case write_index (ex_json ex) store' d' of
               (Inr _, d'') \<Rightarrow> Inr (d'', log2 @ [IndexWritten])
             | (Inl e, d'') \<Rightarrow> Inr (d'', log2 @ [IndexError e]))"

definition gen_mode :: "'j externals \<Rightarrow> string \<Rightarrow> string \<Rightarrow> bool \<Rightarrow> job list \<Rightarrow> oci_store \<Rightarrow> pipeline_stage \<Rightarrow>
    disk \<Rightarrow> report list \<Rightarrow> exit" where
  "gen_mode ex tc root store_flag jobs store stage d log =
     (case gen_loop ex tc root jobs False d log of (failed, d1, log1) \<Rightarrow>
        advance stage Check d1 log1 (\<lambda>stage. advance stage Emit d1 log1 (\<lambda>stage.
          if store_flag then
            (case store_phase ex root jobs store d1 log1 of
               Inl x \<Rightarrow> x
             | Inr (d2, log2) \<Rightarrow> exit_with (if failed then 1 else 0) d2 log2)
          else exit_with (if failed then 1 else 0) d1 log1)))"

section \<open>The byte-tie check\<close>

fun tie_outputs :: "'j externals \<Rightarrow> string \<Rightarrow> oci_store \<Rightarrow> disk \<Rightarrow> (string \<times> string option) list \<Rightarrow> string list \<Rightarrow>
    report list \<Rightarrow> string list \<times> report list" where
  "tie_outputs ex root store d [] drifted log = (drifted, log)"
| "tie_outputs ex root store d ((out, old) # rest) drifted log =
     (let path = path_join root out;
          old_c = map_option strip_header old;
          new_c = map_option strip_header (read_if_exists d path);
          drifted1 = (if old_c \<noteq> new_c then drifted @ [out] else drifted)
      in case oci_verify (ex_sha ex) store d out path of
           Inr (Mismatch stored actual) \<Rightarrow>
             tie_outputs ex root store d rest (if out \<in> set drifted1 then drifted1 else drifted1 @ [out])
               (log @ [OciDrift out stored actual])
         | Inr _ \<Rightarrow> tie_outputs ex root store d rest drifted1 log
         | Inl e \<Rightarrow> tie_outputs ex root store d rest drifted1 (log @ [OciError out e]))"

fun check_loop :: "'j externals \<Rightarrow> string \<Rightarrow> string \<Rightarrow> oci_store \<Rightarrow> job list \<Rightarrow> disk \<Rightarrow> string list \<Rightarrow> report list \<Rightarrow>
    (exit + disk \<times> string list \<times> report list)" where
  "check_loop ex tc root store [] d drifted log = Inr (d, drifted, log)"
| "check_loop ex tc root store (j # js) d drifted log =
     (let before = map (\<lambda>out. (out, read_if_exists d (path_join root out))) (job_outputs j) in
      case run_job ex tc root j d of
        (Inl e, d') \<Rightarrow> Inl (exit_with 1 d' (log @ [JobFailed e]))
      | (Inr _, d') \<Rightarrow> (case tie_outputs ex root store d' before drifted log of
          (drifted', log') \<Rightarrow> check_loop ex tc root store js d' drifted' log'))"

definition check_mode :: "'j externals \<Rightarrow> string \<Rightarrow> string \<Rightarrow> job list \<Rightarrow> oci_store \<Rightarrow> pipeline_stage \<Rightarrow> disk \<Rightarrow>
    report list \<Rightarrow> exit" where
  "check_mode ex tc root jobs store stage d log =
     advance stage Check d log (\<lambda>stage. advance stage Emit d log (\<lambda>stage. advance stage Tie d log (\<lambda>stage.
       case check_loop ex tc root store jobs d [] log of
         Inl x \<Rightarrow> x
       | Inr (d', drifted, log') \<Rightarrow>
           if drifted = [] then exit_with 0 d' (log' @ [TieClean (length jobs)])
           else exit_with 1 d' (log' @ map DriftLine drifted))))"

section \<open>The process\<close>

definition forge_main :: "'j externals \<Rightarrow> string list \<Rightarrow> disk \<Rightarrow> exit" where
  "forge_main ex args d =
     (let check = ''--check'' \<in> set args; store_flag = ''--store'' \<in> set args in
      case lean_tc ex of
        Inl e \<Rightarrow> exit_with 1 d [Fault e]
      | Inr tc \<Rightarrow>
          let root = repo_root ex in
          case oci_open (ex_json ex) (path_join root ''cache/oci'') d of
            (Inl e, d1) \<Rightarrow> exit_with 1 d1 [StoreInit e]
          | (Inr store, d1) \<Rightarrow>
              (case load_jobs ex d1 root of
                 Inl e \<Rightarrow> exit_with 1 d1 [Fault e]
               | Inr jobs \<Rightarrow> advance Idle Reflect d1 [] (\<lambda>stage.
                   if check then check_mode ex tc root jobs store stage d1 []
                   else gen_mode ex tc root store_flag jobs store stage d1 [])))"

end
