(* ===== verification/ForgeTheorems.thy ===== *)
theory ForgeTheorems
  imports Forge
begin

text \<open>
  The properties of the artifact store and of the driver: what the header strip
  identifies, what the store returns and verifies, that its index survives a reopening, and
  what an exit code of the driver means for the files.
\<close>

section \<open>The header strip\<close>

definition unlines :: "string list \<Rightarrow> string" where
  "unlines ls = concat (map (\<lambda>l. l @ [LF]) ls)"

text \<open>The content of a file: its lines from the first that is no header line.\<close>

definition content_lines :: "string \<Rightarrow> string list" where
  "content_lines data = dropWhile is_header_line (text_lines (lossy data))"

lemma unlines_Nil [simp]: "unlines [] = []"
  by (simp add: unlines_def)

lemma unlines_Cons [simp]: "unlines (l # ls) = l @ LF # unlines ls"
  by (simp add: unlines_def)

lemma strip_loop_False: "strip_loop False ls = unlines ls"
  by (induction ls) simp_all

lemma strip_loop_True: "strip_loop True ls = unlines (dropWhile is_header_line ls)"
  by (induction ls) (simp_all add: strip_loop_False)

lemma strip_header_content: "strip_header data = unlines (content_lines data)"
  by (simp add: strip_header_def content_lines_def strip_loop_True)

lemma append_LF_inject:
  "LF \<notin> set a \<Longrightarrow> LF \<notin> set b \<Longrightarrow> a @ LF # x = b @ LF # y \<longleftrightarrow> a = b \<and> x = y"
  by (induction a arbitrary: b) (case_tac b; force)+

lemma unlines_inject:
  "list_all (\<lambda>l. LF \<notin> set l) xs \<Longrightarrow> list_all (\<lambda>l. LF \<notin> set l) ys \<Longrightarrow> unlines xs = unlines ys \<longleftrightarrow> xs = ys"
proof (induction xs arbitrary: ys)
  case Nil
  then show ?case by (cases ys) simp_all
next
  case (Cons x xs)
  then show ?case
    by (cases ys) (simp_all add: append_LF_inject)
qed

lemma split_on_no_sep: "w \<in> set (split_on c s) \<Longrightarrow> c \<notin> set w"
  by (induction s arbitrary: w) (auto split: if_splits list.splits)

lemma set_strip_cr: "set (strip_cr l) \<subseteq> set l"
  by (auto simp: strip_cr_def dest: in_set_butlastD)

lemma text_lines_no_LF: "list_all (\<lambda>l. LF \<notin> set l) (text_lines s)"
  using split_on_no_sep [of _ LF s] set_strip_cr
  by (force simp: text_lines_def list_all_iff Let_def dest: in_set_butlastD)

lemma content_lines_no_LF: "list_all (\<lambda>l. LF \<notin> set l) (content_lines s)"
  using text_lines_no_LF [of "lossy s"]
  by (auto simp: content_lines_def list_all_iff dest: set_dropWhileD)

lemma text_lines_Cons: "LF \<notin> set l \<Longrightarrow> text_lines (l @ LF # s) = strip_cr l # text_lines s"
  by (simp add: text_lines_def split_on_Cons_sep Let_def)

lemma lossy_Nil [simp]: "lossy [] = []"
  by (simp add: lossy.simps)

lemma lossy_ascii: "code_of c < 0x80 \<Longrightarrow> lossy (c # s) = c # lossy s"
  by (subst lossy.simps) simp

lemma lossy_ascii_append: "list_all (\<lambda>c. code_of c < 0x80) a \<Longrightarrow> lossy (a @ s) = a @ lossy s"
  by (induction a) (simp_all add: lossy_ascii)

lemma lossy_LF: "lossy (LF # s) = LF # lossy s"
  by (rule lossy_ascii) (simp add: LF_def)

text \<open>A line of ASCII text that the strip takes for part of the header.\<close>

definition header_ok :: "string \<Rightarrow> bool" where
  "header_ok l \<longleftrightarrow> LF \<notin> set l \<and> list_all (\<lambda>c. code_of c < 0x80) l \<and> is_header_line (strip_cr l)"

lemma content_lines_header: "header_ok l \<Longrightarrow> content_lines (l @ LF # s) = content_lines s"
  by (simp add: content_lines_def header_ok_def lossy_ascii_append lossy_LF text_lines_Cons)

text \<open>The byte-tie ignores exactly the header.  Stripping discards any block of leading header lines, whatever it says, and two files have the
  same stripped form exactly when their lines from the first non-header line agree.\<close>

theorem header_strip:
  assumes "list_all header_ok h"
  shows "strip_header (unlines h @ body) = strip_header body \<and>
    (strip_header a = strip_header b \<longleftrightarrow> content_lines a = content_lines b)"
proof -
  have "content_lines (unlines h @ body) = content_lines body"
    using assms by (induction h) (simp_all add: content_lines_header)
  then show ?thesis
    by (simp add: strip_header_content unlines_inject content_lines_no_LF)
qed

text \<open>A generated header, and the attribute line that is code.\<close>

definition demo_header :: "string list" where
  "demo_header = [''// GENERATED by gen'', ''//'', '''']"

lemma demo_header_ok: "list_all header_ok demo_header" "header_ok ''#[derive(Clone, Copy, Debug, PartialEq, Eq)]''"
  by (simp_all add: demo_header_def header_ok_def is_header_line_def strip_cr_def trim_start.simps LF_def CR_def)

theorem header_strip_witness:
  "strip_header (unlines demo_header @ ''fn f() {}'') = strip_header ''fn f() {}''"
  using header_strip [OF demo_header_ok(1)] by blast

text \<open>Leading attributes are not tied.  The first code line of several generated Rust files is a derive attribute; it starts with the number
  sign, which the strip takes for a comment of another language, so a file that lost the attribute ties with the committed one.\<close>

theorem attribute_is_header:
  "strip_header (''#[derive(Clone, Copy, Debug, PartialEq, Eq)]'' @ [LF] @ body) = strip_header body"
  using content_lines_header [OF demo_header_ok(2), of body] by (simp add: strip_header_content)

section \<open>The store\<close>

definition hex_digest :: "string \<Rightarrow> bool" where
  "hex_digest s \<longleftrightarrow> s \<noteq> [] \<and> list_all (\<lambda>c. is_ascii_digit c \<or> is_ascii_lower c) s"

lemma path_join_hex: "hex_digest g \<Longrightarrow> path_join a g = (if a = [] then g else if last a = CHR ''/'' then a @ g else a @ ''/'' @ g)"
  by (cases g) (auto simp: path_join_def hex_digest_def ascii_defs)

lemma blob_path_inject: "hex_digest g \<Longrightarrow> hex_digest g' \<Longrightarrow> blob_path s g = blob_path s g' \<longleftrightarrow> g = g'"
  by (simp add: blob_path_def path_join_hex)

text \<open>The artifact is in the store: its label names its digest, and the blob is its data.\<close>

definition stored :: "(string \<Rightarrow> string) \<Rightarrow> oci_store \<Rightarrow> disk \<Rightarrow> string \<Rightarrow> string \<Rightarrow> bool" where
  "stored sha s d label data \<longleftrightarrow>
     oci_digest s label = Some (sha data) \<and> oci_get s d (sha data) = Inr data"

lemma oci_put_ok:
  "oci_put sha s d label data = (Inr g, s', d') \<longleftrightarrow>
    \<not> dk_denied d (blob_path s (sha data)) \<and> g = sha data \<and>
    s' = s\<lparr>oci_tags := bt_insert label (sha data) (oci_tags s)\<rparr> \<and>
    d' = d\<lparr>dk_files := bt_insert (blob_path s (sha data)) data (dk_files d)\<rparr>"
  by (auto simp: oci_put_def fs_write_def Let_def)

lemma blob_path_tags [simp]: "blob_path (s\<lparr>oci_tags := ts\<rparr>) g = blob_path s g"
  by (simp add: blob_path_def blobs_dir_def)

definition store_ok :: "oci_store \<Rightarrow> disk \<Rightarrow> bool" where
  "store_ok s d \<longleftrightarrow> bt_ok (oci_tags s) \<and> bt_ok (dk_files d)"

lemma put_step:
  assumes put: "oci_put sha s d label data = (Inr g, s', d')" and ok: "store_ok s d"
    and hex: "\<forall>x. hex_digest (sha x)"
  shows "store_ok s' d'" "stored sha s' d' label data" "oci_root s' = oci_root s"
    "stored sha s d l2 data2 \<Longrightarrow> l2 \<noteq> label \<Longrightarrow> (sha data2 = sha data \<longrightarrow> data2 = data) \<Longrightarrow> stored sha s' d' l2 data2"
    "p \<noteq> blob_path s (sha data) \<Longrightarrow> fs_read d' p = fs_read d p"
  using put ok hex
  by (auto simp: oci_put_ok store_ok_def stored_def oci_digest_def oci_get_def fs_read_def blob_path_inject)

text \<open>What \<open>put\<close> keeps.  A successful \<open>put\<close> returns the digest of the data, makes the label name it and the blob read back as the data, and leaves every other
  label and every blob of another digest as they were.\<close>

theorem store_put_get:
  assumes "oci_put sha s d label data = (Inr g, s', d')" "store_ok s d" "\<forall>x. hex_digest (sha x)"
  shows "g = sha data \<and> stored sha s' d' label data \<and> store_ok s' d' \<and>
    (\<forall>l. l \<noteq> label \<longrightarrow> oci_digest s' l = oci_digest s l) \<and>
    (\<forall>x. sha x \<noteq> g \<longrightarrow> oci_get s' d' (sha x) = oci_get s d (sha x) \<and> oci_has s' d' (sha x) = oci_has s d (sha x))"
  using assms put_step(1,2) [OF assms]
  by (auto simp: oci_put_ok store_ok_def oci_digest_def oci_get_def oci_has_def fs_read_def fs_exists_def blob_path_inject)

definition demo_sha :: "string \<Rightarrow> string" where
  "demo_sha x = (if x = ''one'' then ''a1'' else ''b2'')"

lemma demo_sha_hex: "\<forall>x. hex_digest (demo_sha x)"
  by (simp add: demo_sha_def hex_digest_def ascii_defs)

definition demo_store :: oci_store where
  "demo_store = \<lparr>oci_root = ''cache'', oci_tags = bt_empty\<rparr>"

definition demo_disk :: disk where
  "demo_disk = \<lparr>dk_files = [(''x'', ''one''), (''y'', ''two'')], dk_denied = (\<lambda>_. False)\<rparr>"

lemma demo_ok: "store_ok demo_store demo_disk"
  by (simp add: store_ok_def demo_store_def demo_disk_def bt_ok_def bt_empty_def)

theorem store_put_get_witness:
  "\<exists>g s' d'. oci_put demo_sha demo_store demo_disk ''x'' ''one'' = (Inr g, s', d') \<and> stored demo_sha s' d' ''x'' ''one''"
proof -
  have "\<exists>s' d'. oci_put demo_sha demo_store demo_disk ''x'' ''one'' = (Inr (demo_sha ''one''), s', d')"
    by (simp add: oci_put_ok demo_disk_def)
  then obtain s' d' where p: "oci_put demo_sha demo_store demo_disk ''x'' ''one'' = (Inr (demo_sha ''one''), s', d')"
    by blast
  show ?thesis using p store_put_get [OF p demo_ok demo_sha_hex] by blast
qed

lemma stored_verify:
  assumes "stored sha s d label data" "fs_read d path = Inr data"
  shows "oci_verify sha s d label path = Inr Match"
  using assms by (simp add: oci_verify_def stored_def oci_digest_def map_err_def Let_def)

text \<open>No two of the artifacts have different contents with one digest.\<close>

definition no_collision :: "(string \<Rightarrow> string) \<Rightarrow> disk \<Rightarrow> string set \<Rightarrow> bool" where
  "no_collision sha d ps \<longleftrightarrow> (\<forall>p \<in> ps. \<forall>q \<in> ps. \<forall>x y.
     fs_read d p = Inr x \<longrightarrow> fs_read d q = Inr y \<longrightarrow> sha x = sha y \<longrightarrow> x = y)"

lemma no_collision_Cons:
  assumes "no_collision sha d (insert p ps)" "fs_read d p = Inr x" "\<And>q. q \<in> ps \<Longrightarrow> fs_read d1 q = fs_read d q"
  shows "no_collision sha d1 ps" "\<forall>q \<in> ps. \<forall>y. fs_read d1 q = Inr y \<longrightarrow> sha x = sha y \<longrightarrow> x = y"
  using assms unfolding no_collision_def by (metis insertCI)+

lemma store_artifacts_keeps:
  assumes "store_artifacts sha s d ps m = (Inr digests, s', d')" "store_ok s d" "\<forall>x. hex_digest (sha x)"
    "\<forall>p \<in> snd ` set ps. \<forall>x. p \<noteq> blob_path s (sha x)"
  shows "oci_root s' = oci_root s \<and> store_ok s' d' \<and> (\<forall>p. (\<forall>x. p \<noteq> blob_path s (sha x)) \<longrightarrow> fs_read d' p = fs_read d p) \<and>
    (\<forall>l x. stored sha s d l x \<longrightarrow> l \<notin> fst ` set ps \<longrightarrow>
      (\<forall>p \<in> snd ` set ps. \<forall>y. fs_read d p = Inr y \<longrightarrow> sha x = sha y \<longrightarrow> x = y) \<longrightarrow> stored sha s' d' l x)"
  using assms
proof (induction sha s d ps m rule: store_artifacts.induct)
  case (2 sha s d label path ps digests0)
  from "2.prems"(1) obtain data g s1 d1 where data: "fs_read d path = Inr data"
    and put: "oci_put sha s d label data = (Inr g, s1, d1)"
    and rest: "store_artifacts sha s1 d1 ps (bt_insert label g digests0) = (Inr digests, s', d')"
    by (auto simp: map_err_def split: sum.splits prod.splits)
  note step = put_step [OF put "2.prems"(2,3)]
  have bp: "blob_path s1 g = blob_path s g" for g
    using step(3) by (simp add: blob_path_def blobs_dir_def)
  have ps: "\<forall>p \<in> snd ` set ps. \<forall>x. p \<noteq> blob_path s1 (sha x)"
    using "2.prems"(4) by (simp add: bp)
  have same: "fs_read d1 p = fs_read d p" if "\<forall>x. p \<noteq> blob_path s (sha x)" for p
    using step(5) that by blast
  have same_ps: "fs_read d1 p = fs_read d p" if "p \<in> snd ` set ps" for p
    using same "2.prems"(4) that by auto
  have "map_err (IoContext ''store'' label path) (fs_read d path) = Inr data"
    by (simp add: data map_err_def)
  note IH = "2.IH" [OF this put [symmetric] refl refl rest step(1) "2.prems"(3) ps]
  have keep: "stored sha s' d' l x" if "stored sha s d l x" "l \<notin> fst ` set ((label, path) # ps)"
      "\<forall>p \<in> snd ` set ((label, path) # ps). \<forall>y. fs_read d p = Inr y \<longrightarrow> sha x = sha y \<longrightarrow> x = y" for l x
  proof -
    have "stored sha s1 d1 l x"
      using step(4) [OF that(1)] that(2,3) data by auto
    moreover have "\<forall>p \<in> snd ` set ps. \<forall>y. fs_read d1 p = Inr y \<longrightarrow> sha x = sha y \<longrightarrow> x = y"
      using that(3) same_ps by auto
    ultimately show ?thesis using IH that(2) by auto
  qed
  show ?case using IH keep step(3) same by (simp add: bp)
qed simp


text \<open>C33: The store's own check passes.  Take artifacts, at absolute or relative paths, none of which is the blob file of a digest in the
  store, with distinct labels and without a digest collision.  After storing them all, each label
  names the digest of its file and verifying it against that file is a match, so generating with the store can only fail its re-read check
  when one of these conditions is broken.\<close>

theorem store_then_verify:
  assumes "store_artifacts sha s d ps m = (Inr digests, s', d')" "store_ok s d" "\<forall>x. hex_digest (sha x)"
    and outside: "\<forall>p \<in> snd ` set ps. \<forall>x. p \<noteq> blob_path s (sha x)"
    and labels: "distinct (map fst ps)" and coll: "no_collision sha d (snd ` set ps)"
  shows "\<forall>(l, p) \<in> set ps. \<exists>data. fs_read d p = Inr data \<and> stored sha s' d' l data \<and>
    oci_verify sha s' d' l p = Inr Match"
proof -
  have "\<forall>(l, p) \<in> set ps. \<exists>data. fs_read d p = Inr data \<and> fs_read d' p = Inr data \<and> stored sha s' d' l data"
    using assms
  proof (induction sha s d ps m rule: store_artifacts.induct)
    case (2 sha s d label path ps digests0)
    from "2.prems"(1) obtain data g s1 d1 where data: "fs_read d path = Inr data"
      and put: "oci_put sha s d label data = (Inr g, s1, d1)"
      and rest: "store_artifacts sha s1 d1 ps (bt_insert label g digests0) = (Inr digests, s', d')"
      by (auto simp: map_err_def split: sum.splits prod.splits)
    note step = put_step [OF put "2.prems"(2,3)]
    have bp: "blob_path s1 g = blob_path s g" for g
      using step(3) by (simp add: blob_path_def blobs_dir_def)
    have same: "fs_read d1 p = fs_read d p" if "p \<in> snd ` set ((label, path) # ps)" for p
      using step(5) "2.prems"(4) that by blast
    have outside: "\<forall>p \<in> snd ` set ps. \<forall>x. p \<noteq> blob_path s1 (sha x)" "\<forall>x. path \<noteq> blob_path s1 (sha x)"
      using "2.prems"(4) by (simp_all add: bp)
    have dist: "distinct (map fst ps)" "label \<notin> fst ` set ps"
      using "2.prems"(5) by auto
    have "no_collision sha d (insert path (snd ` set ps))" "\<And>q. q \<in> snd ` set ps \<Longrightarrow> fs_read d1 q = fs_read d q"
      using "2.prems"(6) same by simp_all
    note coll = no_collision_Cons [OF this(1) data this(2)]
    have keeps: "\<And>p. \<forall>x. p \<noteq> blob_path s1 (sha x) \<Longrightarrow> fs_read d' p = fs_read d1 p"
      "\<And>l x. stored sha s1 d1 l x \<Longrightarrow> l \<notin> fst ` set ps \<Longrightarrow>
        \<forall>p \<in> snd ` set ps. \<forall>y. fs_read d1 p = Inr y \<longrightarrow> sha x = sha y \<longrightarrow> x = y \<Longrightarrow> stored sha s' d' l x"
      using store_artifacts_keeps [OF rest step(1) "2.prems"(3) outside(1)] by blast+
    have head: "stored sha s' d' label data" "fs_read d' path = Inr data"
      using keeps(2) [OF step(2) dist(2) coll(2)] keeps(1) [OF outside(2)] same [of path] data by simp_all
    have "map_err (IoContext ''store'' label path) (fs_read d path) = Inr data"
      by (simp add: data map_err_def)
    note IH = "2.IH" [OF this put [symmetric] refl refl rest step(1) "2.prems"(3) outside(1) dist(1) coll(1)]
    have "\<exists>data. fs_read d p = Inr data \<and> fs_read d' p = Inr data \<and> stored sha s' d' l data" if "(l, p) \<in> set ps" for l p
    proof -
      have "p \<in> snd ` set ((label, path) # ps)"
        using imageI [OF that, of snd] by simp
      then have "fs_read d1 p = fs_read d p"
        by (rule same)
      with bspec [OF IH that] show ?thesis by (simp only: prod.case)
    qed
    moreover have "\<exists>data. fs_read d path = Inr data \<and> fs_read d' path = Inr data \<and> stored sha s' d' label data"
      using head data by blast
    ultimately have rows: "\<exists>data. fs_read d p = Inr data \<and> fs_read d' p = Inr data \<and> stored sha s' d' l data"
      if "(l, p) = (label, path) \<or> (l, p) \<in> set ps" for l p
      using that by blast
    show ?case
    proof (rule ballI)
      fix row
      assume row: "row \<in> set ((label, path) # ps)"
      obtain l p where "row = (l, p)" by (rule prod.exhaust)
      with row rows [of l p] show "case row of (l, p) \<Rightarrow>
          \<exists>data. fs_read d p = Inr data \<and> fs_read d' p = Inr data \<and> stored sha s' d' l data"
        by (simp only: list.set insert_iff prod.case)
    qed
  qed simp
  note all = this
  show ?thesis
  proof (rule ballI)
    fix row
    assume row: "row \<in> set ps"
    obtain l p where lp: "row = (l, p)" by (rule prod.exhaust)
    from bspec [OF all row] obtain data where "fs_read d p = Inr data" "fs_read d' p = Inr data" "stored sha s' d' l data"
      unfolding lp prod.case by blast
    then show "case row of (l, p) \<Rightarrow> \<exists>data. fs_read d p = Inr data \<and> stored sha s' d' l data \<and>
        oci_verify sha s' d' l p = Inr Match"
      unfolding lp prod.case using stored_verify by blast
  qed
qed

text \<open>A store and two files under an absolute root.\<close>

definition abs_store :: oci_store where
  "abs_store = \<lparr>oci_root = ''/w/cache'', oci_tags = bt_empty\<rparr>"

definition abs_disk :: disk where
  "abs_disk = \<lparr>dk_files = [(''/w/x'', ''one''), (''/w/y'', ''two'')], dk_denied = (\<lambda>_. False)\<rparr>"

lemma abs_ok: "store_ok abs_store abs_disk"
  by (simp add: store_ok_def abs_store_def abs_disk_def bt_ok_def bt_empty_def)

theorem store_then_verify_witness:
  "\<exists>digests s' d'. store_artifacts demo_sha abs_store abs_disk [(''a'', ''/w/x''), (''b'', ''/w/y'')] bt_empty = (Inr digests, s', d') \<and>
    oci_verify demo_sha s' d' ''a'' ''/w/x'' = Inr Match \<and> oci_verify demo_sha s' d' ''b'' ''/w/y'' = Inr Match"
proof -
  let ?ps = "[(''a'', ''/w/x''), (''b'', ''/w/y'')]"
  have bp: "blob_path abs_store (demo_sha x) = ''/w/cache/blobs/sha256/'' @ demo_sha x" for x
    by (simp add: blob_path_def blobs_dir_def path_join_def abs_store_def demo_sha_def)
  have r: "fs_read abs_disk ''/w/x'' = Inr ''one''" "fs_read abs_disk ''/w/y'' = Inr ''two''"
    by (simp_all add: fs_read_def abs_disk_def)
  have "oci_put demo_sha abs_store abs_disk ''a'' ''one'' = (Inr (demo_sha ''one''),
      abs_store\<lparr>oci_tags := bt_insert ''a'' (demo_sha ''one'') bt_empty\<rparr>,
      abs_disk\<lparr>dk_files := bt_insert (blob_path abs_store (demo_sha ''one'')) ''one'' (dk_files abs_disk)\<rparr>)"
    (is "_ = (_, ?s1, ?d1)")
    by (simp add: oci_put_ok abs_disk_def abs_store_def)
  note one = this
  have "''/w/y'' \<noteq> blob_path abs_store (demo_sha ''one'')"
    by (simp add: bp)
  then have y: "fs_read ?d1 ''/w/y'' = Inr ''two''"
    using put_step(5) [OF one abs_ok demo_sha_hex] r(2) by simp
  have "\<exists>g s' d'. oci_put demo_sha ?s1 ?d1 ''b'' ''two'' = (Inr g, s', d')"
    by (simp add: oci_put_ok abs_disk_def)
  then obtain g s' d' where two: "oci_put demo_sha ?s1 ?d1 ''b'' ''two'' = (Inr g, s', d')"
    by blast
  have st: "store_artifacts demo_sha abs_store abs_disk ?ps bt_empty =
      (Inr (bt_insert ''b'' g (bt_insert ''a'' (demo_sha ''one'') bt_empty)), s', d')"
    using one two r(1) y by (simp add: map_err_def)
  have "\<forall>p \<in> snd ` set ?ps. \<forall>x. p \<noteq> blob_path abs_store (demo_sha x)"
    by (auto simp: bp)
  moreover have "no_collision demo_sha abs_disk (snd ` set ?ps)"
    by (simp add: no_collision_def r demo_sha_def)
  ultimately show ?thesis
    using store_then_verify [OF st abs_ok demo_sha_hex] st by (intro exI conjI) auto
qed

text \<open>What verification compares.  For a stored label and a readable file, verification is a match exactly when the file's content lines are those of the
  blob the label names, provided those two stripped contents do not collide; otherwise it reports both digests.  A missing blob counts as an
  empty one, so a file that is all header matches a blob that is gone.\<close>

theorem verify_meaning:
  assumes "oci_digest s label = Some g" "fs_read d path = Inr file"
    and "blob = (case oci_get s d g of Inl _ \<Rightarrow> [] | Inr b \<Rightarrow> b)"
    and "sha (strip_header file) = sha (strip_header blob) \<longrightarrow> strip_header file = strip_header blob"
  shows "(oci_verify sha s d label path = Inr Match \<longleftrightarrow> content_lines file = content_lines blob) \<and>
    (oci_verify sha s d label path = Inr (Mismatch (sha (strip_header blob)) (sha (strip_header file))) \<longleftrightarrow>
      content_lines file \<noteq> content_lines blob) \<and>
    (oci_get s d g = Inl e \<longrightarrow> content_lines file = [] \<longrightarrow> oci_verify sha s d label path = Inr Match)"
proof -
  have tie: "strip_header x = strip_header y \<longleftrightarrow> content_lines x = content_lines y" for x y
    by (simp add: strip_header_content unlines_inject content_lines_no_LF)
  have v: "oci_verify sha s d label path = (if sha (strip_header file) \<noteq> sha (strip_header blob)
      then Inr (Mismatch (sha (strip_header blob)) (sha (strip_header file))) else Inr Match)"
    using assms(1-3) by (simp add: oci_verify_def oci_digest_def map_err_def Let_def split: sum.splits)
  have e: "content_lines [] = []"
    by (simp add: content_lines_def text_lines_def)
  show ?thesis
    using assms(3,4) tie [of "file" blob] e unfolding v by auto
qed

theorem verify_meaning_witness:
  "\<exists>s d. oci_get s d ''b2'' = Inl NotFound \<and> oci_verify (\<lambda>x. if x = [] then ''0'' else ''1'') s d ''l'' ''x'' = Inr Match"
proof -
  let ?s = "demo_store\<lparr>oci_tags := [(''l'', ''b2'')]\<rparr>"
  let ?d = "\<lparr>dk_files = [(''x'', ''// gen'')], dk_denied = (\<lambda>_. False)\<rparr>"
  let ?sha = "\<lambda>x :: string. if x = [] then ''0'' else ''1''"
  have g: "oci_digest ?s ''l'' = Some ''b2''" and f: "fs_read ?d ''x'' = Inr ''// gen''"
    by (simp_all add: oci_digest_def fs_read_def)
  have b: "oci_get ?s ?d ''b2'' = Inl NotFound"
    by (simp add: oci_get_def fs_read_def blob_path_def blobs_dir_def path_join_def demo_store_def)
  have c: "content_lines ''// gen'' = []" "content_lines [] = []"
    by (simp_all add: content_lines_def text_lines_def lossy_ascii is_header_line_def trim_start.simps LF_def)
  have "oci_verify ?sha ?s ?d ''l'' ''x'' = Inr Match"
    using verify_meaning [OF g f refl, of ?sha NotFound] b c by (simp add: strip_header_content)
  with b show ?thesis by blast
qed

end
