(* ===== verification/DriverTheorems.thy ===== *)
theory DriverTheorems
  imports ForgeTheorems
begin

text \<open>
  The properties of the generator driver and of the store's index: the index read back at
  the next start is the store that wrote it, the stage machine never stops the driver, and
  what exit code zero of the check mode and of the generate mode means for the files.
\<close>

section \<open>The index\<close>

lemma bt_insert_last: "\<forall>k' \<in> fst ` set m. k' < k \<Longrightarrow> bt_insert k v m = m @ [(k, v)]"
  by (induction m) (auto dest: less_imp_not_less)

lemma foldl_insert_sorted:
  "bt_ok (m @ xs) \<Longrightarrow> foldl (\<lambda>m (k, v). bt_insert k v m) m xs = m @ xs"
proof (induction xs arbitrary: m)
  case (Cons x xs)
  obtain k v where x: "x = (k, v)" by (rule prod.exhaust)
  have "\<forall>k' \<in> fst ` set m. k' < k"
    using Cons.prems x by (auto simp: bt_ok_def sorted_wrt_append)
  then show ?case
    using Cons.IH [of "m @ [x]"] Cons.prems x by (simp add: bt_insert_last)
qed simp

lemma tag_of_entry:
  assumes "json_laws js"
  shows "tag_of js (manifest_entry js g n (Some l)) = Some (l, g)" "tag_of js (manifest_entry js g n None) = None"
proof -
  note laws = json_laws_simps [OF assms]
  let ?fs = "[(''mediaType'', js_mk_str js ''application/vnd.guestlang.artifact''),
    (''digest'', js_mk_str js (''sha256:'' @ g)), (''size'', js_mk_num js n)]"
  let ?as = "[(LABEL_ANNOTATION, js_mk_str js l)]"
  have pre: "strip_pre ''sha256:'' (''sha256:'' @ g) = Some g"
    by (simp add: strip_pre_def)
  have "js_index js (js_mk_obj js (?fs @ [(''annotations'', js_mk_obj js ?as)])) ''digest'' = js_mk_str js (''sha256:'' @ g)"
    "js_index js (js_mk_obj js (?fs @ [(''annotations'', js_mk_obj js ?as)])) ''annotations'' = js_mk_obj js ?as"
    "js_index js (js_mk_obj js ?as) LABEL_ANNOTATION = js_mk_str js l"
    by (rule laws(3); simp)+
  then show "tag_of js (manifest_entry js g n (Some l)) = Some (l, g)"
    unfolding tag_of_def manifest_entry_def option.case by (simp only: laws(1) bind.simps pre)
  have "js_index js (js_mk_obj js ?fs) ''digest'' = js_mk_str js (''sha256:'' @ g)"
    by (rule laws(3)) simp_all
  moreover have "js_str js (js_index js (js_index js (js_mk_obj js ?fs) ''annotations'') LABEL_ANNOTATION) = None"
    by (rule laws(4)) simp
  ultimately show "tag_of js (manifest_entry js g n None) = None"
    unfolding tag_of_def manifest_entry_def option.case append_Nil2 by (simp only: laws(1) bind.simps pre)
qed

lemma map_filter_append: "List.map_filter f (xs @ ys) = List.map_filter f xs @ List.map_filter f ys"
  by (simp add: List.map_filter_def)

lemma tags_of_index:
  assumes "json_laws js" "bt_ok (oci_tags s)"
  shows "\<exists>ms. js_array js (js_index js (index_doc js s d) ''manifests'') = Some ms \<and>
    foldl (\<lambda>m (l, dg). bt_insert l dg m) bt_empty (List.map_filter (tag_of js) ms) = oci_tags s"
proof -
  let ?sz = "\<lambda>digest. file_size d (blob_path s digest)"
  let ?tagged = "map (\<lambda>(label, digest). manifest_entry js digest (?sz digest) (Some label)) (oci_tags s)"
  let ?untagged = "map (\<lambda>digest. manifest_entry js digest (?sz digest) None)
    (sort (filter (\<lambda>dg. dg \<notin> set (bt_values (oci_tags s))) (dir_entries d (blobs_dir s))))"
  have "js_index js (index_doc js s d) ''manifests'' = js_mk_arr js (?tagged @ ?untagged)"
    unfolding index_doc_def Let_def by (rule json_laws_simps(3) [OF assms(1)]) simp_all
  moreover have "List.map_filter (tag_of js)
      (map (\<lambda>(label, digest). manifest_entry js digest (?sz digest) (Some label)) ts) = ts" for ts
    by (induction ts) (auto simp: List.map_filter_simps tag_of_entry(1) [OF assms(1)])
  moreover have "List.map_filter (tag_of js) (map (\<lambda>digest. manifest_entry js digest (?sz digest) None) gs) = []" for gs
    by (induction gs) (simp_all add: List.map_filter_simps tag_of_entry(2) [OF assms(1)])
  ultimately show ?thesis
    using foldl_insert_sorted [of "[]" "oci_tags s"] assms(2)
    by (simp add: json_laws_simps(2) [OF assms(1)] map_filter_append bt_empty_def)
qed

text \<open>C34: The index survives.  When writing the index succeeds, and its text is valid UTF-8 that the JSON crate reads back, opening the store again
  on the files it left gives exactly the store that wrote it: every label names the digest it named, however many
  untagged blobs are listed with them, and nothing more is written.\<close>

theorem index_reopens:
  assumes written: "write_index js s d = (Inr (), d')"
    and laws: "json_laws js" and ok: "store_ok s d"
    and parsed: "js_parse js (js_pretty js (index_doc js s d)) = Some (index_doc js s d)"
    and utf8: "utf8_valid (js_pretty js (index_doc js s d))"
    and layout: "fs_exists d (path_join (oci_root s) ''oci-layout'')"
  shows "oci_open js (oci_root s) d' = (Inr s, d')"
proof -
  let ?index = "path_join (oci_root s) ''index.json''"
  let ?text = "js_pretty js (index_doc js s d)"
  have w: "\<not> dk_denied d (blobs_dir s)" "\<not> dk_denied d ?index" "d' = d\<lparr>dk_files := bt_insert ?index ?text (dk_files d)\<rparr>"
    using written by (auto simp: write_index_def fs_write_def split: if_splits)
  have files: "bt_ok (dk_files d)" "bt_ok (oci_tags s)"
    using ok by (simp_all add: store_ok_def)
  have ex: "fs_exists d' (path_join (oci_root s) ''oci-layout'')" "fs_exists d' ?index"
    using layout files(1) by (simp_all add: w(3) fs_exists_def)
  have raw: "fs_read_to_string d' ?index = Inr ?text"
    using w(2) files(1) utf8 by (simp add: w(3) fs_read_to_string_def fs_read_def)
  have tags: "load_tags js d' ?index = oci_tags s"
    using tags_of_index [OF laws files(2), of d] parsed by (auto simp: load_tags_def raw)
  have "\<not> dk_denied d' (path_join (oci_root s) ''blobs/sha256'')"
    using w(1) by (simp add: w(3) blobs_dir_def)
  then show ?thesis
    using ex tags by (simp add: oci_open_def Let_def)
qed

theorem index_reopens_witness:
  "\<exists>s d d'. oci_tags s = [(''a'', ''b2'')] \<and> (\<exists>js. oci_open (js :: json_doc json_ops) (oci_root s) d' = (Inr s, d') \<and> write_index js s d = (Inr (), d'))"
proof -
  let ?s = "\<lparr>oci_root = ''r'', oci_tags = [(''a'', ''b2'')]\<rparr>"
  let ?d = "\<lparr>dk_files = [(path_join ''r'' ''oci-layout'', [])], dk_denied = (\<lambda>_. False)\<rparr>"
  define doc where "doc = index_doc (doc_ops (\<lambda>_. None) (\<lambda>_. [])) ?s ?d"
  let ?js = "doc_ops (\<lambda>_. Some doc) (\<lambda>_. ''x'')"
  have doc: "index_doc ?js ?s ?d = doc"
    by (simp add: doc_def index_doc_def manifest_entry_def)
  have ok: "store_ok ?s ?d"
    by (simp add: store_ok_def bt_ok_def)
  have "\<exists>d'. write_index ?js ?s ?d = (Inr (), d')"
    by (simp add: write_index_def fs_write_def)
  then obtain d' where w: "write_index ?js ?s ?d = (Inr (), d')" by blast
  have "oci_open ?js (oci_root ?s) d' = (Inr ?s, d')"
    by (rule index_reopens [OF w doc_ops_laws ok])
      (simp_all add: doc fs_exists_def, simp add: utf8_valid.simps)
  then show ?thesis
    using w by (intro exI [of _ ?s] exI [of _ ?d] exI [of _ d'] conjI exI [of _ ?js]) simp_all
qed

section \<open>The stage machine\<close>

lemma gen_loop_log:
  "gen_loop ex tc root jobs failed d log = (f, d', log') \<Longrightarrow> IllegalTransition \<in> set log' \<Longrightarrow> IllegalTransition \<in> set log"
  by (induction ex tc root jobs failed d log rule: gen_loop.induct)
    (auto simp: Let_def split: prod.splits sum.splits)

lemma tie_outputs_log:
  "tie_outputs ex root store d outs drifted log = (dr, log') \<Longrightarrow> IllegalTransition \<in> set log' \<Longrightarrow> IllegalTransition \<in> set log"
  by (induction ex root store d outs drifted log rule: tie_outputs.induct)
    (auto simp: Let_def split: sum.splits verify.splits)

lemma check_loop_log:
  "check_loop ex tc root store jobs d drifted log = r \<Longrightarrow>
    IllegalTransition \<in> set (case r of Inl x \<Rightarrow> ex_log x | Inr (_, _, log') \<Rightarrow> log') \<Longrightarrow> IllegalTransition \<in> set log"
proof (induction ex tc root store jobs d drifted log rule: check_loop.induct)
  case (2 ex tc root store j js d drifted log)
  then show ?case
    by (auto simp: Let_def exit_with_def dest: tie_outputs_log split: prod.splits sum.splits)
qed auto

lemma check_loop_code: "check_loop ex tc root store jobs d drifted log = Inl x \<Longrightarrow> ex_code x = 1"
  by (induction ex tc root store jobs d drifted log rule: check_loop.induct)
    (auto simp: Let_def exit_with_def split: prod.splits sum.splits)

lemma store_phase_log:
  assumes "store_phase ex root jobs store d log = r" "IllegalTransition \<notin> set log"
  shows "IllegalTransition \<notin> set (case r of Inl x \<Rightarrow> ex_log x | Inr (_, log') \<Rightarrow> log') \<and>
    (\<forall>x. r = Inl x \<longrightarrow> ex_code x = 1)"
  using assms
  by (auto simp: store_phase_def Let_def exit_with_def verify_report_def split: prod.splits sum.splits verify.splits if_splits)

lemma check_mode_log:
  "IllegalTransition \<notin> set log \<Longrightarrow> IllegalTransition \<notin> set (ex_log (check_mode ex tc root jobs store Reflecting d log)) \<and>
    ex_code (check_mode ex tc root jobs store Reflecting d log) \<in> {0, 1}"
  using check_loop_log [of ex tc root store jobs d "[]" log, OF refl] check_loop_code [of ex tc root store jobs d "[]" log]
  by (auto simp: check_mode_def advance_def exit_with_def split: sum.splits prod.splits)

lemma gen_mode_log:
  assumes "IllegalTransition \<notin> set log"
  shows "IllegalTransition \<notin> set (ex_log (gen_mode ex tc root flag jobs store Reflecting d log)) \<and>
    ex_code (gen_mode ex tc root flag jobs store Reflecting d log) \<in> {0, 1}"
proof -
  obtain f d1 log1 where g: "gen_loop ex tc root jobs False d log = (f, d1, log1)"
    by (metis prod_cases3)
  have "IllegalTransition \<notin> set log1"
    using gen_loop_log [OF g] assms by blast
  then show ?thesis
    using store_phase_log [OF refl, of log1 ex root jobs store d1]
    by (auto simp: gen_mode_def g advance_def exit_with_def split: sum.splits prod.splits)
qed

text \<open>The stage machine never stops the driver.  Whatever the manifests, the jobs and the files, every transition the driver fires is
  legal, so the abort of \<open>advance\<close> is unreachable and the process exits with code zero or one.\<close>

theorem driver_stages_legal:
  "IllegalTransition \<notin> set (ex_log (forge_main ex args d)) \<and> ex_code (forge_main ex args d) \<in> {0, 1}"
proof -
  have "IllegalTransition \<notin> set (ex_log (check_mode ex tc root jobs store Reflecting d [])) \<and>
      ex_code (check_mode ex tc root jobs store Reflecting d []) \<in> {0, 1}"
    "IllegalTransition \<notin> set (ex_log (gen_mode ex tc root flag jobs store Reflecting d [])) \<and>
      ex_code (gen_mode ex tc root flag jobs store Reflecting d []) \<in> {0, 1}" for tc root jobs store flag d
    by (simp_all only: check_mode_log gen_mode_log list.set empty_iff not_False_eq_True)
  then show ?thesis
    by (simp add: forge_main_def Let_def advance_def exit_with_def split: sum.split prod.split)
qed

section \<open>The check mode\<close>

abbreviation all_outputs :: "job list \<Rightarrow> string list" where
  "all_outputs jobs \<equiv> concat (map job_outputs jobs)"

text \<open>A job's subprocesses change only the files it owns.\<close>

definition writes_own :: "'j externals \<Rightarrow> string \<Rightarrow> string \<Rightarrow> job list \<Rightarrow> bool" where
  "writes_own ex tc root jobs \<longleftrightarrow> (\<forall>j \<in> set jobs. \<forall>d p. p \<notin> path_join root ` set (job_outputs j) \<longrightarrow>
     fs_read (snd (run_job ex tc root j d)) p = fs_read d p)"

definition tied :: "disk \<Rightarrow> disk \<Rightarrow> string \<Rightarrow> bool" where
  "tied d d' p \<longleftrightarrow> map_option strip_header (read_if_exists d p) = map_option strip_header (read_if_exists d' p)"

lemma tied_cong: "fs_read d p = fs_read e p \<Longrightarrow> fs_read d' p = fs_read e' p \<Longrightarrow> tied d d' p \<longleftrightarrow> tied e e' p"
  by (simp add: tied_def read_if_exists_def)

lemma tie_outputs_clean:
  "tie_outputs ex root store d outs drifted log = ([], log') \<Longrightarrow>
    drifted = [] \<and> (\<forall>(out, old) \<in> set outs.
      map_option strip_header old = map_option strip_header (read_if_exists d (path_join root out)))"
proof (induction outs arbitrary: drifted log)
  case (Cons x outs)
  obtain out old where x: "x = (out, old)" by (rule prod.exhaust)
  let ?same = "map_option strip_header old = map_option strip_header (read_if_exists d (path_join root out))"
  obtain dr1 log1 where rest: "tie_outputs ex root store d outs dr1 log1 = ([], log')"
    and first: "dr1 = [] \<longrightarrow> drifted = [] \<and> ?same"
    using Cons.prems unfolding x
    by (cases ?same) (auto simp: Let_def split: sum.splits verify.splits if_splits)
  then show ?case
    using Cons.IH [OF rest] by (simp add: x)
qed simp

lemma check_loop_clean:
  assumes "check_loop ex tc root store jobs d drifted log = Inr (d', [], log')" "writes_own ex tc root jobs"
    "distinct (map (path_join root) (all_outputs jobs))"
  shows "drifted = [] \<and> (\<forall>out \<in> set (all_outputs jobs). tied d d' (path_join root out)) \<and>
    (\<forall>p. p \<notin> path_join root ` set (all_outputs jobs) \<longrightarrow> fs_read d' p = fs_read d p)"
  using assms
proof (induction jobs arbitrary: d drifted log)
  case (Cons j js)
  let ?before = "map (\<lambda>out. (out, read_if_exists d (path_join root out))) (job_outputs j)"
  obtain d1 dr log1 where run: "run_job ex tc root j d = (Inr (), d1)"
    and outs: "tie_outputs ex root store d1 ?before drifted log = (dr, log1)"
    and rest: "check_loop ex tc root store js d1 dr log1 = Inr (d', [], log')"
    using Cons.prems(1) by (auto simp: Let_def split: prod.splits sum.splits)
  have own: "writes_own ex tc root js" "\<And>p. p \<notin> path_join root ` set (job_outputs j) \<Longrightarrow> fs_read d1 p = fs_read d p"
    using Cons.prems(2) run by (auto simp: writes_own_def) (metis snd_conv)
  have dist: "distinct (map (path_join root) (all_outputs js))"
    and disj: "path_join root ` set (job_outputs j) \<inter> path_join root ` set (all_outputs js) = {}"
    using Cons.prems(3) by (simp_all only: list.map concat.simps map_append distinct_append set_map)
  note IH = Cons.IH [OF rest own(1) dist]
  have clean: "drifted = []" "\<And>out. out \<in> set (job_outputs j) \<Longrightarrow> tied d d1 (path_join root out)"
    using tie_outputs_clean [of ex root store d1 ?before drifted log log1] outs IH by (auto simp: tied_def)
  have "tied d d' (path_join root out)" if "out \<in> set (job_outputs j)" for out
  proof -
    have "path_join root out \<notin> path_join root ` set (all_outputs js)"
      using disj that by blast
    then show ?thesis
      using clean(2) [OF that] IH tied_cong [of d "path_join root out" d d1 d'] by presburger
  qed
  moreover have "tied d d' (path_join root out)" if "out \<in> set (all_outputs js)" for out
  proof -
    have "path_join root out \<notin> path_join root ` set (job_outputs j)"
      using disj that by blast
    then show ?thesis
      using IH that tied_cong [OF own(2) refl, of "path_join root out" d'] by blast
  qed
  moreover have "fs_read d' p = fs_read d p" if "p \<notin> path_join root ` set (all_outputs (j # js))" for p
    using IH own(2) [of p] that by (simp add: image_Un)
  ultimately show ?case
    using clean(1) by auto
qed simp

text \<open>C11: The byte-tie.  When each job writes only its own outputs and no output belongs to two jobs, a check that exits with zero leaves every output with
  the content lines it had before, and every other file untouched: regenerating changed nothing but headers.\<close>

theorem check_ties:
  assumes "writes_own ex tc root jobs" "distinct (map (path_join root) (all_outputs jobs))"
    and "ex_code (check_mode ex tc root jobs store Reflecting d log) = 0"
  shows "(\<forall>out \<in> set (all_outputs jobs). tied d (ex_disk (check_mode ex tc root jobs store Reflecting d log)) (path_join root out)) \<and>
    (\<forall>p. p \<notin> path_join root ` set (all_outputs jobs) \<longrightarrow>
      fs_read (ex_disk (check_mode ex tc root jobs store Reflecting d log)) p = fs_read d p)"
proof -
  obtain d' log' where r: "check_loop ex tc root store jobs d [] log = Inr (d', [], log')"
    using assms(3) check_loop_code [of ex tc root store jobs d "[]" log]
    by (auto simp: check_mode_def advance_def exit_with_def split: sum.splits prod.splits if_splits)
  have "ex_disk (check_mode ex tc root jobs store Reflecting d log) = d'"
    by (simp add: check_mode_def advance_def exit_with_def r)
  then show ?thesis
    using check_loop_clean [OF r assms(1,2)] by simp
qed

text \<open>A driver whose subprocesses succeed and change nothing, and one job with a missing artifact.\<close>

definition idle_driver :: "json_doc externals" where
  "idle_driver = \<lparr>ex_json = doc_ops (\<lambda>_. None) (\<lambda>_. []), ex_sha = (\<lambda>_. ''0''), ex_env = (\<lambda>_. None),
     ex_sys = (\<lambda>_ d. (Inr None, d)), ex_stream = (\<lambda>_. []), ex_debug = (\<lambda>_. [])\<rparr>"

definition demo_job :: job where
  "demo_job = \<lparr>job_package = ''p'', job_exe = ''e'', job_args = [], job_outputs = [''out.rs'']\<rparr>"

definition empty_disk :: disk where
  "empty_disk = \<lparr>dk_files = bt_empty, dk_denied = (\<lambda>_. False)\<rparr>"

lemma idle_run_job: "run_job idle_driver tc root j d = (Inr (), d)"
  by (simp add: run_job_def run_cmd_def idle_driver_def Let_def)

lemma idle_writes_own: "writes_own idle_driver tc root jobs"
  by (simp add: writes_own_def idle_run_job)

text \<open>Missing artifacts pass.  When the jobs succeed and write nothing, and none of the outputs exists, the check exits with zero: an output that is
  missing before and after counts as unchanged, and a store that holds a digest for it only prints a read error.  So an
  artifact that was deleted, and whose generator no longer writes it, is not drift.\<close>

theorem missing_outputs_clean:
  assumes "\<And>j. j \<in> set jobs \<Longrightarrow> run_job ex tc root j d = (Inr (), d)"
    and "\<And>out. out \<in> set (all_outputs jobs) \<Longrightarrow> fs_read d (path_join root out) = Inl e"
  shows "ex_code (check_mode ex tc root jobs store Reflecting d log) = 0"
proof -
  have outs: "\<exists>log'. tie_outputs ex root store d (map (\<lambda>out. (out, None)) outs) [] log = ([], log')"
    if "\<And>out. out \<in> set outs \<Longrightarrow> fs_read d (path_join root out) = Inl e" for outs log
    using that
  proof (induction outs arbitrary: log)
    case (Cons out outs)
    have miss: "read_if_exists d (path_join root out) = None"
      using Cons.prems [of out] by (simp add: read_if_exists_def)
    have "oci_verify (ex_sha ex) store d out (path_join root out) = Inr NotStored \<or>
        oci_verify (ex_sha ex) store d out (path_join root out) = Inl (IoContext ''verify'' out (path_join root out) e)"
      using Cons.prems [of out] by (simp add: oci_verify_def map_err_def split: option.split)
    then show ?case
      using Cons.IH Cons.prems by (auto simp: Let_def miss)
  qed simp
  have "\<exists>log'. check_loop ex tc root store jobs d [] log = Inr (d, [], log')"
    using assms
  proof (induction jobs arbitrary: log)
    case (Cons j js)
    have before: "map (\<lambda>out. (out, read_if_exists d (path_join root out))) (job_outputs j) = map (\<lambda>out. (out, None)) (job_outputs j)"
      using Cons.prems(2) by (auto simp: read_if_exists_def)
    obtain log1 where "tie_outputs ex root store d (map (\<lambda>out. (out, None)) (job_outputs j)) [] log = ([], log1)"
      using outs [of "job_outputs j" log] Cons.prems(2) by auto
    then have "check_loop ex tc root store (j # js) d [] log = check_loop ex tc root store js d [] log1"
      using Cons.prems(1) [of j] by (simp add: before Let_def)
    then show ?case
      using Cons.IH [of log1] Cons.prems by auto
  qed simp
  then show ?thesis
    by (auto simp: check_mode_def advance_def exit_with_def)
qed

theorem missing_outputs_clean_witness:
  "oci_digest \<lparr>oci_root = ''cache'', oci_tags = [(''out.rs'', ''b2'')]\<rparr> ''out.rs'' = Some ''b2'' \<and>
    ex_code (check_mode idle_driver ''tc'' ''.'' [demo_job] \<lparr>oci_root = ''cache'', oci_tags = [(''out.rs'', ''b2'')]\<rparr> Reflecting empty_disk []) = 0"
proof -
  have "fs_read empty_disk p = Inl NotFound" for p
    by (simp add: fs_read_def empty_disk_def)
  from missing_outputs_clean [OF idle_run_job this] show ?thesis
    by (simp add: oci_digest_def)
qed

theorem check_ties_witness:
  "tied empty_disk (ex_disk (check_mode idle_driver ''tc'' ''.'' [demo_job] demo_store Reflecting empty_disk [])) (path_join ''.'' ''out.rs'')"
proof -
  have "fs_read empty_disk p = Inl NotFound" for p
    by (simp add: fs_read_def empty_disk_def)
  then have "ex_code (check_mode idle_driver ''tc'' ''.'' [demo_job] demo_store Reflecting empty_disk []) = 0"
    by (simp add: check_mode_def advance_def exit_with_def demo_job_def idle_run_job Let_def read_if_exists_def oci_verify_def demo_store_def)
  moreover have "distinct (map (path_join ''.'') (all_outputs [demo_job]))"
    by (simp add: demo_job_def)
  ultimately show ?thesis
    using check_ties [OF idle_writes_own, of "''.''" "[demo_job]" "''tc''" demo_store empty_disk "[]"] by (simp add: demo_job_def)
qed

section \<open>The generate mode\<close>

lemma gen_loop_fails: "gen_loop ex tc root jobs True d log = (f, d', log') \<Longrightarrow> f"
  by (induction jobs arbitrary: d log) (auto simp: Let_def split: prod.splits sum.splits)

lemma store_phase_code: "store_phase ex root jobs store d log = Inl x \<Longrightarrow> ex_code x = 1"
  by (auto simp: store_phase_def Let_def exit_with_def split: prod.splits sum.splits if_splits)

lemma store_phase_ok:
  assumes "store_phase ex root jobs store d log = Inr (d', log')"
  shows "(l, p) \<in> set (artifact_pairs root jobs d) \<Longrightarrow> OciOk l \<in> set log'"
proof -
  assume lp: "(l, p) \<in> set (artifact_pairs root jobs d)"
  obtain r s1 d1 where st: "store_artifacts (ex_sha ex) store d (artifact_pairs root jobs d) bt_empty = (r, s1, d1)"
    by (metis prod_cases3)
  let ?rs = "map (\<lambda>(l, p). (l, oci_verify (ex_sha ex) s1 d1 l p)) (artifact_pairs root jobs d)"
  have ok: "\<not> list_ex (\<lambda>(_, r). r \<noteq> Inr Match) ?rs" and sub: "set (map (\<lambda>(l, r). verify_report l r) ?rs) \<subseteq> set log'"
    using assms by (auto simp: store_phase_def Let_def st simp del: map_map set_map list.set_map split: sum.splits prod.splits if_splits)
  have "(l, oci_verify (ex_sha ex) s1 d1 l p) \<in> set ?rs"
    using lp by force
  moreover from this have "oci_verify (ex_sha ex) s1 d1 l p = Inr Match"
    using ok by (auto simp: list_ex_iff)
  ultimately have "verify_report l (Inr Match) \<in> set (map (\<lambda>(l, r). verify_report l r) ?rs)"
    by force
  then show ?thesis
    using sub by (auto simp: verify_report_def)
qed

lemma store_phase_index:
  "store_phase ex root jobs store d log = Inr (d', log') \<Longrightarrow> IndexWritten \<in> set log' \<or> (\<exists>e. IndexError e \<in> set log')"
  by (auto simp: store_phase_def Let_def split: sum.splits prod.splits if_splits)

text \<open>The jobs run in order, each on the files the one before left, and all succeed.\<close>

fun runs_all :: "'j externals \<Rightarrow> string \<Rightarrow> string \<Rightarrow> job list \<Rightarrow> disk \<Rightarrow> disk \<Rightarrow> bool" where
  "runs_all ex tc root [] d d' \<longleftrightarrow> d' = d"
| "runs_all ex tc root (j # js) d d' \<longleftrightarrow> fst (run_job ex tc root j d) = Inr () \<and> runs_all ex tc root js (snd (run_job ex tc root j d)) d'"

lemma gen_loop_runs: "gen_loop ex tc root jobs False d log = (False, d', log') \<Longrightarrow> runs_all ex tc root jobs d d'"
  by (induction jobs arbitrary: d log) (auto simp: Let_def dest: gen_loop_fails split: prod.splits sum.splits)

text \<open>Generating with the store.  Exit code zero means that every job's subprocesses succeeded in order, and that each output that exists afterwards was stored and
  read back with the content lines of the file.  It does not mean that the index was written: a
  refused index is only reported, so the labels can be lost at the next start.\<close>

theorem generate_verified:
  assumes "ex_code (gen_mode ex tc root True jobs store Reflecting d log) = 0"
  shows "\<exists>d1. runs_all ex tc root jobs d d1 \<and>
    (\<forall>out \<in> set (all_outputs jobs). fs_exists d1 (path_join root out) \<longrightarrow>
      OciOk out \<in> set (ex_log (gen_mode ex tc root True jobs store Reflecting d log))) \<and>
    (IndexWritten \<in> set (ex_log (gen_mode ex tc root True jobs store Reflecting d log)) \<or>
      (\<exists>e. IndexError e \<in> set (ex_log (gen_mode ex tc root True jobs store Reflecting d log))))"
proof -
  obtain f d1 log1 where g: "gen_loop ex tc root jobs False d log = (f, d1, log1)"
    by (metis prod_cases3)
  obtain d2 log2 where s: "store_phase ex root jobs store d1 log1 = Inr (d2, log2)" and f: "\<not> f"
    and l: "ex_log (gen_mode ex tc root True jobs store Reflecting d log) = log2"
    using assms store_phase_code [of ex root jobs store d1 log1]
    by (auto simp: gen_mode_def g advance_def exit_with_def split: sum.splits if_splits)
  have "OciOk out \<in> set log2" if "out \<in> set (all_outputs jobs)" "fs_exists d1 (path_join root out)" for out
  proof -
    have "(out, path_join root out) \<in> set (artifact_pairs root jobs d1)"
      using that by (auto simp: artifact_pairs_def)
    then show ?thesis
      using store_phase_ok [OF s] by blast
  qed
  then show ?thesis
    using gen_loop_runs [of ex tc root jobs d log d1 log1] g f store_phase_index [OF s] unfolding l by auto
qed

theorem generate_verified_witness:
  "\<exists>d r. r = gen_mode idle_driver ''tc'' ''.'' True [demo_job] demo_store Reflecting d [] \<and> ex_code r = 0 \<and>
    IndexError Denied \<in> set (ex_log r) \<and> runs_all idle_driver ''tc'' ''.'' [demo_job] d d"
proof -
  let ?d = "\<lparr>dk_files = bt_empty, dk_denied = (\<lambda>p. p = ''cache/index.json'')\<rparr>"
  let ?r = "gen_mode idle_driver ''tc'' ''.'' True [demo_job] demo_store Reflecting ?d []"
  have pairs: "artifact_pairs ''.'' [demo_job] ?d = []"
    by (simp add: artifact_pairs_def fs_exists_def demo_job_def)
  have idx: "write_index js demo_store ?d = (Inl Denied, ?d)" for js :: "json_doc json_ops"
    by (simp add: write_index_def fs_write_def demo_store_def blobs_dir_def path_join_def)
  have r: "ex_code ?r = 0" "IndexError Denied \<in> set (ex_log ?r)"
    by (simp_all add: gen_mode_def idle_run_job advance_def exit_with_def store_phase_def pairs idx Let_def)
  obtain d1 where "runs_all idle_driver ''tc'' ''.'' [demo_job] ?d d1"
    using generate_verified [OF r(1)] by blast
  then show ?thesis
    using r by (auto simp: idle_run_job)
qed

end
