(* ===== verification/LeanCodec.thy ===== *)
theory LeanCodec
  imports Codec
begin

text \<open>
  The Lean side of the wire: the codec combinators of \<open>SchemaLang/Codec.lean\<close>, of which the Rust
  codec (\<open>Codec\<close>) is a mirror.  Natural numbers are unbounded, a decoder returns the value and
  the rest of the input, and the number decoder is total.  The contract of an encoder and its
  decoder is the locale \<open>lawful_codec\<close>, the append form of Lean's class of that name, interpreted
  on every combinator here and on the formats built from them.  The last section relates the
  number codecs of the two languages.
\<close>

section \<open>Codec combinators\<close>

type_synonym 'a ldec = "bytes \<Rightarrow> ('a \<times> bytes) option"

function enc_nat :: "nat \<Rightarrow> bytes" where
  "enc_nat n = (if n < 128 then [word_of_nat n] else word_of_nat (128 + n mod 128) # enc_nat (n div 128))"
  by pat_completeness auto
termination by (relation "measure id") auto

declare enc_nat.simps [simp del]

text \<open>\<open>decVarNat\<close> is total: the empty input is the number 0.\<close>

fun dec_nat :: "bytes \<Rightarrow> nat \<times> bytes" where
  "dec_nat [] = (0, [])"
| "dec_nat (b # rest) =
     (if unat b < 128 then (unat b, rest)
      else (let p = dec_nat rest in (unat b - 128 + 128 * fst p, snd p)))"

definition dec_nat_opt :: "nat ldec" where
  "dec_nat_opt bs = Some (dec_nat bs)"

definition lenc_u64 :: "u64 \<Rightarrow> bytes" where
  "lenc_u64 v = enc_nat (unat v)"

definition ldec_u64 :: "u64 ldec" where
  "ldec_u64 bs = map_option (\<lambda>(n, r). (word_of_nat n, r)) (dec_nat_opt bs)"

text \<open>\<open>Char.ofNat\<close>: what is not a scalar value becomes the null character.\<close>

definition lean_char :: "nat \<Rightarrow> rchar" where
  "lean_char n = (if n < 0x110000 \<and> is_scalar (word_of_nat n) then word_of_nat n else 0)"

definition lenc_char :: "rchar \<Rightarrow> bytes" where
  "lenc_char c = enc_nat (unat c)"

definition ldec_char :: "rchar ldec" where
  "ldec_char bs = map_option (\<lambda>(n, r). (lean_char n, r)) (dec_nat_opt bs)"

definition lenc_list :: "('a \<Rightarrow> bytes) \<Rightarrow> 'a list \<Rightarrow> bytes" where
  "lenc_list enc xs = enc_nat (length xs) @ concat (map enc xs)"

primrec dec_many :: "'a ldec \<Rightarrow> nat \<Rightarrow> 'a list ldec" where
  "dec_many dec 0 bs = Some ([], bs)"
| "dec_many dec (Suc m) bs = Option.bind (dec bs) (\<lambda>(a, rest).
     map_option (\<lambda>(xs, rest'). (a # xs, rest')) (dec_many dec m rest))"

definition ldec_list :: "'a ldec \<Rightarrow> 'a list ldec" where
  "ldec_list dec bs = dec_many dec (fst (dec_nat bs)) (snd (dec_nat bs))"

definition lenc_string :: "rstr \<Rightarrow> bytes" where
  "lenc_string s = lenc_list lenc_char s"

definition ldec_string :: "rstr ldec" where
  "ldec_string bs = ldec_list ldec_char bs"

definition lenc_bytes :: "bytes \<Rightarrow> bytes" where
  "lenc_bytes bs = enc_nat (length bs) @ bs"

definition ldec_bytes :: "bytes ldec" where
  "ldec_bytes bs = (let (n, rest) = dec_nat bs in
     if n \<le> length rest then Some (take n rest, drop n rest) else None)"

record lenvelope =
  lenv_version :: nat
  lenv_fingerprint :: nat
  lenv_payload :: bytes

definition lenc_envelope :: "nat \<Rightarrow> nat \<Rightarrow> bytes \<Rightarrow> bytes" where
  "lenc_envelope version fingerprint payload = enc_nat version @ enc_nat fingerprint @ lenc_bytes payload"

definition ldec_envelope :: "nat \<Rightarrow> bytes \<Rightarrow> lenvelope option" where
  "ldec_envelope expected bs = (let (version, r1) = dec_nat bs in
     if version = expected then
       (let (fingerprint, r2) = dec_nat r1 in
        case ldec_bytes r2 of
          Some (payload, []) \<Rightarrow>
            Some \<lparr>lenv_version = version, lenv_fingerprint = fingerprint, lenv_payload = payload\<rparr>
        | _ \<Rightarrow> None)
     else None)"

section \<open>The codec contract\<close>

locale lawful_codec =
  fixes enc :: "'a \<Rightarrow> bytes"
    and dec :: "'a ldec"
    and ok :: "'a \<Rightarrow> bool"
  assumes roundtrip: "ok x \<Longrightarrow> dec (enc x @ rest) = Some (x, rest)"
begin

lemma roundtrip_nil: "ok x \<Longrightarrow> dec (enc x) = Some (x, [])"
  using roundtrip [of x "[]"] by simp

lemma inj: "ok x \<Longrightarrow> ok y \<Longrightarrow> enc x = enc y \<Longrightarrow> x = y"
  by (metis roundtrip_nil option.inject prod.inject)

lemma prefix_free: "ok x \<Longrightarrow> ok y \<Longrightarrow> enc x @ xs = enc y @ ys \<Longrightarrow> x = y \<and> xs = ys"
  by (metis roundtrip option.inject prod.inject)

end

lemma dec_enc_nat: "dec_nat (enc_nat n @ rest) = (n, rest)"
proof (induction n rule: enc_nat.induct)
  case (1 n)
  have small: "n < 128 \<Longrightarrow> unat (word_of_nat n :: u8) = n"
    by (simp add: unat_of_nat take_bit_nat_eq_self)
  have "128 + n mod 128 < 256" by simp
  then have big: "unat (word_of_nat (128 + n mod 128) :: u8) = 128 + n mod 128"
    by (subst unat_of_nat) (simp add: take_bit_nat_eq_self)
  show ?case
  proof (cases "n < 128")
    case True
    then show ?thesis by (simp add: enc_nat.simps [of n] small)
  next
    case False
    have "\<not> 128 + n mod 128 < 128" by simp
    then show ?thesis
      using 1 [OF False] False by (simp add: enc_nat.simps [of n] big del: of_nat_add)
  qed
qed

lemma enc_nat_not_Nil [simp]: "enc_nat n \<noteq> []"
  by (simp add: enc_nat.simps [of n])

lemma enc_nat_ge_1: "1 \<le> length (enc_nat n)"
  by (simp add: Suc_le_eq)

interpretation natc: lawful_codec enc_nat dec_nat_opt "\<lambda>_. True"
  by unfold_locales (simp add: dec_nat_opt_def dec_enc_nat)

interpretation lu64c: lawful_codec lenc_u64 ldec_u64 "\<lambda>_. True"
  by unfold_locales (simp add: lenc_u64_def ldec_u64_def dec_nat_opt_def dec_enc_nat)

interpretation lcharc: lawful_codec lenc_char ldec_char is_scalar
  by unfold_locales (auto simp: lenc_char_def ldec_char_def dec_nat_opt_def dec_enc_nat lean_char_def is_scalar_def)

text \<open>Lists: every element decodes at its place.\<close>

lemma dec_many_roundtrip:
  "(\<And>x r. x \<in> set xs \<Longrightarrow> dec (enc x @ r) = Some (x, r)) \<Longrightarrow>
    dec_many dec (length xs) (concat (map enc xs) @ rest) = Some (xs, rest)"
  by (induction xs) simp_all

lemma ldec_list_roundtrip:
  "(\<And>x r. x \<in> set xs \<Longrightarrow> dec (enc x @ r) = Some (x, r)) \<Longrightarrow>
    ldec_list dec (lenc_list enc xs @ rest) = Some (xs, rest)"
  using dec_many_roundtrip [of xs dec enc rest] by (simp add: ldec_list_def lenc_list_def dec_enc_nat)

interpretation lstringc: lawful_codec lenc_string ldec_string "list_all is_scalar"
  by unfold_locales
    (auto simp: lenc_string_def ldec_string_def list_all_iff intro!: ldec_list_roundtrip lcharc.roundtrip)

interpretation lbytesc: lawful_codec lenc_bytes ldec_bytes "\<lambda>_. True"
  by unfold_locales (simp add: lenc_bytes_def ldec_bytes_def dec_enc_nat)

lemma ldec_lenc_envelope:
  "ldec_envelope v (lenc_envelope v' f payload) =
    (if v = v' then Some \<lparr>lenv_version = v, lenv_fingerprint = f, lenv_payload = payload\<rparr> else None)"
  using lbytesc.roundtrip_nil [of payload]
  by (simp add: ldec_envelope_def lenc_envelope_def dec_enc_nat)

section \<open>The Rust mirror\<close>

text \<open>The Rust codec reads what the Lean writer writes, as long as the numbers are machine integers.\<close>

lemma enc_nat_varnat: "n < 2 ^ 64 \<Longrightarrow> enc_nat n = enc_varnat (word_of_nat n)"
proof (induction n rule: enc_nat.induct)
  case (1 n)
  have u: "unat (word_of_nat n :: u64) = n" using 1(2) by (rule word_of_nat_unat_small)
  have lt: "(word_of_nat n :: u64) < 128 \<longleftrightarrow> n < 128"
    by (simp add: word_less_nat_alt u)
  have "n div 128 < 2 ^ 64" using 1(2) by simp
  then have d: "(word_of_nat n :: u64) div 128 = word_of_nat (n div 128)"
    using u by (simp add: word_unat_eq_iff unat_div word_of_nat_unat_small)
  have small: "(ucast (word_of_nat k :: u64) :: u8) = word_of_nat k" if "k < 256" for k
    using that by (simp add: unsigned_of_nat take_bit_nat_eq_self)
  have m: "(ucast (128 + word_of_nat n mod 128 :: u64) :: u8) = word_of_nat (128 + n mod 128)"
  proof -
    have "(word_of_nat n mod 128 :: u64) = word_of_nat (n mod 128)"
      using u 1(2) by (simp add: word_unat_eq_iff unat_mod word_of_nat_unat_small less_imp_diff_less le_less_trans [OF mod_less_eq_dividend])
    then have "128 + word_of_nat n mod 128 = (word_of_nat (128 + n mod 128) :: u64)" by simp
    then show ?thesis using small [of "128 + n mod 128"] by (simp del: of_nat_add)
  qed
  show ?case
  proof (cases "n < 128")
    case True
    then show ?thesis
      by (simp add: enc_nat.simps [of n] enc_varnat.simps [of "word_of_nat n"] lt small)
  next
    case False
    then show ?thesis
      using 1(1) [OF False] 1(2)
      by (simp add: enc_nat.simps [of n] enc_varnat.simps [of "word_of_nat n"] lt d m del: of_nat_add)
  qed
qed

lemma lenc_envelope_enc: "v < 2 ^ 64 \<Longrightarrow> f < 2 ^ 64 \<Longrightarrow> length payload < 2 ^ 64 \<Longrightarrow>
    lenc_envelope v f payload = enc_envelope (word_of_nat v) (word_of_nat f) payload"
  by (simp add: lenc_envelope_def enc_envelope_def lenc_bytes_def enc_bytes_def enc_nat_varnat)

end
