(* ===== verification/Certificates.thy ===== *)
theory Certificates
  imports LeanCodec Records Snapshot
begin

text \<open>
  The witness certificates of the \<open>guestVerified\<close> obligations.  The generated registry is
  \<open>generated/rust/witnesses_generated.rs\<close>: per obligation a label, the version and the surface
  hash of the envelope, the pinned fuel and the bytes of the certificate.  What writes and
  reads the bytes is Lean: the codec combinators (\<open>LeanCodec\<close>), the claim
  language, the proof terms and their wire form of \<open>SchemaLang/Witness.lean\<close>, the checker of
  \<open>SchemaLang/WitnessCheck.lean\<close>, and the generator of \<open>SchemaLang/Emit/Witness.lean\<close> with the hash of the schema surface.

  A row is the list of its named cells; the cells no claim can read are \<open>COther\<close>.
\<close>

section \<open>Claims, proofs, certificates\<close>

datatype wu64 = WLit u64 | WCol rstr | WStrlenCol rstr

datatype wbool = WGt wu64 wu64 | WEq wu64 wu64 | WAnd wbool wbool | WNot wbool

record wstep =
  step_offset :: nat

datatype wprop = WValid wbool | WEqU wu64 wu64 | WChain "wstep list" wbool

datatype wproof = ByEval u64 | ByValidEval | WSteps "wproof list"

record certificate =
  cert_label :: rstr
  cert_claim :: wprop
  cert_proof :: wproof
  cert_fuel :: nat

subsection \<open>Encoders\<close>

text \<open>A tag is the position of the constructor.\<close>

fun enc_wu64 :: "wu64 \<Rightarrow> bytes" where
  "enc_wu64 (WLit v) = enc_nat 0 @ lenc_u64 v"
| "enc_wu64 (WCol n) = enc_nat 1 @ lenc_string n"
| "enc_wu64 (WStrlenCol n) = enc_nat 2 @ lenc_string n"

fun enc_wbool :: "wbool \<Rightarrow> bytes" where
  "enc_wbool (WGt a b) = enc_nat 0 @ enc_wu64 a @ enc_wu64 b"
| "enc_wbool (WEq a b) = enc_nat 1 @ enc_wu64 a @ enc_wu64 b"
| "enc_wbool (WAnd a b) = enc_nat 2 @ enc_wbool a @ enc_wbool b"
| "enc_wbool (WNot a) = enc_nat 3 @ enc_wbool a"

definition enc_wstep :: "wstep \<Rightarrow> bytes" where
  "enc_wstep s = enc_nat (step_offset s)"

fun enc_wprop :: "wprop \<Rightarrow> bytes" where
  "enc_wprop (WValid e) = enc_nat 0 @ enc_wbool e"
| "enc_wprop (WEqU a b) = enc_nat 1 @ enc_wu64 a @ enc_wu64 b"
| "enc_wprop (WChain steps iv) = enc_nat 2 @ lenc_list enc_wstep steps @ enc_wbool iv"

fun enc_wproof :: "wproof \<Rightarrow> bytes" where
  "enc_wproof (ByEval v) = enc_nat 0 @ lenc_u64 v"
| "enc_wproof ByValidEval = enc_nat 1"
| "enc_wproof (WSteps ps) = enc_nat 2 @ enc_nat (length ps) @ concat (map enc_wproof ps)"

definition enc_certificate :: "nat \<Rightarrow> nat \<Rightarrow> certificate \<Rightarrow> bytes" where
  "enc_certificate version fingerprint w = lenc_envelope version fingerprint
     (lenc_string (cert_label w) @ enc_wprop (cert_claim w) @ enc_wproof (cert_proof w) @ enc_nat (cert_fuel w))"

subsection \<open>Decoders\<close>

definition dec_wu64 :: "wu64 ldec" where
  "dec_wu64 bs = (let (t, rest) = dec_nat bs in
     if t = 0 then map_option (\<lambda>(v, r). (WLit v, r)) (ldec_u64 rest)
     else if t = 1 then map_option (\<lambda>(n, r). (WCol n, r)) (ldec_string rest)
     else if t = 2 then map_option (\<lambda>(n, r). (WStrlenCol n, r)) (ldec_string rest)
     else None)"

text \<open>The two decoders of trees carry a depth bound, one unit per node.\<close>

primrec dec_wbool_at :: "nat \<Rightarrow> wbool ldec" where
  "dec_wbool_at 0 bs = None"
| "dec_wbool_at (Suc fuel) bs = (let (t, rest) = dec_nat bs in
     if t = 0 \<or> t = 1 then
       Option.bind (dec_wu64 rest) (\<lambda>(a, r1).
         map_option (\<lambda>(b, r2). (if t = 0 then WGt a b else WEq a b, r2)) (dec_wu64 r1))
     else if t = 2 then
       Option.bind (dec_wbool_at fuel rest) (\<lambda>(a, r1).
         map_option (\<lambda>(b, r2). (WAnd a b, r2)) (dec_wbool_at fuel r1))
     else if t = 3 then map_option (\<lambda>(a, r). (WNot a, r)) (dec_wbool_at fuel rest)
     else None)"

definition dec_wbool :: "wbool ldec" where
  "dec_wbool bs = dec_wbool_at (length bs + 1) bs"

definition dec_wstep :: "wstep ldec" where
  "dec_wstep bs = map_option (\<lambda>(n, r). (\<lparr>step_offset = n\<rparr>, r)) (dec_nat_opt bs)"

primrec dec_wproof_at :: "nat \<Rightarrow> wproof ldec" where
  "dec_wproof_at 0 bs = None"
| "dec_wproof_at (Suc fuel) bs = (let (t, rest) = dec_nat bs in
     if t = 0 then map_option (\<lambda>(v, r). (ByEval v, r)) (ldec_u64 rest)
     else if t = 1 then Some (ByValidEval, rest)
     else if t = 2 then map_option (\<lambda>(ps, r). (WSteps ps, r)) (ldec_list (dec_wproof_at fuel) rest)
     else None)"

definition dec_wproof :: "wproof ldec" where
  "dec_wproof bs = dec_wproof_at (length bs + 1) bs"

definition dec_wprop :: "wprop ldec" where
  "dec_wprop bs = (let (t, rest) = dec_nat bs in
     if t = 0 then map_option (\<lambda>(e, r). (WValid e, r)) (dec_wbool rest)
     else if t = 1 then
       Option.bind (dec_wu64 rest) (\<lambda>(a, r1). map_option (\<lambda>(b, r2). (WEqU a b, r2)) (dec_wu64 r1))
     else if t = 2 then
       Option.bind (ldec_list dec_wstep rest) (\<lambda>(steps, r1).
         map_option (\<lambda>(iv, r2). (WChain steps iv, r2)) (dec_wbool r1))
     else None)"

definition dec_certificate_payload :: "bytes \<Rightarrow> certificate option" where
  "dec_certificate_payload bs =
     Option.bind (ldec_string bs) (\<lambda>(label, r1).
     Option.bind (dec_wprop r1) (\<lambda>(claim, r2).
     Option.bind (dec_wproof r2) (\<lambda>(pt, r3).
     Option.bind (dec_nat_opt r3) (\<lambda>(fuel, r4).
       case r4 of
         [] \<Rightarrow> Some \<lparr>cert_label = label, cert_claim = claim, cert_proof = pt, cert_fuel = fuel\<rparr>
       | _ # _ \<Rightarrow> None))))"

definition dec_certificate :: "nat \<Rightarrow> bytes \<Rightarrow> certificate option" where
  "dec_certificate expected bs =
     Option.bind (ldec_envelope expected bs) (\<lambda>env. dec_certificate_payload (lenv_payload env))"

section \<open>The checker\<close>

datatype cell = CU64 u64 | CStr rstr | COther

type_synonym named_row = "(rstr \<times> cell) list"

text \<open>The first field of the name; of another type it is refused, not skipped.\<close>

fun lookup_u64 :: "rstr \<Rightarrow> named_row \<Rightarrow> u64 option" where
  "lookup_u64 n [] = None"
| "lookup_u64 n ((f, c) # row) =
     (if f = n then (case c of CU64 x \<Rightarrow> Some x | _ \<Rightarrow> None) else lookup_u64 n row)"

fun lookup_string :: "rstr \<Rightarrow> named_row \<Rightarrow> rstr option" where
  "lookup_string n [] = None"
| "lookup_string n ((f, c) # row) =
     (if f = n then (case c of CStr s \<Rightarrow> Some s | _ \<Rightarrow> None) else lookup_string n row)"

fun eval_wu64 :: "wu64 \<Rightarrow> named_row \<Rightarrow> u64 option" where
  "eval_wu64 (WLit v) row = Some v"
| "eval_wu64 (WCol n) row = lookup_u64 n row"
| "eval_wu64 (WStrlenCol n) row = map_option (\<lambda>s. word_of_nat (length s)) (lookup_string n row)"

definition bool_to_u64 :: "bool \<Rightarrow> u64" where
  "bool_to_u64 b = (if b then 1 else 0)"

fun eval_wbool :: "wbool \<Rightarrow> named_row \<Rightarrow> u64 option" where
  "eval_wbool (WGt a b) row = (case (eval_wu64 a row, eval_wu64 b row) of
       (Some x, Some y) \<Rightarrow> Some (bool_to_u64 (y < x)) | _ \<Rightarrow> None)"
| "eval_wbool (WEq a b) row = (case (eval_wu64 a row, eval_wu64 b row) of
       (Some x, Some y) \<Rightarrow> Some (bool_to_u64 (x = y)) | _ \<Rightarrow> None)"
| "eval_wbool (WAnd a b) row = (case (eval_wbool a row, eval_wbool b row) of
       (Some x, Some y) \<Rightarrow> Some (x * y) | _ \<Rightarrow> None)"
| "eval_wbool (WNot a) row = (case eval_wbool a row of Some x \<Rightarrow> Some (1 - x) | None \<Rightarrow> None)"

fun check_step_proof :: "wproof \<Rightarrow> wbool \<Rightarrow> named_row \<Rightarrow> bool" where
  "check_step_proof ByValidEval iv row \<longleftrightarrow> eval_wbool iv row = Some 1"
| "check_step_proof _ iv row \<longleftrightarrow> False"

fun check_steps :: "nat \<Rightarrow> wstep list \<Rightarrow> wproof list \<Rightarrow> wbool \<Rightarrow> named_row list \<Rightarrow> bool" where
  "check_steps fuel [] [] iv log \<longleftrightarrow> True"
| "check_steps (Suc fuel) (s # ss) (p # ps) iv log \<longleftrightarrow>
     (if step_offset s < length log then check_step_proof p iv (log ! step_offset s) else False) \<and>
     check_steps fuel ss ps iv log"
| "check_steps _ _ _ iv log \<longleftrightarrow> False"

fun check_witness :: "nat \<Rightarrow> wprop \<Rightarrow> wproof \<Rightarrow> named_row \<Rightarrow> named_row list \<Rightarrow> bool" where
  "check_witness 0 claim pt row log \<longleftrightarrow> False"
| "check_witness (Suc fuel) (WValid e) ByValidEval row log \<longleftrightarrow> eval_wbool e row = Some 1"
| "check_witness (Suc fuel) (WEqU a b) (ByEval v) row log \<longleftrightarrow>
     eval_wu64 a row = Some v \<and> eval_wu64 b row = Some v"
| "check_witness (Suc fuel) (WChain steps iv) (WSteps ps) row log \<longleftrightarrow>
     length steps = length ps \<and> eval_wbool iv row = Some 1 \<and> check_steps fuel steps ps iv log"
| "check_witness (Suc fuel) _ _ row log \<longleftrightarrow> False"

text \<open>The field list of the record, the certified row and the log segment the chain refers to; the check at the certificate's own fuel.\<close>

record cert_ctx =
  ctx_fields :: "(string \<times> sty) list"
  ctx_row :: named_row
  ctx_log :: "named_row list"

definition verify_witness :: "certificate \<Rightarrow> cert_ctx \<Rightarrow> bool" where
  "verify_witness w ctx = check_witness (cert_fuel w) (cert_claim w) (cert_proof w) (ctx_row ctx) (ctx_log ctx)"

text \<open>What a checked certificate means.\<close>

inductive claim_holds :: "wprop \<Rightarrow> named_row \<Rightarrow> named_row list \<Rightarrow> bool" where
  valid: "eval_wbool e row = Some 1 \<Longrightarrow> claim_holds (WValid e) row log"
| eqU: "eval_wu64 a row = Some v \<Longrightarrow> eval_wu64 b row = Some v \<Longrightarrow> claim_holds (WEqU a b) row log"
| chain: "eval_wbool iv row = Some 1 \<Longrightarrow>
    (\<forall>s \<in> set steps. step_offset s < length log \<and> eval_wbool iv (log ! step_offset s) = Some 1) \<Longrightarrow>
    claim_holds (WChain steps iv) row log"

inductive_simps claim_holds_simps:
  "claim_holds (WValid e) row log" "claim_holds (WEqU a b) row log" "claim_holds (WChain steps iv) row log"

section \<open>The generator\<close>

fun fuel_consumed :: "wprop \<Rightarrow> nat" where
  "fuel_consumed (WChain steps iv) = length steps + 1"
| "fuel_consumed (WValid e) = 1"
| "fuel_consumed (WEqU a b) = 1"

definition fuel_pinned :: "wprop \<Rightarrow> nat" where
  "fuel_pinned claim = fuel_consumed claim * 4"

fun proof_for :: "wprop \<Rightarrow> named_row \<Rightarrow> wproof option" where
  "proof_for (WValid e) row = Some ByValidEval"
| "proof_for (WEqU a b) row = map_option ByEval (eval_wu64 a row)"
| "proof_for (WChain steps iv) row = Some (WSteps (replicate (length steps) ByValidEval))"

record witness_spec =
  spec_label :: rstr
  spec_artifact :: string
  spec_claim :: wprop
  spec_ctx :: cert_ctx

definition generate_witness :: "witness_spec \<Rightarrow> certificate option" where
  "generate_witness spec = map_option (\<lambda>pt.
     \<lparr>cert_label = spec_label spec, cert_claim = spec_claim spec, cert_proof = pt,
      cert_fuel = fuel_pinned (spec_claim spec)\<rparr>)
     (proof_for (spec_claim spec) (ctx_row (spec_ctx spec)))"

definition self_checked :: "witness_spec \<Rightarrow> certificate option" where
  "self_checked spec = (case generate_witness spec of
       None \<Rightarrow> None
     | Some w \<Rightarrow> if verify_witness w (spec_ctx spec) then Some w else None)"

section \<open>The surface hash\<close>

text \<open>
  \<open>String.hash\<close> of the Lean runtime, on the UTF-8 bytes of the string: the 64-bit Murmur hash with
  seed 11.  Blocks of eight bytes are read little-endian and mixed in; the last bytes make a shorter block.
\<close>

definition HASH_MUL :: u64 where
  "HASH_MUL = 0xC6A4A7935BD1E995"

definition le_word :: "string \<Rightarrow> u64" where
  "le_word bs = foldr (\<lambda>c w. of_nat (of_char c) + 256 * w) bs 0"

definition hash_mix :: "u64 \<Rightarrow> u64" where
  "hash_mix k = (let k1 = k * HASH_MUL in (k1 XOR drop_bit 47 k1) * HASH_MUL)"

function hash_loop :: "u64 \<Rightarrow> string \<Rightarrow> u64" where
  "hash_loop h bs =
     (if bs = [] then h
      else if length bs < 8 then (h XOR le_word bs) * HASH_MUL
      else hash_loop ((h XOR hash_mix (le_word (take 8 bs))) * HASH_MUL) (drop 8 bs))"
  by pat_completeness auto
termination
  by (relation "measure (\<lambda>(h, bs). length bs)") auto

declare hash_loop.simps [simp del]

definition lean_string_hash :: "string \<Rightarrow> u64" where
  "lean_string_hash s =
     (let h = hash_loop (11 XOR (of_nat (length s) * HASH_MUL)) s; h1 = (h XOR drop_bit 47 h) * HASH_MUL
      in h1 XOR drop_bit 47 h1)"

text \<open>The canonical text of a field list, and its hash.\<close>

definition surface_text :: "(string \<times> sty) list \<Rightarrow> string" where
  "surface_text fs = join '';'' (map (\<lambda>(n, t). n @ '':'' @ ty_to_snapshot t) fs)"

definition surface_hash :: "(string \<times> sty) list \<Rightarrow> u64" where
  "surface_hash fs = lean_string_hash (surface_text fs)"

section \<open>The registry\<close>

record witness_row =
  wr_label :: rstr
  wr_artifact :: string
  wr_version :: u64
  wr_surface_hash :: u64
  wr_fuel :: u64
  wr_bytes :: bytes

definition WITNESS_REGISTRY :: "witness_row list" where
  "WITNESS_REGISTRY = [
     \<lparr>wr_label = str ''user-v1-v2-id-positive'', wr_artifact = ''witnesses/user-v1-v2-id-positive.wtn'', wr_version = 1,
      wr_surface_hash = 8226884882961155887, wr_fuel = 12,
      wr_bytes = [1, 175, 142, 185, 135, 233, 134, 241, 149, 114, 39, 22, 117, 115, 101, 114, 45, 118, 49, 45, 118, 50, 45,
        105, 100, 45, 112, 111, 115, 105, 116, 105, 118, 101, 2, 2, 0, 1, 0, 1, 2, 105, 100, 0, 0, 2, 2, 1, 1, 12]\<rparr>]"

definition witness_version :: nat where
  "witness_version = 1"

text \<open>\<open>renderRow\<close>: no row when the certificate fails its own check.\<close>

definition render_row :: "witness_spec \<Rightarrow> witness_row option" where
  "render_row spec = (case self_checked spec of
       Some w \<Rightarrow>
         let fp = surface_hash (ctx_fields (spec_ctx spec)); bs = enc_certificate witness_version (unat fp) w
         in Some \<lparr>wr_label = cert_label w, wr_artifact = spec_artifact spec, wr_version = word_of_nat witness_version,
              wr_surface_hash = fp, wr_fuel = word_of_nat (cert_fuel w), wr_bytes = bs\<rparr>
     | None \<Rightarrow> None)"

text \<open>The fields and the row of a user, and the one registered obligation: the ids of a user and of its log are positive.\<close>

definition user_fields :: "(string \<times> sty) list" where
  "user_fields = [(''id'', SU64), (''name'', SString), (''email'', SString), (''tags'', SList SString)]"

definition user_cells :: "user \<Rightarrow> named_row" where
  "user_cells u = [(str ''id'', CU64 (user_id u)), (str ''name'', CStr (user_name u)),
     (str ''email'', CStr (user_email u)), (str ''tags'', COther)]"

definition demo_user :: "u64 \<Rightarrow> string \<Rightarrow> string \<Rightarrow> user" where
  "demo_user i name email = \<lparr>user_id = i, user_name = str name, user_email = str email, user_tags = []\<rparr>"

definition demo_witness_spec :: witness_spec where
  "demo_witness_spec =
     \<lparr>spec_label = str ''user-v1-v2-id-positive'', spec_artifact = ''witnesses/user-v1-v2-id-positive.wtn'',
      spec_claim = WChain [\<lparr>step_offset = 0\<rparr>, \<lparr>step_offset = 1\<rparr>] (WGt (WCol (str ''id'')) (WLit 0)),
      spec_ctx = \<lparr>ctx_fields = user_fields, ctx_row = user_cells (demo_user 1 ''ab'' ''a@x''),
        ctx_log = [user_cells (demo_user 2 ''cd'' ''c@x''), user_cells (demo_user 3 ''ef'' ''e@x'')]\<rparr>\<rparr>"

definition demo_witnesses :: "witness_spec list" where
  "demo_witnesses = [demo_witness_spec]"

end
