(* ===== verification/CertificateTheorems.thy ===== *)
theory CertificateTheorems
  imports Certificates
begin

text \<open>
  The properties of the witness certificates: the wire form round trips and is the one the Rust
  codec reads, the checker is sound, its fuel is exact and the generator certifies every true
  claim, and the committed registry is what the generator writes.
\<close>

section \<open>Claims and proofs\<close>

fun wu64_ok :: "wu64 \<Rightarrow> bool" where
  "wu64_ok (WLit v) \<longleftrightarrow> True"
| "wu64_ok (WCol n) \<longleftrightarrow> list_all is_scalar n"
| "wu64_ok (WStrlenCol n) \<longleftrightarrow> list_all is_scalar n"

fun wbool_ok :: "wbool \<Rightarrow> bool" where
  "wbool_ok (WGt a b) \<longleftrightarrow> wu64_ok a \<and> wu64_ok b"
| "wbool_ok (WEq a b) \<longleftrightarrow> wu64_ok a \<and> wu64_ok b"
| "wbool_ok (WAnd a b) \<longleftrightarrow> wbool_ok a \<and> wbool_ok b"
| "wbool_ok (WNot a) \<longleftrightarrow> wbool_ok a"

fun wprop_ok :: "wprop \<Rightarrow> bool" where
  "wprop_ok (WValid e) \<longleftrightarrow> wbool_ok e"
| "wprop_ok (WEqU a b) \<longleftrightarrow> wu64_ok a \<and> wu64_ok b"
| "wprop_ok (WChain steps iv) \<longleftrightarrow> wbool_ok iv"

interpretation wu64c: lawful_codec enc_wu64 dec_wu64 wu64_ok
proof
  show "wu64_ok x \<Longrightarrow> dec_wu64 (enc_wu64 x @ rest) = Some (x, rest)" for x rest
    by (cases x) (simp_all add: dec_wu64_def dec_enc_nat lu64c.roundtrip lstringc.roundtrip)
qed

text \<open>The depth of a tree; its encoding has at least one byte for each level.\<close>

fun wbool_depth :: "wbool \<Rightarrow> nat" where
  "wbool_depth (WAnd a b) = Suc (max (wbool_depth a) (wbool_depth b))"
| "wbool_depth (WNot a) = Suc (wbool_depth a)"
| "wbool_depth _ = 1"

fun wproof_depth :: "wproof \<Rightarrow> nat" where
  "wproof_depth (WSteps ps) = Suc (foldr (\<lambda>p. max (wproof_depth p)) ps 0)"
| "wproof_depth _ = 1"

lemma wbool_depth_le: "wbool_depth e \<le> length (enc_wbool e)"
proof (induction e)
  case (WAnd a b)
  then show ?case using enc_nat_ge_1 [of 2] by (simp add: le_diff_conv)
next
  case (WNot a)
  then show ?case using enc_nat_ge_1 [of 3] by simp
qed (use enc_nat_ge_1 [of 0] enc_nat_ge_1 [of 1] in \<open>simp_all add: trans_le_add1\<close>)

lemma foldr_max_le: "(\<And>p. p \<in> set ps \<Longrightarrow> d p \<le> length (e p)) \<Longrightarrow>
    foldr (\<lambda>p. max (d p)) ps 0 \<le> length (concat (map e ps))"
  by (induction ps) force+

lemma foldr_max_ge: "p \<in> set ps \<Longrightarrow> d p \<le> foldr (\<lambda>p. max (d p)) ps (0 :: nat)"
  by (induction ps) auto

lemma wproof_depth_le: "wproof_depth p \<le> length (enc_wproof p)"
proof (induction p)
  case (WSteps ps)
  then have "foldr (\<lambda>p. max (wproof_depth p)) ps 0 \<le> length (concat (map enc_wproof ps))"
    by (intro foldr_max_le)
  then show ?case using enc_nat_ge_1 [of 2] by simp
qed (use enc_nat_ge_1 [of 0] enc_nat_ge_1 [of 1] in \<open>simp_all add: trans_le_add1\<close>)

lemma dec_wbool_at_roundtrip:
  "wbool_ok e \<Longrightarrow> wbool_depth e \<le> fuel \<Longrightarrow> dec_wbool_at fuel (enc_wbool e @ rest) = Some (e, rest)"
proof (induction e arbitrary: fuel rest)
  case (WAnd a b)
  then show ?case by (cases fuel) (simp_all add: dec_enc_nat)
next
  case (WNot a)
  then show ?case by (cases fuel) (simp_all add: dec_enc_nat)
next
  case (WGt a b)
  then show ?case by (cases fuel) (simp_all add: dec_enc_nat wu64c.roundtrip)
next
  case (WEq a b)
  then show ?case by (cases fuel) (simp_all add: dec_enc_nat wu64c.roundtrip)
qed

lemma dec_wproof_at_roundtrip:
  "wproof_depth p \<le> fuel \<Longrightarrow> dec_wproof_at fuel (enc_wproof p @ rest) = Some (p, rest)"
proof (induction p arbitrary: fuel rest)
  case (WSteps ps)
  then obtain k where k: "fuel = Suc k" by (cases fuel) auto
  have "dec_wproof_at k (enc_wproof q @ r) = Some (q, r)" if "q \<in> set ps" for q r
    using WSteps.IH [OF that] WSteps.prems foldr_max_ge [OF that, of wproof_depth] k by simp
  then have "ldec_list (dec_wproof_at k) (lenc_list enc_wproof ps @ rest) = Some (ps, rest)"
    by (rule ldec_list_roundtrip)
  then show ?case by (simp add: k dec_enc_nat lenc_list_def)
next
  case (ByEval v)
  then show ?case by (cases fuel) (simp_all add: dec_enc_nat lu64c.roundtrip)
next
  case ByValidEval
  then show ?case by (cases fuel) (simp_all add: dec_enc_nat)
qed

interpretation wboolc: lawful_codec enc_wbool dec_wbool wbool_ok
proof
  show "wbool_ok x \<Longrightarrow> dec_wbool (enc_wbool x @ rest) = Some (x, rest)" for x rest
    unfolding dec_wbool_def using wbool_depth_le [of x] by (intro dec_wbool_at_roundtrip) simp_all
qed

interpretation wproofc: lawful_codec enc_wproof dec_wproof "\<lambda>_. True"
proof
  show "dec_wproof (enc_wproof x @ rest) = Some (x, rest)" for x rest
    unfolding dec_wproof_def using wproof_depth_le [of x] by (intro dec_wproof_at_roundtrip) simp_all
qed

interpretation wstepc: lawful_codec enc_wstep dec_wstep "\<lambda>_. True"
  by unfold_locales (simp add: enc_wstep_def dec_wstep_def dec_nat_opt_def dec_enc_nat)

interpretation wpropc: lawful_codec enc_wprop dec_wprop wprop_ok
proof
  show "wprop_ok x \<Longrightarrow> dec_wprop (enc_wprop x @ rest) = Some (x, rest)" for x rest
    using ldec_list_roundtrip [of _ dec_wstep enc_wstep, OF wstepc.roundtrip]
    by (cases x) (simp_all add: dec_wprop_def dec_enc_nat wu64c.roundtrip wboolc.roundtrip)
qed

section \<open>Certificates\<close>

definition cert_ok :: "certificate \<Rightarrow> bool" where
  "cert_ok w \<longleftrightarrow> list_all is_scalar (cert_label w) \<and> wprop_ok (cert_claim w)"

lemma dec_certificate_payload_roundtrip:
  assumes "cert_ok w"
  shows "dec_certificate_payload
    (lenc_string (cert_label w) @ enc_wprop (cert_claim w) @ enc_wproof (cert_proof w) @ enc_nat (cert_fuel w)) = Some w"
  using assms natc.roundtrip_nil [of "cert_fuel w"]
  by (simp add: dec_certificate_payload_def cert_ok_def lstringc.roundtrip wpropc.roundtrip wproofc.roundtrip)

text \<open>C22: The wire form of a certificate.  Every certificate whose names are strings decodes from its encoding
  to itself, whatever the nesting of its claim and of its proof: the decoders' depth bounds are enough; under another version it is refused before
  the payload is looked at.\<close>

theorem certificate_roundtrip:
  assumes "cert_ok w"
  shows "dec_certificate v (enc_certificate v' f w) = (if v = v' then Some w else None)"
  using dec_certificate_payload_roundtrip [OF assms]
  by (simp add: dec_certificate_def enc_certificate_def ldec_lenc_envelope)

theorem certificate_roundtrip_witness:
  "dec_certificate 1 (enc_certificate 1 7 \<lparr>cert_label = str ''c'', cert_claim = WValid (WNot (WAnd (WGt (WCol (str ''id'')) (WLit 3)) (WEq (WLit 1) (WStrlenCol (str ''name''))))),
      cert_proof = WSteps [WSteps [ByEval 5], ByValidEval], cert_fuel = 300\<rparr>) \<noteq> None"
  by (subst certificate_roundtrip) (simp_all add: cert_ok_def str_def is_scalar_def)

text \<open>The format's decoders do not refuse input that ends too early, since the empty input is the number 0: an
  envelope with an empty payload decodes to a certificate, which the checker refuses for its lack of fuel.\<close>

lemma truncation_accepted:
  "dec_wu64 [] = Some (WLit 0, [])" "dec_wu64 [1] = Some (WCol [], [])"
  "dec_certificate v (lenc_envelope v f []) = Some \<lparr>cert_label = [], cert_claim = WValid (WGt (WLit 0) (WLit 0)),
     cert_proof = ByEval 0, cert_fuel = 0\<rparr>"
  by (simp_all add: dec_wu64_def ldec_u64_def dec_nat_opt_def ldec_string_def ldec_list_def dec_certificate_def
      ldec_lenc_envelope dec_certificate_payload_def dec_wprop_def dec_wbool_def dec_wproof_def)

section \<open>The checker\<close>

lemma check_steps_iff:
  "check_steps fuel steps ps iv log \<longleftrightarrow> length steps \<le> fuel \<and> ps = replicate (length steps) ByValidEval \<and>
    (\<forall>s \<in> set steps. step_offset s < length log \<and> eval_wbool iv (log ! step_offset s) = Some 1)"
proof (induction fuel steps ps iv log rule: check_steps.induct)
  case (2 fuel s ss p ps iv log)
  then show ?case by (cases p) auto
qed auto

lemma fuel_consumed_pos [simp]: "0 < fuel_consumed claim"
  by (cases claim) simp_all

lemma check_witness_iff:
  "check_witness fuel claim pt row log \<longleftrightarrow>
    fuel_consumed claim \<le> fuel \<and> claim_holds claim row log \<and> proof_for claim row = Some pt"
  by (induction fuel claim pt row log rule: check_witness.induct)
    (auto simp: claim_holds_simps check_steps_iff)

text \<open>C21: The checker and the generator.  A certificate is accepted exactly when its fuel covers the rule nodes and chain steps, its claim holds
  of the row and of the log, and its proof is the one the generator writes for the claim; so acceptance is sound, less fuel always refuses and more never changes
  a verdict, and the self-check passes on exactly the true claims.\<close>

theorem checker_exact:
  "(check_witness fuel claim pt row log \<longleftrightarrow>
      fuel_consumed claim \<le> fuel \<and> claim_holds claim row log \<and> proof_for claim row = Some pt) \<and>
   (self_checked spec = None \<longleftrightarrow> \<not> claim_holds (spec_claim spec) (ctx_row (spec_ctx spec)) (ctx_log (spec_ctx spec)))"
proof -
  have need: "proof_for c r \<noteq> None" if "claim_holds c r l" for c r l
    using that by cases auto
  have "self_checked spec = None \<longleftrightarrow> \<not> claim_holds (spec_claim spec) (ctx_row (spec_ctx spec)) (ctx_log (spec_ctx spec))"
    using need [of "spec_claim spec" "ctx_row (spec_ctx spec)" "ctx_log (spec_ctx spec)"]
    by (cases "proof_for (spec_claim spec) (ctx_row (spec_ctx spec))")
      (auto simp: self_checked_def generate_witness_def verify_witness_def check_witness_iff fuel_pinned_def)
  then show ?thesis by (simp add: check_witness_iff)
qed

section \<open>The registry\<close>

definition demo_certificate :: certificate where
  "demo_certificate = \<lparr>cert_label = str ''user-v1-v2-id-positive'', cert_claim = spec_claim demo_witness_spec,
     cert_proof = WSteps [ByValidEval, ByValidEval], cert_fuel = 12\<rparr>"

lemma demo_self_checked: "self_checked demo_witness_spec = Some demo_certificate"
proof -
  have "verify_witness demo_certificate (spec_ctx demo_witness_spec)"
    by (simp add: verify_witness_def check_witness_iff claim_holds_simps demo_certificate_def demo_witness_spec_def
        user_cells_def demo_user_def bool_to_u64_def str_def)
  then show ?thesis
    by (simp add: self_checked_def generate_witness_def demo_certificate_def demo_witness_spec_def fuel_pinned_def)
qed

lemma demo_certificate_bytes: "enc_certificate 1 8226884882961155887 demo_certificate = wr_bytes (hd WITNESS_REGISTRY)"
  by (simp add: enc_certificate_def lenc_envelope_def lenc_bytes_def lenc_string_def lenc_list_def lenc_char_def
      lenc_u64_def demo_certificate_def demo_witness_spec_def enc_wstep_def str_def WITNESS_REGISTRY_def enc_nat.simps)

lemma user_surface_text: "surface_text user_fields = ''id:u64;name:string;email:string;tags:list(string)''"
  by (simp add: surface_text_def user_fields_def)

lemma user_surface_hash: "surface_hash user_fields = 8226884882961155887"
  unfolding surface_hash_def user_surface_text by code_simp

text \<open>C18: The committed registry.  The generated file is what the generator writes for the registered
  obligations, one row each, byte for byte, with the label, the fuel and the surface hash computed: the hash is that of the
  text of the user record's field list, in the order and under the names of its rows.  The Rust codec reads the row's envelope whole,
  with the row's version and surface hash; the bytes decode to a certificate that passes its check, whose label and
  fuel the row repeats, four times what its check consumes; and the certified predicate is, on every user, the generated check of a positive id.\<close>

theorem registry_regenerates:
  "\<exists>w env. map Some WITNESS_REGISTRY = map render_row demo_witnesses \<and>
    (let row = hd WITNESS_REGISTRY in
      dec_envelope_prefix (wr_bytes row) = Inr env \<and> env_version env = wr_version row \<and>
      env_fingerprint env = wr_surface_hash row \<and> env_len env = length (wr_bytes row) \<and>
      wr_surface_hash row = lean_string_hash ''id:u64;name:string;email:string;tags:list(string)'' \<and>
      dec_certificate witness_version (wr_bytes row) = Some w \<and> verify_witness w (spec_ctx demo_witness_spec) \<and>
      cert_label w = wr_label row \<and> cert_fuel w = unat (wr_fuel row) \<and>
      cert_fuel w = 4 * fuel_consumed (cert_claim w)) \<and>
    cert_claim w = WChain [\<lparr>step_offset = 0\<rparr>, \<lparr>step_offset = 1\<rparr>] (WGt (WCol (str ''id'')) (WLit 0)) \<and>
    (\<forall>u. map fst (user_cells u) = map (str \<circ> fst) (ctx_fields (spec_ctx demo_witness_spec)) \<and>
      (eval_wbool (WGt (WCol (str ''id'')) (WLit 0)) (user_cells u) = Some 1 \<longleftrightarrow> check_id_positive u))"
proof -
  let ?row = "hd WITNESS_REGISTRY"
  let ?payload = "lenc_string (cert_label demo_certificate) @ enc_wprop (cert_claim demo_certificate) @
    enc_wproof (cert_proof demo_certificate) @ enc_nat (cert_fuel demo_certificate)"
  have reg: "WITNESS_REGISTRY = [?row]" "wr_version ?row = 1" "wr_surface_hash ?row = 8226884882961155887"
      "wr_fuel ?row = 12" "wr_label ?row = str ''user-v1-v2-id-positive''" "wr_artifact ?row = spec_artifact demo_witness_spec"
    by (simp_all add: WITNESS_REGISTRY_def demo_witness_spec_def)
  have ctx: "ctx_fields (spec_ctx demo_witness_spec) = user_fields"
    by (simp add: demo_witness_spec_def)
  have "render_row demo_witness_spec = Some ?row"
    using reg demo_certificate_bytes
    by (cases ?row) (simp add: render_row_def demo_self_checked witness_version_def demo_certificate_def ctx user_surface_hash Let_def)
  then have row: "map Some WITNESS_REGISTRY = map render_row demo_witnesses"
    by (subst reg(1)) (simp add: demo_witnesses_def)
  have hash: "wr_surface_hash ?row = lean_string_hash ''id:u64;name:string;email:string;tags:list(string)''"
    using reg(3) user_surface_hash by (simp add: surface_hash_def user_surface_text)
  have cells: "map fst (user_cells u) = map (str \<circ> fst) (ctx_fields (spec_ctx demo_witness_spec))" for u
    by (simp add: ctx user_cells_def user_fields_def)
  have "length (wr_bytes ?row) < 2 ^ 64"
    by (simp add: WITNESS_REGISTRY_def)
  then have short: "length ?payload < 2 ^ 64"
    unfolding demo_certificate_bytes [symmetric] by (simp add: enc_certificate_def lenc_envelope_def lenc_bytes_def)
  then have "wr_bytes ?row = enc_envelope 1 8226884882961155887 ?payload"
    unfolding demo_certificate_bytes [symmetric] enc_certificate_def
    by (subst lenc_envelope_enc) simp_all
  then have env: "dec_envelope_prefix (wr_bytes ?row) = Inr \<lparr>env_version = 1, env_fingerprint = 8226884882961155887,
      env_payload = ?payload, env_len = length (wr_bytes ?row)\<rparr>"
    using dec_enc_envelope [OF short, of 1 8226884882961155887 "[]"] by simp
  have "cert_ok demo_certificate"
    by (simp add: cert_ok_def demo_certificate_def demo_witness_spec_def str_def is_scalar_def)
  then have dec: "dec_certificate witness_version (wr_bytes ?row) = Some demo_certificate"
    unfolding demo_certificate_bytes [symmetric] witness_version_def
    using dec_certificate_payload_roundtrip
    by (simp add: dec_certificate_def enc_certificate_def ldec_lenc_envelope)
  have ver: "verify_witness demo_certificate (spec_ctx demo_witness_spec)"
    using demo_self_checked by (auto simp: self_checked_def split: option.splits if_splits)
  have id: "eval_wbool (WGt (WCol (str ''id'')) (WLit 0)) (user_cells u) = Some 1 \<longleftrightarrow> check_id_positive u" for u
    by (simp add: user_cells_def check_id_positive_def bool_to_u64_def)
  show ?thesis
    using reg row env dec ver id hash cells
    by (intro exI [of _ demo_certificate] exI [of _ "\<lparr>env_version = 1, env_fingerprint = 8226884882961155887,
        env_payload = ?payload, env_len = length (wr_bytes ?row)\<rparr>"])
      (simp add: Let_def demo_certificate_def demo_witness_spec_def)
qed

end
