(* ===== verification/Faults.thy ===== *)
theory Faults
  imports Runtime Forge Oracle Records
begin

text \<open>
  The fault registries: the variants of every error type with their code, category and advice,
  as the \<open>error!\<close> macro of the third-party error crate is given them.  The guest's and the
  host's are generated from the Lean registry (\<open>faults_generated.rs\<close>,
  \<open>host_faults_generated.rs\<close>), the driver's and the oracle's are written by hand in their
  \<open>main.rs\<close>, and so are the two of the application shell (\<open>src/src/main.rs\<close>), which is modelled
  here with its one operation, loading a configuration file.
\<close>

datatype fault_category = Content | Transient | Invariant

record fault_entry =
  fe_code :: string
  fe_category :: fault_category
  fe_advice :: "string option"

section \<open>The generated registries\<close>

fun order_error_entry :: "order_error \<Rightarrow> fault_entry" where
  "order_error_entry EmptyCart =
     \<lparr>fe_code = ''E100'', fe_category = Content, fe_advice = Some ''add an item before checkout''\<rparr>"
| "order_error_entry (InvalidItem i) =
     \<lparr>fe_code = ''E101'', fe_category = Content, fe_advice = Some ''check cart state''\<rparr>"
| "order_error_entry (InsufficientFunds x) =
     \<lparr>fe_code = ''E102'', fe_category = Content, fe_advice = Some ''top up the balance''\<rparr>"

text \<open>The text of a fault; \<open>show_f64\<close> is the text of a floating-point number.\<close>

fun order_error_display :: "(f64_bits \<Rightarrow> string) \<Rightarrow> order_error \<Rightarrow> string" where
  "order_error_display show_f64 EmptyCart = ''the cart is empty''"
| "order_error_display show_f64 (InvalidItem i) = ''invalid cart item: '' @ show_nat (unat i)"
| "order_error_display show_f64 (InsufficientFunds x) = ''insufficient funds: '' @ show_f64 x"

fun host_fault_entry :: "host_fault \<Rightarrow> fault_entry" where
  "host_fault_entry NotInstantiated =
     \<lparr>fe_code = ''E103'', fe_category = Invariant, fe_advice = Some ''call instantiate() before call()''\<rparr>"
| "host_fault_entry (HostMissingExport n) =
     \<lparr>fe_code = ''E104'', fe_category = Content, fe_advice = Some ''check the component world exports (wasm-tools component wit)''\<rparr>"
| "host_fault_entry (UnsupportedResult t) =
     \<lparr>fe_code = ''E105'', fe_category = Invariant, fe_advice = Some ''return a scalar or handle it via typed bindings''\<rparr>"
| "host_fault_entry (EngineFault m) =
     \<lparr>fe_code = ''E106'', fe_category = Transient, fe_advice = Some ''inspect the chained wasmtime error text''\<rparr>"

fun host_fault_display :: "host_fault \<Rightarrow> string" where
  "host_fault_display NotInstantiated = ''component not instantiated''"
| "host_fault_display (HostMissingExport n) = ''missing export: '' @ n"
| "host_fault_display (UnsupportedResult t) = ''unsupported result type: '' @ t"
| "host_fault_display (EngineFault m) = ''engine: '' @ m"

section \<open>The registries written by hand\<close>

fun forge_fault_entry :: "forge_fault \<Rightarrow> fault_entry" where
  "forge_fault_entry (ManifestFault d) = \<lparr>fe_code = ''F101'', fe_category = Content,
     fe_advice = Some ''regenerate with `just gen`; never hand-edit GENERATED files''\<rparr>"
| "forge_fault_entry (SubprocessFault d) = \<lparr>fe_code = ''F102'', fe_category = Transient,
     fe_advice = Some ''re-run the failed job; the lake output names the cause''\<rparr>"
| "forge_fault_entry (EnvironmentFault d) = \<lparr>fe_code = ''F104'', fe_category = Content,
     fe_advice = Some ''fix the environment or arguments named in the detail''\<rparr>"

text \<open>The oracle's faults are two, each with a detail; the model's finer constructors carry the parts of the detail.  \<open>show_err\<close>
  is the text of the error of parsing a number.\<close>

fun is_manifest_fault :: "oracle_fault \<Rightarrow> bool" where
  "is_manifest_fault (MissingArg i what) \<longleftrightarrow> False"
| "is_manifest_fault (BadU64 i what s) \<longleftrightarrow> False"
| "is_manifest_fault (BadF64 i what s) \<longleftrightarrow> False"
| "is_manifest_fault _ \<longleftrightarrow> True"

definition oracle_fault_entry :: "oracle_fault \<Rightarrow> fault_entry" where
  "oracle_fault_entry f =
     (if is_manifest_fault f then
        \<lparr>fe_code = ''O101'', fe_category = Content,
         fe_advice = Some (''regenerate diff.json (`just gen`); the manifest is the Lean authority'' @ [CHR 0x27] @ ''s output'')\<rparr>
      else
        \<lparr>fe_code = ''O102'', fe_category = Content,
         fe_advice = Some (''the row'' @ [CHR 0x27] @ ''s args must match the manifest schema (fn/args/expected strings)'')\<rparr>)"

definition em_dash :: string where
  "em_dash = [CHR 0xE2, CHR 0x80, CHR 0x94]"

fun oracle_detail :: "(string \<Rightarrow> string) \<Rightarrow> oracle_fault \<Rightarrow> string" where
  "oracle_detail show_err (ReadFailed e) = ''read: '' @ e"
| "oracle_detail show_err (ParseFault e) = ''parse: '' @ e"
| "oracle_detail show_err (TooFewRows n) = ''only '' @ show_nat n @ '' rows '' @ em_dash @ '' vacuous''"
| "oracle_detail show_err (MissingStr i key) = ''row '' @ show_nat i @ '': missing `'' @ key @ ''` string''"
| "oracle_detail show_err (MissingArr i key) = ''row '' @ show_nat i @ '': missing `'' @ key @ ''` array''"
| "oracle_detail show_err (NonStringArg i) = ''row '' @ show_nat i @ '': non-string `args` element''"
| "oracle_detail show_err (MissingArg i what) =
     ''missing arg #'' @ show_nat i @ '' ('' @ what @ '') '' @ em_dash @ '' row too short''"
| "oracle_detail show_err (BadU64 i what s) =
     ''arg #'' @ show_nat i @ '' ('' @ what @ ''): `'' @ s @ ''` does not parse as u64: '' @ show_err s"
| "oracle_detail show_err (BadF64 i what s) =
     ''arg #'' @ show_nat i @ '' ('' @ what @ ''): `'' @ s @ ''` does not parse as f64: '' @ show_err s"

definition oracle_fault_display :: "(string \<Rightarrow> string) \<Rightarrow> oracle_fault \<Rightarrow> string" where
  "oracle_fault_display show_err f =
     (if is_manifest_fault f then ''oracle manifest: '' else ''oracle manifest row: '') @ oracle_detail show_err f"

section \<open>The application shell\<close>

datatype app_error = ConfigUnreadable string | AppIo string

fun app_error_entry :: "app_error \<Rightarrow> fault_entry" where
  "app_error_entry (ConfigUnreadable p) = \<lparr>fe_code = ''E100'', fe_category = Content, fe_advice = None\<rparr>"
| "app_error_entry (AppIo e) = \<lparr>fe_code = ''E101'', fe_category = Transient,
     fe_advice = Some ''retry; if persistent, check the disk''\<rparr>"

fun app_error_display :: "app_error \<Rightarrow> string" where
  "app_error_display (ConfigUnreadable p) = ''config unreadable: '' @ p"
| "app_error_display (AppIo e) = ''io: '' @ e"

text \<open>A fault with the keys attached to it; reading a file is the parameter \<open>read\<close>, with the text of the error.\<close>

type_synonym attached = "app_error \<times> (string \<times> string) list"

definition load_config :: "(string \<Rightarrow> string + string) \<Rightarrow> string \<Rightarrow> attached + string" where
  "load_config read path =
     (if path = [] then Inl (ConfigUnreadable path, [])
      else map_err (\<lambda>e. (e, [(''path'', path)])) (map_err AppIo (read path)))"

text \<open>\<open>main\<close>: the number of bytes it logs, or the fault it reports.\<close>

definition app_main :: "(string \<Rightarrow> string + string) \<Rightarrow> string list \<Rightarrow> attached + nat" where
  "app_main read argv =
     (let path = (if 1 < length argv then argv ! 1 else []) in
      case load_config read path of Inr contents \<Rightarrow> Inr (length contents) | Inl f \<Rightarrow> Inl f)"

section \<open>The codes\<close>

text \<open>The generated codes are allocated one after the other, the guest's before the host's, and no two registries of the
  tools share a code.\<close>

definition tool_codes :: "string list" where
  "tool_codes =
     map (fe_code \<circ> order_error_entry) [EmptyCart, InvalidItem 0, InsufficientFunds 0] @
     map (fe_code \<circ> host_fault_entry) [NotInstantiated, HostMissingExport [], UnsupportedResult [], EngineFault []] @
     map (fe_code \<circ> forge_fault_entry) [ManifestFault [], SubprocessFault [], EnvironmentFault []] @
     map (fe_code \<circ> oracle_fault_entry) [ReadFailed [], MissingArg 0 []]"

lemma codes_allocated:
  "take 7 tool_codes = map (\<lambda>n. CHR ''E'' # show_nat n) [100, 101, 102, 103, 104, 105, 106]"
  "distinct tool_codes"
  "fe_code (order_error_entry oe) \<in> set tool_codes" "fe_code (host_fault_entry h) \<in> set tool_codes"
  "fe_code (forge_fault_entry ff) \<in> set tool_codes" "fe_code (oracle_fault_entry f) \<in> set tool_codes"
proof -
  show "take 7 tool_codes = map (\<lambda>n. CHR ''E'' # show_nat n) [100, 101, 102, 103, 104, 105, 106]"
    by (simp add: tool_codes_def digit_char_def char_of_def bit_0 show_nat.simps)
  show "distinct tool_codes" by (simp add: tool_codes_def oracle_fault_entry_def)
  show "fe_code (order_error_entry oe) \<in> set tool_codes" by (cases oe) (simp_all add: tool_codes_def)
  show "fe_code (host_fault_entry h) \<in> set tool_codes" by (cases h) (simp_all add: tool_codes_def)
  show "fe_code (forge_fault_entry ff) \<in> set tool_codes" by (cases ff) (simp_all add: tool_codes_def)
  show "fe_code (oracle_fault_entry f) \<in> set tool_codes" by (simp add: tool_codes_def oracle_fault_entry_def)
qed

text \<open>The codes of the application, which are set by hand, are codes of the guest.\<close>

lemma app_codes_collide:
  "fe_code (app_error_entry (ConfigUnreadable p)) = fe_code (order_error_entry EmptyCart)"
  "fe_code (app_error_entry (AppIo e)) = fe_code (order_error_entry (InvalidItem i))"
  by simp_all

text \<open>Started without an argument the application reports the empty path, without reading anything.\<close>

lemma app_no_argument: "length argv \<le> 1 \<Longrightarrow> app_main read argv = Inl (ConfigUnreadable [], [])"
  by (simp add: app_main_def load_config_def)

lemma app_with_argument:
  "p \<noteq> [] \<Longrightarrow> app_main read (prog # p # rest) =
    (case read p of Inl e \<Rightarrow> Inl (AppIo e, [(''path'', p)]) | Inr s \<Rightarrow> Inr (length s))"
  by (simp add: app_main_def load_config_def map_err_def split: sum.split)

end
