(* ===== verification/Randomness.thy ===== *)
theory Randomness
  imports Text
begin

text \<open>
  The patched random number crate, \<open>patches/getrandom-0.3.4\<close>: the preview 3 backend the
  repository adds to it (\<open>backends/wasi_p3.rs\<close>), the cascade that selects a backend
  (\<open>backends.rs\<close>), the entry points (\<open>lib.rs\<close>), the default integer functions and the
  truncation of \<open>util.rs\<close>, and the error codes (\<open>error.rs\<close>, the targets other than UEFI).

  The host's \<open>get-random-u64\<close> is a parameter \<open>rnd\<close>: its \<open>n\<close>-th call returns \<open>rnd n\<close>, and the
  number of calls made is the state.  A buffer of \<open>MaybeUninit<u8>\<close> is a list of optional bytes
  at an address.  What the backend does under \<open>unsafe\<close> is written with its conditions: reading
  past the eight bytes of a draw, writing a \<open>u64\<close> at an address that is not a multiple of
  eight and assuming an uninitialized byte to be initialized are undefined behaviour, the
  value \<open>None\<close>.
\<close>

unbundle bit_operations_syntax

section \<open>Error codes\<close>

record rand_error =
  err_code :: i32

definition INTERNAL_START :: i32 where
  "INTERNAL_START = push_bit 16 1"

definition CUSTOM_START :: i32 where
  "CUSTOM_START = push_bit 17 1"

definition new_internal :: "u16 \<Rightarrow> rand_error" where
  "new_internal n = \<lparr>err_code = INTERNAL_START + ucast n\<rparr>"

definition new_custom :: "u16 \<Rightarrow> rand_error" where
  "new_custom n = \<lparr>err_code = CUSTOM_START + ucast n\<rparr>"

definition UNSUPPORTED :: rand_error where "UNSUPPORTED = new_internal 0"
definition ERRNO_NOT_POSITIVE :: rand_error where "ERRNO_NOT_POSITIVE = new_internal 1"
definition UNEXPECTED :: rand_error where "UNEXPECTED = new_internal 2"

definition from_neg_error_code :: "i32 \<Rightarrow> rand_error" where
  "from_neg_error_code code = (if sint code < 0 then \<lparr>err_code = code\<rparr> else UNEXPECTED)"

text \<open>\<open>i32::checked_neg\<close>: \<open>None\<close> for the least value only.\<close>

definition checked_neg :: "i32 \<Rightarrow> i32 option" where
  "checked_neg x = (if sint x = - (2 ^ 31) then None else Some (- x))"

definition raw_os_error :: "string \<Rightarrow> rand_error \<Rightarrow> i32 option" where
  "raw_os_error target_os e = (let code = err_code e in
     if 0 \<le> sint code then None
     else if target_os \<noteq> ''solid_asp3'' then checked_neg code
     else Some code)"

text \<open>The arms of \<open>internal_desc\<close> compiled on every target.\<close>

definition internal_desc :: "rand_error \<Rightarrow> string option" where
  "internal_desc e =
     (if e = UNSUPPORTED then Some ''getrandom: this target is not supported''
      else if e = ERRNO_NOT_POSITIVE then Some ''errno: did not return a positive value''
      else if e = UNEXPECTED then Some ''unexpected situation''
      else None)"

definition show_i32 :: "i32 \<Rightarrow> string" where
  "show_i32 x = (if sint x < 0 then ''-'' @ show_nat (nat (- sint x)) else show_nat (nat (sint x)))"

text \<open>\<open>Display\<close>, without the \<open>std\<close> feature.\<close>

definition rand_error_display :: "string \<Rightarrow> rand_error \<Rightarrow> string" where
  "rand_error_display target_os e = (case raw_os_error target_os e of
       Some errno \<Rightarrow> ''OS Error: '' @ show_i32 errno
     | None \<Rightarrow> (case internal_desc e of
         Some desc \<Rightarrow> desc
       | None \<Rightarrow> ''Unknown Error: '' @ show_i32 (err_code e)))"

section \<open>The choice of the backend\<close>

record cfg =
  cfg_backend :: "string option"
  cfg_wasm_js :: bool
  cfg_windows :: bool
  cfg_arch :: string
  cfg_os :: string
  cfg_env :: string
  cfg_vendor :: string

datatype backend_choice =
    BkCustom | BkGetrandom | BkLinuxRaw | BkRdrand | BkRndr | BkEfiRng | BkWindowsLegacy | BkWasmJs
  | BkUnsupported | BkEspIdf | BkUseFile | BkGetentropy | BkLinuxAndroidWithFallback | BkSolaris
  | BkNetbsd | BkFuchsia | BkAppleOther | BkWasiP1 | BkWasiP2 | BkWasiP3 | BkHermit | BkVxworks
  | BkSolid | BkWindows

datatype compile_error = NeedsWasmJs | UnknownWasi | WasmUnsupported | TargetUnsupported

text \<open>Targets whose kernel may be older than the \<open>getrandom\<close> system call.\<close>

definition may_lack_getrandom :: "cfg \<Rightarrow> bool" where
  "may_lack_getrandom c \<longleftrightarrow>
     cfg_os c = ''android'' \<and> cfg_arch c \<in> {''aarch64'', ''arm'', ''x86'', ''x86_64''} \<or>
     cfg_os c = ''linux'' \<and>
       (cfg_arch c \<in> {''aarch64'', ''arm'', ''powerpc'', ''powerpc64'', ''s390x'', ''x86'', ''x86_64''} \<or>
        cfg_env c = ''musl'' \<and> cfg_arch c \<notin> {''riscv64'', ''riscv32''})"

text \<open>The nested choice on WASI, and the one on bare WebAssembly.\<close>

definition wasi_backend :: "cfg \<Rightarrow> compile_error + backend_choice" where
  "wasi_backend c =
     (if cfg_env c = ''p1'' then Inr BkWasiP1
      else if cfg_env c = ''p2'' then Inr BkWasiP2
      else if cfg_env c = ''p3'' then Inr BkWasiP3
      else Inl UnknownWasi)"

definition target_backend :: "cfg \<Rightarrow> compile_error + backend_choice" where
  "target_backend c =
     (if cfg_os c = ''linux'' \<and> cfg_env c = '''' then Inr BkLinuxRaw
      else if cfg_os c = ''espidf'' then Inr BkEspIdf
      else if cfg_os c \<in> {''haiku'', ''redox'', ''nto'', ''aix''} then Inr BkUseFile
      else if cfg_os c \<in> {''macos'', ''openbsd'', ''vita'', ''emscripten''} then Inr BkGetentropy
      else if may_lack_getrandom c then Inr BkLinuxAndroidWithFallback
      else if cfg_os c \<in> {''android'', ''linux'', ''dragonfly'', ''freebsd'', ''hurd'', ''illumos'', ''cygwin''} \<or>
        cfg_os c = ''horizon'' \<and> cfg_arch c = ''arm'' then Inr BkGetrandom
      else if cfg_os c = ''solaris'' then Inr BkSolaris
      else if cfg_os c = ''netbsd'' then Inr BkNetbsd
      else if cfg_os c = ''fuchsia'' then Inr BkFuchsia
      else if cfg_os c \<in> {''ios'', ''visionos'', ''watchos'', ''tvos''} then Inr BkAppleOther
      else if cfg_arch c = ''wasm32'' \<and> cfg_os c = ''wasi'' then wasi_backend c
      else if cfg_os c = ''hermit'' then Inr BkHermit
      else if cfg_os c = ''vxworks'' then Inr BkVxworks
      else if cfg_os c = ''solid_asp3'' then Inr BkSolid
      else if cfg_windows c \<and> cfg_vendor c = ''win7'' then Inr BkWindowsLegacy
      else if cfg_windows c then Inr BkWindows
      else if cfg_arch c = ''x86_64'' \<and> cfg_env c = ''sgx'' then Inr BkRdrand
      else if cfg_arch c = ''wasm32'' \<and> cfg_os c \<in> {''unknown'', ''none''} then
        (if cfg_wasm_js c then Inr BkWasmJs else Inl WasmUnsupported)
      else Inl TargetUnsupported)"

text \<open>The whole cascade: an explicit choice by the configuration flag comes first.\<close>

definition backend_for :: "cfg \<Rightarrow> compile_error + backend_choice" where
  "backend_for c =
     (if cfg_backend c = Some ''custom'' then Inr BkCustom
      else if cfg_backend c = Some ''linux_getrandom'' then Inr BkGetrandom
      else if cfg_backend c = Some ''linux_raw'' then Inr BkLinuxRaw
      else if cfg_backend c = Some ''rdrand'' then Inr BkRdrand
      else if cfg_backend c = Some ''rndr'' then Inr BkRndr
      else if cfg_backend c = Some ''efi_rng'' then Inr BkEfiRng
      else if cfg_backend c = Some ''windows_legacy'' then Inr BkWindowsLegacy
      else if cfg_backend c = Some ''wasm_js'' then (if cfg_wasm_js c then Inr BkWasmJs else Inl NeedsWasmJs)
      else if cfg_backend c = Some ''unsupported'' then Inr BkUnsupported
      else target_backend c)"

section \<open>Memory\<close>

type_synonym draws_of = "nat \<Rightarrow> u64"
type_synonym uninit = "u8 option list"

text \<open>The bytes of an integer in memory, least significant first, as WebAssembly stores them.\<close>

definition le_bytes :: "'a::len word \<Rightarrow> bytes" where
  "le_bytes w = map (\<lambda>i. ucast (drop_bit (8 * i) w)) [0..<LENGTH('a) div 8]"

fun of_le_bytes :: "bytes \<Rightarrow> 'a::len word" where
  "of_le_bytes [] = 0"
| "of_le_bytes (b # bs) = ucast b OR push_bit 8 (of_le_bytes bs)"

text \<open>
  \<open>align_to_mut::<MaybeUninit<u64>>\<close> on \<open>len\<close> bytes at \<open>addr\<close>: the lengths of the prefix, of the
  middle part in words of eight bytes at an aligned address, and of the suffix.
\<close>

definition align_to :: "nat \<Rightarrow> nat \<Rightarrow> nat \<times> nat \<times> nat" where
  "align_to addr len = (let offset = (8 - addr mod 8) mod 8 in
     if len < offset then (len, 0, 0)
     else (offset, (len - offset) div 8, (len - offset) mod 8))"

text \<open>\<open>copy_nonoverlapping\<close> of the first \<open>n\<close> bytes of the draw \<open>v\<close>, and the write of a whole one.\<close>

definition copy_from_word :: "u64 \<Rightarrow> nat \<Rightarrow> uninit option" where
  "copy_from_word v n = (if n \<le> 8 then Some (map Some (take n (le_bytes v))) else None)"

definition write_word :: "nat \<Rightarrow> u64 \<Rightarrow> uninit option" where
  "write_word addr v = (if addr mod 8 = 0 then Some (map Some (le_bytes v)) else None)"

text \<open>\<open>slice_assume_init_mut\<close>.\<close>

definition slice_assume_init :: "uninit \<Rightarrow> bytes option" where
  "slice_assume_init bs = (if None \<in> set bs then None else Some (map the bs))"

definition slice_as_uninit :: "bytes \<Rightarrow> uninit" where
  "slice_as_uninit bs = map Some bs"

section \<open>The preview 3 backend\<close>

definition get_random_u64 :: "draws_of \<Rightarrow> nat \<Rightarrow> u64 \<times> nat" where
  "get_random_u64 rnd n = (rnd n, n + 1)"

text \<open>\<open>util::truncate\<close>; its \<open>expect\<close> is the panic \<open>None\<close>.\<close>

definition truncate_u64 :: "u64 \<Rightarrow> u32 option" where
  "truncate_u64 val = u32_try_from (val AND ucast (- 1 :: u32))"

definition p3_inner_u32 :: "draws_of \<Rightarrow> nat \<Rightarrow> ((rand_error + u32) \<times> nat) option" where
  "p3_inner_u32 rnd n = (let (val, n') = get_random_u64 rnd n in
     map_option (\<lambda>v. (Inr v, n')) (truncate_u64 val))"

definition p3_inner_u64 :: "draws_of \<Rightarrow> nat \<Rightarrow> ((rand_error + u64) \<times> nat) option" where
  "p3_inner_u64 rnd n = (let (val, n') = get_random_u64 rnd n in Some (Inr val, n'))"

text \<open>One partial piece: no draw when it is empty.\<close>

definition fill_piece :: "draws_of \<Rightarrow> nat \<Rightarrow> nat \<Rightarrow> (uninit \<times> nat) option" where
  "fill_piece rnd len n =
     (if len \<noteq> 0 then
        (let (val, n') = get_random_u64 rnd n in map_option (\<lambda>bs. (bs, n')) (copy_from_word val len))
      else Some ([], n))"

text \<open>The loop over the aligned words.\<close>

fun fill_chunks :: "draws_of \<Rightarrow> nat \<Rightarrow> nat \<Rightarrow> nat \<Rightarrow> (uninit \<times> nat) option" where
  "fill_chunks rnd addr 0 n = Some ([], n)"
| "fill_chunks rnd addr (Suc k) n = (let (val, n') = get_random_u64 rnd n in
     Option.bind (write_word addr val) (\<lambda>w.
     map_option (\<lambda>(bs, n''). (w @ bs, n'')) (fill_chunks rnd (addr + 8) k n')))"

text \<open>The result, the buffer afterwards and the number of draws.\<close>

definition p3_fill_inner ::
  "draws_of \<Rightarrow> nat \<Rightarrow> uninit \<Rightarrow> nat \<Rightarrow> ((rand_error + unit) \<times> uninit \<times> nat) option" where
  "p3_fill_inner rnd addr dest n =
     (let (p, c, s) = align_to addr (length dest) in
      Option.bind (fill_piece rnd p n) (\<lambda>(prefix, n1).
      Option.bind (fill_chunks rnd (addr + p) c n1) (\<lambda>(chunks, n2).
      Option.bind (fill_piece rnd s n2) (\<lambda>(suffix, n3).
      Some (Inr (), prefix @ chunks @ suffix, n3)))))"

section \<open>The entry points\<close>

text \<open>\<open>fill_inner\<close> of the selected backend is the parameter \<open>inner\<close>: from the address and the buffer to the
  result and the buffer afterwards, or undefined behaviour, a panic, a call that never returns (\<open>None\<close>).
  The error type is a parameter too: it is another one on UEFI.\<close>

type_synonym ('e, 's) filler_of = "nat \<Rightarrow> uninit \<Rightarrow> 's \<Rightarrow> (('e + unit) \<times> uninit \<times> 's) option"
type_synonym 's filler = "(rand_error, 's) filler_of"

definition fill_uninit ::
  "('e, 's) filler_of \<Rightarrow> nat \<Rightarrow> uninit \<Rightarrow> 's \<Rightarrow> (('e + bytes) \<times> uninit \<times> 's) option" where
  "fill_uninit inner addr dest n =
     Option.bind (if dest \<noteq> [] then inner addr dest n else Some (Inr (), dest, n)) (\<lambda>(r, dest', n').
       case r of
         Inl e \<Rightarrow> Some (Inl e, dest', n')
       | Inr _ \<Rightarrow> map_option (\<lambda>bs. (Inr bs, dest', n')) (slice_assume_init dest'))"

definition rand_fill :: "('e, 's) filler_of \<Rightarrow> nat \<Rightarrow> bytes \<Rightarrow> 's \<Rightarrow> (('e + unit) \<times> bytes \<times> 's) option" where
  "rand_fill inner addr dest n =
     Option.bind (fill_uninit inner addr (slice_as_uninit dest) n) (\<lambda>(r, dest', n').
       map_option (\<lambda>bs. (map_sum id (\<lambda>_. ()) r, bs, n')) (slice_assume_init dest'))"

text \<open>\<open>util::inner_u32\<close> and \<open>util::inner_u64\<close>, on an uninitialized integer at \<open>addr\<close>.\<close>

definition default_inner :: "('e, 's) filler_of \<Rightarrow> nat \<Rightarrow> 's \<Rightarrow> (('e + 'a::len word) \<times> 's) option" where
  "default_inner inner addr n =
     Option.bind (fill_uninit inner addr (replicate (LENGTH('a) div 8) None) n) (\<lambda>(r, dest, n').
       case r of
         Inl e \<Rightarrow> Some (Inl e, n')
       | Inr _ \<Rightarrow> map_option (\<lambda>bs. (Inr (of_le_bytes bs), n')) (slice_assume_init dest))"

end
