(* ===== verification/OsRandom.thy ===== *)
theory OsRandom
  imports Randomness
begin

text \<open>
  The backends of \<open>patches/getrandom-0.3.4\<close> that ask an operating system or a processor:
  \<open>util_libc.rs\<close> with its retry loop, \<open>lazy.rs\<close>, and the files of \<open>backends/\<close> but \<open>efi_rng.rs\<close>,
  which is in \<open>Uefi\<close>, and \<open>wasi_p3.rs\<close>, which is in \<open>Randomness\<close>.  The calls out are parameters: a system call takes the
  length of the buffer it is given to its return value, the bytes it writes at the start of
  the buffer and the value of \<open>errno\<close> afterwards.  The state \<open>'s\<close> is the state of the system;
  the static cells of the crate are the record \<open>process\<close>,
  the C library of the target the record \<open>c_lib\<close>.  A loop that may not end is a
  \<open>partial_function\<close>.  Code points of memory checkers (\<open>sanitizer.rs\<close>) write nothing.
\<close>

type_synonym ('w, 's) syscall = "nat \<Rightarrow> 's \<Rightarrow> ('w word \<times> bytes \<times> i32) \<times> 's"
type_synonym 's fill_result = "(rand_error + unit) \<times> uninit \<times> 's"

section \<open>The C library\<close>

text \<open>
  The C library of the target: the name of the system and the error numbers that the code
  tests, \<open>libc::EINTR\<close>, \<open>libc::EPERM\<close> and \<open>libc::ENOSYS\<close>, which differ between targets.
\<close>

record c_lib =
  lc_os :: string
  lc_EINTR :: i32
  lc_EPERM :: i32
  lc_ENOSYS :: i32

text \<open>The negation of a positive number is always defined.\<close>

definition last_os_error :: "i32 \<Rightarrow> rand_error" where
  "last_os_error errno = (if 0 < sint errno then from_neg_error_code (- errno) else ERRNO_NOT_POSITIVE)"

text \<open>What a call leaves in the buffer it was given: it writes inside it.\<close>

definition overwrite :: "bytes \<Rightarrow> uninit \<Rightarrow> uninit" where
  "overwrite bs buf = map Some (take (length buf) bs) @ drop (length bs) buf"

lemma length_overwrite [simp]: "length (overwrite bs buf) = length buf"
  by (simp add: overwrite_def)

text \<open>The loop ends unless the call is interrupted forever.\<close>

partial_function (option) sys_fill_exact ::
  "c_lib \<Rightarrow> (64, 's) syscall \<Rightarrow> uninit \<Rightarrow> 's \<Rightarrow> 's fill_result option" where
  "sys_fill_exact lc sys buf s =
     (if buf = [] then Some (Inr (), [], s)
      else (case sys (length buf) s of ((res, bs, errno), s') \<Rightarrow>
        if 0 < sint res then
          (if nat (sint res) \<le> length buf then
             Option.bind (sys_fill_exact lc sys (drop (nat (sint res)) (overwrite bs buf)) s') (\<lambda>(r, rest, s'').
               Some (r, take (nat (sint res)) (overwrite bs buf) @ rest, s''))
           else Some (Inl UNEXPECTED, overwrite bs buf, s'))
        else if res = - 1 then
          (if raw_os_error (lc_os lc) (last_os_error errno) \<noteq> Some (lc_EINTR lc)
           then Some (Inl (last_os_error errno), overwrite bs buf, s')
           else sys_fill_exact lc sys (overwrite bs buf) s')
        else Some (Inl UNEXPECTED, overwrite bs buf, s')))"

text \<open>\<open>getrandom.rs\<close>.\<close>

definition getrandom_fill :: "c_lib \<Rightarrow> (64, 's) syscall \<Rightarrow> 's filler" where
  "getrandom_fill lc sys addr dest s = sys_fill_exact lc sys dest s"

text \<open>\<open>linux_raw.rs\<close>: the raw call returns the negated error number; on an empty buffer it still asks.\<close>

partial_function (option) linux_raw_fill :: "(64, 's) syscall \<Rightarrow> uninit \<Rightarrow> 's \<Rightarrow> 's fill_result option" where
  "linux_raw_fill sys dest s =
     (case sys (length dest) s of ((ret, bs, _), s') \<Rightarrow>
        if sint ret = 0 then Some (Inl UNEXPECTED, overwrite bs dest, s')
        else if 0 < sint ret then
          (if nat (sint ret) \<le> length dest then
             (if nat (sint ret) = length dest then Some (Inr (), overwrite bs dest, s')
              else Option.bind (linux_raw_fill sys (drop (nat (sint ret)) (overwrite bs dest)) s') (\<lambda>(r, rest, s'').
                Some (r, take (nat (sint ret)) (overwrite bs dest) @ rest, s'')))
           else Some (Inl UNEXPECTED, overwrite bs dest, s'))
        else if sint ret = - 4 then linux_raw_fill sys (overwrite bs dest) s'
        else Some (Inl (if - (2 ^ 31) \<le> sint ret then from_neg_error_code (scast ret) else UNEXPECTED), overwrite bs dest, s'))"

text \<open>\<open>hermit.rs\<close>: no retry, so the loop ends.\<close>

function hermit_fill :: "(64, 's) syscall \<Rightarrow> uninit \<Rightarrow> 's \<Rightarrow> 's fill_result" where
  "hermit_fill sys dest s =
     (if dest = [] then (Inr (), [], s)
      else (case sys (length dest) s of ((res, bs, _), s') \<Rightarrow>
        if 0 < sint res then
          (if nat (sint res) \<le> length dest then
             (case hermit_fill sys (drop (nat (sint res)) (overwrite bs dest)) s' of (r, rest, s'') \<Rightarrow>
               (r, take (nat (sint res)) (overwrite bs dest) @ rest, s''))
           else (Inl UNEXPECTED, overwrite bs dest, s'))
        else (Inl (if - (2 ^ 31) \<le> sint res then from_neg_error_code (scast res) else UNEXPECTED), overwrite bs dest, s')))"
  by pat_completeness auto
termination
  by (relation "measure (\<lambda>(sys, dest, s). length dest)") auto

declare hermit_fill.simps [simp del]

definition hermit_int :: "('s \<Rightarrow> (i32 \<times> 'w::len word) \<times> 's) \<Rightarrow> 's \<Rightarrow> (rand_error + 'w word) \<times> 's" where
  "hermit_int sys s = (case sys s of ((ret, res), s') \<Rightarrow>
     (if ret = 0 then Inr res else if ret = - 1 then Inl UNSUPPORTED else Inl UNEXPECTED, s'))"

section \<open>Calls that fill a bounded chunk\<close>

text \<open>
  The loops over \<open>chunks_mut(n)\<close>: each chunk is one call, which writes bytes and says whether
  it failed.  A chunk size of 0 is a panic.
\<close>

type_synonym 's chunk_call = "nat \<Rightarrow> 's \<Rightarrow> (rand_error option \<times> bytes) \<times> 's"

function chunked_fill :: "nat \<Rightarrow> 's chunk_call \<Rightarrow> uninit \<Rightarrow> 's \<Rightarrow> 's fill_result option" where
  "chunked_fill n call dest s =
     (if n = 0 then None
      else if dest = [] then Some (Inr (), [], s)
      else (case call (length (take n dest)) s of ((e, bs), s') \<Rightarrow>
        case e of
          Some err \<Rightarrow> Some (Inl err, overwrite bs (take n dest) @ drop n dest, s')
        | None \<Rightarrow> Option.bind (chunked_fill n call (drop n dest) s') (\<lambda>(r, rest, s'').
            Some (r, overwrite bs (take n dest) @ rest, s''))))"
  by pat_completeness auto
termination
  by (relation "measure (\<lambda>(n, call, dest, s). length dest)") auto

declare chunked_fill.simps [simp del]

definition getentropy_chunk :: "(32, 's) syscall \<Rightarrow> 's chunk_call" where
  "getentropy_chunk sys n s = (case sys n s of ((ret, bs, errno), s') \<Rightarrow>
     ((if ret \<noteq> 0 then Some (last_os_error errno) else None, bs), s'))"

definition getentropy_fill :: "(32, 's) syscall \<Rightarrow> 's filler" where
  "getentropy_fill sys addr dest s = chunked_fill 256 (getentropy_chunk sys) dest s"

definition solaris_chunk :: "(64, 's) syscall \<Rightarrow> 's chunk_call" where
  "solaris_chunk sys n s = (case sys n s of ((ret, bs, errno), s') \<Rightarrow>
     ((if 0 \<le> sint ret \<and> nat (sint ret) = n then None
       else if ret = 0 then Some (last_os_error errno)
       else Some UNEXPECTED, bs), s'))"

definition solaris_fill :: "(64, 's) syscall \<Rightarrow> 's filler" where
  "solaris_fill sys addr dest s = chunked_fill 1024 (solaris_chunk sys) dest s"

definition WINDOWS_RTL_GEN_RANDOM :: rand_error where "WINDOWS_RTL_GEN_RANDOM = new_internal 10"

definition rtl_chunk :: "(8, 's) syscall \<Rightarrow> 's chunk_call" where
  "rtl_chunk sys n s = (case sys n s of ((ret, bs, _), s') \<Rightarrow>
     ((if ret \<noteq> 1 then Some WINDOWS_RTL_GEN_RANDOM else None, bs), s'))"

definition windows_legacy_fill :: "(8, 's) syscall \<Rightarrow> 's filler" where
  "windows_legacy_fill sys addr dest s = chunked_fill (2 ^ 31 - 1) (rtl_chunk sys) dest s"

definition WEB_CRYPTO :: rand_error where "WEB_CRYPTO = new_internal 10"

text \<open>\<open>getRandomValues\<close> returns or throws.  With atomics the bytes go through a buffer of the browser, whose
  length is the chunk size.\<close>

definition wasm_js_chunk :: "bool \<Rightarrow> (1, 's) syscall \<Rightarrow> 's chunk_call" where
  "wasm_js_chunk atomics get_random_values n s = (case get_random_values n s of ((thrown, bs, _), s') \<Rightarrow>
     (if thrown \<noteq> 0 then (Some WEB_CRYPTO, if atomics then [] else bs) else (None, bs), s'))"

definition wasm_js_fill :: "bool \<Rightarrow> (1, 's) syscall \<Rightarrow> 's filler" where
  "wasm_js_fill atomics get_random_values addr dest s =
     chunked_fill (if atomics then min (length dest) 65536 else 65536) (wasm_js_chunk atomics get_random_values) dest s"

section \<open>One call for the whole buffer\<close>

definition IOS_RANDOM_GEN :: rand_error where "IOS_RANDOM_GEN = new_internal 10"

definition apple_other_fill :: "(32, 's) syscall \<Rightarrow> 's filler" where
  "apple_other_fill sys addr dest s = (case sys (length dest) s of ((ret, bs, _), s') \<Rightarrow>
     Some (if ret = 0 then Inr () else Inl IOS_RANDOM_GEN, overwrite bs dest, s'))"

text \<open>Fuchsia, ESP-IDF and Windows: the result is not looked at, but for a debug assertion.\<close>

definition fuchsia_fill :: "('w, 's) syscall \<Rightarrow> 's filler" where
  "fuchsia_fill zx_cprng_draw addr dest s = (case zx_cprng_draw (length dest) s of ((_, bs, _), s') \<Rightarrow>
     Some (Inr (), overwrite bs dest, s'))"

definition esp_idf_fill :: "(32, 's) syscall \<Rightarrow> 's filler" where
  "esp_idf_fill esp_fill_random addr dest s = (case esp_fill_random (length dest) s of ((_, bs, _), s') \<Rightarrow>
     Some (Inr (), overwrite bs dest, s'))"

definition windows_fill :: "(32, 's) syscall \<Rightarrow> 's filler" where
  "windows_fill process_prng addr dest s = (case process_prng (length dest) s of ((result, bs, _), s') \<Rightarrow>
     Some (Inr (), overwrite bs dest, s'))"

definition solid_fill :: "(32, 's) syscall \<Rightarrow> 's filler" where
  "solid_fill sys addr dest s = (case sys (length dest) s of ((ret, bs, _), s') \<Rightarrow>
     Some (if 0 \<le> sint ret then Inr () else Inl (from_neg_error_code ret), overwrite bs dest, s'))"

definition wasi_p1_fill :: "(32, 's) syscall \<Rightarrow> 's filler" where
  "wasi_p1_fill random_get addr dest s = (case random_get (length dest) s of ((ret, bs, _), s') \<Rightarrow>
     Some (if ret = 0 then Inr ()
           else if sint ret \<le> 65535 then Inl (from_neg_error_code (- ret))
           else Inl UNEXPECTED, overwrite bs dest, s'))"

definition custom_fill :: "(nat \<Rightarrow> 's \<Rightarrow> ((rand_error + unit) \<times> bytes) \<times> 's) \<Rightarrow> 's filler" where
  "custom_fill f addr dest s = (case f (length dest) s of ((r, bs), s') \<Rightarrow> Some (r, overwrite bs dest, s'))"

definition unsupported_fill :: "'s filler" where
  "unsupported_fill addr dest s = Some (Inl UNSUPPORTED, dest, s)"

section \<open>The second preview of WASI\<close>

text \<open>\<open>wasi_p2.rs\<close>: the code the backend for the third preview was copied from.\<close>

definition p2_inner_u32 :: "draws_of \<Rightarrow> nat \<Rightarrow> ((rand_error + u32) \<times> nat) option" where
  "p2_inner_u32 rnd n = (let (val, n') = get_random_u64 rnd n in
     map_option (\<lambda>v. (Inr v, n')) (truncate_u64 val))"

definition p2_inner_u64 :: "draws_of \<Rightarrow> nat \<Rightarrow> ((rand_error + u64) \<times> nat) option" where
  "p2_inner_u64 rnd n = (let (val, n') = get_random_u64 rnd n in Some (Inr val, n'))"

definition p2_fill_inner :: "draws_of \<Rightarrow> nat filler" where
  "p2_fill_inner rnd addr dest n =
     (let (p, c, s) = align_to addr (length dest) in
      Option.bind (fill_piece rnd p n) (\<lambda>(prefix, n1).
      Option.bind (fill_chunks rnd (addr + p) c n1) (\<lambda>(chunks, n2).
      Option.bind (fill_piece rnd s n2) (\<lambda>(suffix, n3).
      Some (Inr (), prefix @ chunks @ suffix, n3)))))"

section \<open>The static cells\<close>

text \<open>A pointer to a function: the one of the C library, the replacement for NetBSD, the sentinel for none.\<close>

datatype rand_fn = LibcGetrandom | KernArnd | NotAvailable

record 's process =
  pr_os :: 's
  pr_fd :: i32
  pr_getrandom :: "rand_fn option"
  pr_rng_init :: bool
  pr_rdrand_good :: u64
  pr_rndr_good :: u64
  pr_draws :: nat

subsection \<open>lazy.rs\<close>

text \<open>The largest \<open>usize\<close> marks the cell that is not initialized.\<close>

definition LAZY_UNINIT :: u64 where "LAZY_UNINIT = - 1"

definition lazy_usize :: "('s \<Rightarrow> u64 \<times> 's) \<Rightarrow> u64 \<Rightarrow> 's \<Rightarrow> u64 \<times> u64 \<times> 's" where
  "lazy_usize init cell s =
     (if cell \<noteq> LAZY_UNINIT then (cell, cell, s) else (case init s of (val, s') \<Rightarrow> (val, val, s')))"

definition lazy_bool :: "('s \<Rightarrow> bool \<times> 's) \<Rightarrow> u64 \<Rightarrow> 's \<Rightarrow> bool \<times> u64 \<times> 's" where
  "lazy_bool init cell s =
     (case lazy_usize (\<lambda>s. case init s of (b, s') \<Rightarrow> (if b then 1 else 0, s')) cell s of (v, cell', s') \<Rightarrow> (v \<noteq> 0, cell', s'))"

subsection \<open>VxWorks\<close>

definition VXWORKS_RAND_SECURE :: rand_error where "VXWORKS_RAND_SECURE = new_internal 10"

text \<open>One round of \<open>init\<close>: the error, or the new value of \<open>RNG_INIT\<close>.\<close>

definition vxworks_init :: "('s \<Rightarrow> i32 \<times> 's) \<Rightarrow> bool \<Rightarrow> 's \<Rightarrow> (rand_error + bool) \<times> 's" where
  "vxworks_init rand_secure ready s = (case rand_secure s of (ret, s') \<Rightarrow>
     (if 0 < sint ret then Inr True else if ret = 0 then Inr ready else Inl VXWORKS_RAND_SECURE, s'))"

partial_function (option) vxworks_wait ::
  "('s \<Rightarrow> i32 \<times> 's) \<Rightarrow> bool \<Rightarrow> 's \<Rightarrow> ((rand_error + unit) \<times> bool \<times> 's) option" where
  "vxworks_wait rand_secure ready s =
     (if ready then Some (Inr (), ready, s)
      else (case vxworks_init rand_secure ready s of
        (Inl e, s') \<Rightarrow> Some (Inl e, ready, s')
      | (Inr ready', s') \<Rightarrow> vxworks_wait rand_secure ready' s'))"

definition vxworks_fill :: "('s \<Rightarrow> i32 \<times> 's) \<Rightarrow> (32, 's) syscall \<Rightarrow> 's process filler" where
  "vxworks_fill rand_secure rand_bytes addr dest p =
     Option.bind (vxworks_wait rand_secure (pr_rng_init p) (pr_os p)) (\<lambda>(r, ready, s).
       let p' = p\<lparr>pr_rng_init := ready, pr_os := s\<rparr> in
       case r of
         Inl e \<Rightarrow> Some (Inl e, dest, p')
       | Inr _ \<Rightarrow> map_option (\<lambda>(r, dest', s'). (r, dest', p'\<lparr>pr_os := s'\<rparr>))
           (chunked_fill (2 ^ 31 - 1) (getentropy_chunk rand_bytes) dest s))"

subsection \<open>The random device\<close>

definition FD_UNINIT :: i32 where "FD_UNINIT = - 1"
definition FD_ONGOING_INIT :: i32 where "FD_ONGOING_INIT = - 2"

definition FILE_PATH :: bytes where "FILE_PATH = as_bytes (str ''/dev/urandom'') @ [0]"
definition RANDOM_PATH :: bytes where "RANDOM_PATH = as_bytes (str ''/dev/random'') @ [0]"

record 's file_calls =
  fc_open :: "bytes \<Rightarrow> 's \<Rightarrow> (i32 \<times> i32) \<times> 's"
  fc_poll :: "i32 \<Rightarrow> 's \<Rightarrow> (i32 \<times> i32) \<times> 's"
  fc_close :: "i32 \<Rightarrow> 's \<Rightarrow> 's"
  fc_read :: "i32 \<Rightarrow> (64, 's) syscall"

partial_function (option) open_readonly ::
  "c_lib \<Rightarrow> 's file_calls \<Rightarrow> bytes \<Rightarrow> 's \<Rightarrow> ((rand_error + i32) \<times> 's) option" where
  "open_readonly lc fc path s =
     (if 0 \<notin> set path then None
      else (case fc_open fc path s of ((fd, errno), s') \<Rightarrow>
        if 0 \<le> sint fd then Some (Inr fd, s')
        else if raw_os_error (lc_os lc) (last_os_error errno) \<noteq> Some (lc_EINTR lc) then Some (Inl (last_os_error errno), s')
        else open_readonly lc fc path s'))"

partial_function (option) poll_loop ::
  "c_lib \<Rightarrow> 's file_calls \<Rightarrow> i32 \<Rightarrow> 's \<Rightarrow> ((rand_error + unit) \<times> 's) option" where
  "poll_loop lc fc fd s =
     (case fc_poll fc fd s of ((res, errno), s') \<Rightarrow>
        if 0 \<le> sint res then Some (Inr (), s')
        else if raw_os_error (lc_os lc) (last_os_error errno) = Some (lc_EINTR lc) then poll_loop lc fc fd s'
        else Some (Inl (last_os_error errno), s'))"

definition wait_until_rng_ready :: "c_lib \<Rightarrow> 's file_calls \<Rightarrow> 's \<Rightarrow> ((rand_error + unit) \<times> 's) option" where
  "wait_until_rng_ready lc fc s =
     Option.bind (open_readonly lc fc RANDOM_PATH s) (\<lambda>(r, s1).
       case r of
         Inl e \<Rightarrow> Some (Inl e, s1)
       | Inr fd \<Rightarrow> Option.bind (poll_loop lc fc fd s1) (\<lambda>(res, s2). Some (res, fc_close fc fd s2)))"

text \<open>The targets with a futex, where the first open also waits for the generator to be seeded.\<close>

definition has_futex :: "string \<Rightarrow> bool" where
  "has_futex os \<longleftrightarrow> os = ''android'' \<or> os = ''linux''"

definition open_fd :: "c_lib \<Rightarrow> 's file_calls \<Rightarrow> 's \<Rightarrow> ((rand_error + i32) \<times> 's) option" where
  "open_fd lc fc s =
     Option.bind (if has_futex (lc_os lc) then wait_until_rng_ready lc fc s else Some (Inr (), s)) (\<lambda>(r, s1).
       case r of Inl e \<Rightarrow> Some (Inl e, s1) | Inr _ \<Rightarrow> open_readonly lc fc FILE_PATH s1)"

text \<open>
  \<open>open_or_wait\<close> and \<open>fill_inner\<close> as one thread runs them alone: it opens the file if nobody
  has, and waits forever for an opening it finds begun.  \<open>FdProtocol\<close> has the threads.
\<close>

definition fd_value :: "rand_error + i32 \<Rightarrow> i32" where
  "fd_value res = (case res of Inr fd \<Rightarrow> fd | Inl _ \<Rightarrow> FD_UNINIT)"

definition open_alone :: "c_lib \<Rightarrow> 's file_calls \<Rightarrow> i32 \<Rightarrow> 's \<Rightarrow> ((rand_error + i32) \<times> i32 \<times> 's) option" where
  "open_alone lc fc fd s =
     (if fd = FD_UNINIT then map_option (\<lambda>(res, s'). (res, fd_value res, s')) (open_fd lc fc s)
      else if fd = FD_ONGOING_INIT then None
      else Some (Inr fd, fd, s))"

definition use_file_fill :: "c_lib \<Rightarrow> 's file_calls \<Rightarrow> 's process filler" where
  "use_file_fill lc fc addr dest p =
     Option.bind (open_alone lc fc (pr_fd p) (pr_os p)) (\<lambda>(r, cell, s).
       let p' = p\<lparr>pr_fd := cell, pr_os := s\<rparr> in
       case r of
         Inl e \<Rightarrow> Some (Inl e, dest, p')
       | Inr fd \<Rightarrow> map_option (\<lambda>(r, dest', s'). (r, dest', p'\<lparr>pr_os := s'\<rparr>)) (sys_fill_exact lc (fc_read fc fd) dest s))"

subsection \<open>The choice between a system call and a substitute\<close>

text \<open>
  \<open>linux_android_with_fallback.rs\<close>: \<open>found\<close> says that the C library has the function (on musl it
  always has); a call for no bytes asks the kernel.  The crate's own test flags are off.
\<close>

definition fallback_init :: "c_lib \<Rightarrow> bool \<Rightarrow> (64, 's) syscall \<Rightarrow> 's \<Rightarrow> rand_fn \<times> 's" where
  "fallback_init lc found sys s =
     (if \<not> found then (NotAvailable, s)
      else (case sys 0 s of ((res, _, errno), s') \<Rightarrow>
        (if sint res < 0 then
           (if raw_os_error (lc_os lc) (last_os_error errno) = Some (lc_ENOSYS lc) then NotAvailable
            else if lc_os lc = ''linux'' \<and> raw_os_error (lc_os lc) (last_os_error errno) = Some (lc_EPERM lc) then NotAvailable
            else LibcGetrandom)
         else LibcGetrandom, s')))"

definition on_os :: "('s \<Rightarrow> 's fill_result option) \<Rightarrow> 's process \<Rightarrow> 's process fill_result option" where
  "on_os f p = map_option (\<lambda>(r, dest, s). (r, dest, p\<lparr>pr_os := s\<rparr>)) (f (pr_os p))"

definition fallback_fill :: "c_lib \<Rightarrow> bool \<Rightarrow> (64, 's) syscall \<Rightarrow> 's file_calls \<Rightarrow> 's process filler" where
  "fallback_fill lc found sys fc addr dest p =
     (let (fptr, p') = (case pr_getrandom p of
          Some fn \<Rightarrow> (fn, p)
        | None \<Rightarrow> (case fallback_init lc found sys (pr_os p) of (fn, s) \<Rightarrow> (fn, p\<lparr>pr_os := s, pr_getrandom := Some fn\<rparr>)))
      in if fptr = NotAvailable then use_file_fill lc fc addr dest p'
         else on_os (sys_fill_exact lc sys dest) p')"

text \<open>\<open>netbsd.rs\<close>: the replacement asks \<open>sysctl\<close>, which returns a status and the length it wrote.\<close>

type_synonym 's sysctl = "nat \<Rightarrow> 's \<Rightarrow> (i32 \<times> nat \<times> bytes \<times> i32) \<times> 's"

definition kern_arnd :: "'s sysctl \<Rightarrow> (64, 's) syscall" where
  "kern_arnd sysctl n s = (case sysctl (min n 256) s of ((ret, len, bs, errno), s') \<Rightarrow>
     ((if ret = 0 \<and> len \<le> 256 then word_of_nat len else if ret = - 1 then - 1 else 0, take (min n 256) bs, errno), s'))"

definition netbsd_init :: "bool \<Rightarrow> rand_fn" where
  "netbsd_init found = (if found then LibcGetrandom else KernArnd)"

definition netbsd_fill :: "c_lib \<Rightarrow> bool \<Rightarrow> (64, 's) syscall \<Rightarrow> 's sysctl \<Rightarrow> 's process filler" where
  "netbsd_fill lc found sys sysctl addr dest p =
     (let (fptr, p') = (case pr_getrandom p of
          Some fn \<Rightarrow> (fn, p)
        | None \<Rightarrow> (netbsd_init found, p\<lparr>pr_getrandom := Some (netbsd_init found)\<rparr>))
      in on_os (sys_fill_exact lc (if fptr = KernArnd then kern_arnd sysctl else sys) dest) p')"

section \<open>Instructions of the processor\<close>

text \<open>One attempt: whether it succeeded, and the number.\<close>

type_synonym ('w, 's) rand_step = "'s \<Rightarrow> (bool \<times> 'w word) \<times> 's"

fun retry_draw :: "nat \<Rightarrow> ('w::len, 's) rand_step \<Rightarrow> 's \<Rightarrow> 'w word option \<times> 's" where
  "retry_draw 0 step s = (None, s)"
| "retry_draw (Suc k) step s = (case step s of ((good, val), s') \<Rightarrow>
     if good then (Some val, s') else retry_draw k step s')"

definition rdrand :: "('w::len, 's) rand_step \<Rightarrow> 's \<Rightarrow> 'w word option \<times> 's" where
  "rdrand step s = retry_draw 10 step s"

definition rndr :: "(64, 's) rand_step \<Rightarrow> 's \<Rightarrow> u64 option \<times> 's" where
  "rndr step s = retry_draw 5 step s"

text \<open>
  The loop of \<open>rdrand_exact\<close> and \<open>rndr_fill\<close>, on a little-endian target: whole words of the size
  of the draw, 32 or 64 bits, then the tail.
\<close>

function word_fill :: "('s \<Rightarrow> 'w::len word option \<times> 's) \<Rightarrow> uninit \<Rightarrow> 's \<Rightarrow> bool \<times> uninit \<times> 's" where
  "word_fill draw dest s =
     (if dest = [] then (True, [], s)
      else (case draw s of
        (None, s') \<Rightarrow> (False, dest, s')
      | (Some val, s') \<Rightarrow>
          if 8 \<le> LENGTH('w) \<and> LENGTH('w) div 8 \<le> length dest then
            (case word_fill draw (drop (LENGTH('w) div 8) dest) s' of (good, rest, s'') \<Rightarrow> (good, map Some (le_bytes val) @ rest, s''))
          else (True, map Some (take (length dest) (le_bytes val)), s')))"
  by pat_completeness auto
termination
  by (relation "measure (\<lambda>(draw, dest, s). length dest)") auto

declare word_fill.simps [simp del]

subsection \<open>rdrand.rs\<close>

text \<open>The instruction draws 64 bits on \<open>x86_64\<close> and 32 bits on \<open>x86\<close>.\<close>

datatype 's rdrand_step = Step64 "(64, 's) rand_step" | Step32 "(32, 's) rand_step"

fun self_test_loop :: "('w::len, 's) rand_step \<Rightarrow> nat \<Rightarrow> 'w word \<Rightarrow> nat \<Rightarrow> 's \<Rightarrow> nat option \<times> 's" where
  "self_test_loop step 0 prev fails s = (Some fails, s)"
| "self_test_loop step (Suc k) prev fails s = (case rdrand step s of
       (None, s') \<Rightarrow> (None, s')
     | (Some val, s') \<Rightarrow>
         if val = prev then self_test_loop step k prev (fails + 1) s'
         else self_test_loop step k val fails s')"

definition self_test :: "('w::len, 's) rand_step \<Rightarrow> 's \<Rightarrow> bool \<times> 's" where
  "self_test step s = (case self_test_loop step 8 (- 1) 0 s of
       (None, s') \<Rightarrow> (False, s')
     | (Some fails, s') \<Rightarrow> (fails \<le> 2, s'))"

record cpu_leaf =
  cl_eax :: u32
  cl_ebx :: u32
  cl_ecx :: u32
  cl_edx :: u32

definition cpu_family :: "u32 \<Rightarrow> u32" where
  "cpu_family eax = (let family = drop_bit 8 eax AND 0xF in
     if family = 0xF then family + (drop_bit 20 eax AND 0xFF) else family)"

text \<open>The part of \<open>is_rdrand_good\<close> compiled when the feature is not known to be there.\<close>

definition cpu_has_rdrand :: "(u32 \<Rightarrow> cpu_leaf) \<Rightarrow> bool" where
  "cpu_has_rdrand cpuid =
     (let cpuid0 = cpuid 0; cpuid1 = cpuid 1;
          vendor_id = [le_bytes (cl_ebx cpuid0), le_bytes (cl_edx cpuid0), le_bytes (cl_ecx cpuid0)] in
      if cl_eax cpuid0 < 1 then False
      else if vendor_id = [as_bytes (str ''Auth''), as_bytes (str ''enti''), as_bytes (str ''cAMD'')] \<and>
        cpu_family (cl_eax cpuid1) < 0x17 then False
      else cl_ecx cpuid1 AND push_bit 30 1 \<noteq> 0)"

definition is_rdrand_good :: "bool \<Rightarrow> (u32 \<Rightarrow> cpu_leaf) \<Rightarrow> 's rdrand_step \<Rightarrow> 's \<Rightarrow> bool \<times> 's" where
  "is_rdrand_good feature cpuid step s =
     (if \<not> feature \<and> \<not> cpu_has_rdrand cpuid then (False, s)
      else (case step of Step64 st \<Rightarrow> self_test st s | Step32 st \<Rightarrow> self_test st s))"

definition FAILED_RDRAND :: rand_error where "FAILED_RDRAND = new_internal 10"
definition NO_RDRAND :: rand_error where "NO_RDRAND = new_internal 11"

text \<open>The check of \<open>RDRAND_GOOD\<close> that opens each entry point.\<close>

definition rdrand_ready :: "bool \<Rightarrow> (u32 \<Rightarrow> cpu_leaf) \<Rightarrow> 's rdrand_step \<Rightarrow> 's process \<Rightarrow> bool \<times> 's process" where
  "rdrand_ready feature cpuid step p =
     (case lazy_bool (is_rdrand_good feature cpuid step) (pr_rdrand_good p) (pr_os p) of (good, cell, s) \<Rightarrow>
        (good, p\<lparr>pr_rdrand_good := cell, pr_os := s\<rparr>))"

definition rdrand_u64 :: "'s rdrand_step \<Rightarrow> 's \<Rightarrow> u64 option \<times> 's" where
  "rdrand_u64 step s = (case step of
       Step64 st \<Rightarrow> rdrand st s
     | Step32 st \<Rightarrow> (case rdrand st s of
         (None, s1) \<Rightarrow> (None, s1)
       | (Some a, s1) \<Rightarrow> (case rdrand st s1 of
           (None, s2) \<Rightarrow> (None, s2)
         | (Some b, s2) \<Rightarrow> (Some (push_bit 32 (ucast a) OR ucast b), s2))))"

text \<open>On \<open>x86_64\<close> the number is truncated, whose \<open>expect\<close> is the panic \<open>None\<close>.\<close>

definition rdrand_u32 :: "'s rdrand_step \<Rightarrow> 's \<Rightarrow> (u32 option \<times> 's) option" where
  "rdrand_u32 step s = (case step of
       Step64 st \<Rightarrow> (case rdrand st s of
         (None, s1) \<Rightarrow> Some (None, s1)
       | (Some val, s1) \<Rightarrow> map_option (\<lambda>w. (Some w, s1)) (truncate_u64 val))
     | Step32 st \<Rightarrow> Some (rdrand st s))"

definition rdrand_inner_u64 ::
  "bool \<Rightarrow> (u32 \<Rightarrow> cpu_leaf) \<Rightarrow> 's rdrand_step \<Rightarrow> 's process \<Rightarrow> (rand_error + u64) \<times> 's process" where
  "rdrand_inner_u64 feature cpuid step p = (case rdrand_ready feature cpuid step p of (good, p') \<Rightarrow>
     if \<not> good then (Inl NO_RDRAND, p')
     else (case rdrand_u64 step (pr_os p') of (v, s) \<Rightarrow> (ok_or v FAILED_RDRAND, p'\<lparr>pr_os := s\<rparr>)))"

definition rdrand_inner_u32 ::
  "bool \<Rightarrow> (u32 \<Rightarrow> cpu_leaf) \<Rightarrow> 's rdrand_step \<Rightarrow> 's process \<Rightarrow> ((rand_error + u32) \<times> 's process) option" where
  "rdrand_inner_u32 feature cpuid step p = (case rdrand_ready feature cpuid step p of (good, p') \<Rightarrow>
     if \<not> good then Some (Inl NO_RDRAND, p')
     else map_option (\<lambda>(v, s). (ok_or v FAILED_RDRAND, p'\<lparr>pr_os := s\<rparr>)) (rdrand_u32 step (pr_os p')))"

definition rdrand_exact :: "'s rdrand_step \<Rightarrow> uninit \<Rightarrow> 's \<Rightarrow> bool \<times> uninit \<times> 's" where
  "rdrand_exact step dest s = (case step of
       Step64 st \<Rightarrow> word_fill (rdrand st) dest s
     | Step32 st \<Rightarrow> word_fill (rdrand st) dest s)"

definition rdrand_fill :: "bool \<Rightarrow> (u32 \<Rightarrow> cpu_leaf) \<Rightarrow> 's rdrand_step \<Rightarrow> 's process filler" where
  "rdrand_fill feature cpuid step addr dest p = (case rdrand_ready feature cpuid step p of (good, p') \<Rightarrow>
     if \<not> good then Some (Inl NO_RDRAND, dest, p')
     else (case rdrand_exact step dest (pr_os p') of (full, dest', s) \<Rightarrow>
       Some (if full then Inr () else Inl FAILED_RDRAND, dest', p'\<lparr>pr_os := s\<rparr>)))"

subsection \<open>rndr.rs\<close>

definition RNDR_FAILURE :: rand_error where "RNDR_FAILURE = new_internal 10"
definition RNDR_NOT_AVAILABLE :: rand_error where "RNDR_NOT_AVAILABLE = new_internal 11"

text \<open>The detection on Linux: the field of the register \<open>ID_AA64ISAR0_EL1\<close>.\<close>

definition mrs_check :: "u64 \<Rightarrow> bool" where
  "mrs_check id_aa64isar0 \<longleftrightarrow> 1 \<le> drop_bit 60 id_aa64isar0 AND 0xf"

definition is_rndr_available :: "bool \<Rightarrow> bool \<Rightarrow> 's process \<Rightarrow> bool \<times> 's process" where
  "is_rndr_available feature detected p =
     (if feature then (True, p)
      else (case lazy_bool (\<lambda>s. (detected, s)) (pr_rndr_good p) (pr_os p) of (good, cell, s) \<Rightarrow>
        (good, p\<lparr>pr_rndr_good := cell, pr_os := s\<rparr>)))"

definition rndr_inner_u64 ::
  "bool \<Rightarrow> bool \<Rightarrow> (64, 's) rand_step \<Rightarrow> 's process \<Rightarrow> (rand_error + u64) \<times> 's process" where
  "rndr_inner_u64 feature detected step p = (case is_rndr_available feature detected p of (good, p') \<Rightarrow>
     if \<not> good then (Inl RNDR_NOT_AVAILABLE, p')
     else (case rndr step (pr_os p') of (v, s) \<Rightarrow> (ok_or v RNDR_FAILURE, p'\<lparr>pr_os := s\<rparr>)))"

definition rndr_inner_u32 ::
  "bool \<Rightarrow> bool \<Rightarrow> (64, 's) rand_step \<Rightarrow> 's process \<Rightarrow> ((rand_error + u32) \<times> 's process) option" where
  "rndr_inner_u32 feature detected step p = (case rndr_inner_u64 feature detected step p of
       (Inl e, p') \<Rightarrow> Some (Inl e, p')
     | (Inr v, p') \<Rightarrow> map_option (\<lambda>w. (Inr w, p')) (truncate_u64 v))"

definition rndr_words :: "(64, 's) rand_step \<Rightarrow> uninit \<Rightarrow> 's \<Rightarrow> bool \<times> uninit \<times> 's" where
  "rndr_words step = word_fill (rndr step)"

definition rndr_fill :: "bool \<Rightarrow> bool \<Rightarrow> (64, 's) rand_step \<Rightarrow> 's process filler" where
  "rndr_fill feature detected step addr dest p = (case is_rndr_available feature detected p of (good, p') \<Rightarrow>
     if \<not> good then Some (Inl RNDR_NOT_AVAILABLE, dest, p')
     else (case rndr_words step dest (pr_os p') of (full, dest', s) \<Rightarrow>
       Some (if full then Inr () else Inl RNDR_FAILURE, dest', p'\<lparr>pr_os := s\<rparr>)))"

section \<open>The calls of a target\<close>

record 's os_calls =
  oc_lib :: c_lib
  oc_custom :: "nat \<Rightarrow> 's \<Rightarrow> ((rand_error + unit) \<times> bytes) \<times> 's"
  oc_getrandom :: "(64, 's) syscall"
  oc_raw :: "(64, 's) syscall"
  oc_found :: bool
  oc_files :: "'s file_calls"
  oc_sysctl :: "'s sysctl"
  oc_getentropy :: "(32, 's) syscall"
  oc_solaris :: "(64, 's) syscall"
  oc_hermit :: "(64, 's) syscall"
  oc_cc :: "(32, 's) syscall"
  oc_plain :: "(32, 's) syscall"
  oc_solid :: "(32, 's) syscall"
  oc_random_get :: "(32, 's) syscall"
  oc_rtl :: "(8, 's) syscall"
  oc_web :: "(1, 's) syscall"
  oc_atomics :: bool
  oc_rand_secure :: "'s \<Rightarrow> i32 \<times> 's"
  oc_rand_bytes :: "(32, 's) syscall"
  oc_feature :: bool
  oc_cpuid :: "u32 \<Rightarrow> cpu_leaf"
  oc_detected :: bool
  oc_rdrand :: "'s rdrand_step"
  oc_rndr :: "(64, 's) rand_step"
  oc_draws :: draws_of

end
