(* ===== verification/RandomTheorems.thy ===== *)
theory RandomTheorems
  imports Randomness
begin

text \<open>
  The properties of the patched random number crate: the preview 3 backend has no undefined
  behaviour, initializes every byte of a buffer with fresh draws and agrees with the default
  integer functions; it is selected on the preview 3 target alone; the error codes of the
  three sources never meet.
\<close>

section \<open>Bytes of integers\<close>

lemma length_le_bytes [simp]: "length (le_bytes (w :: 'a::len word)) = LENGTH('a) div 8"
  by (simp add: le_bytes_def)

lemma bit_of_le_bytes:
  "8 * length bs \<le> LENGTH('a) \<Longrightarrow>
    bit (of_le_bytes bs :: 'a::len word) i \<longleftrightarrow> i < 8 * length bs \<and> bit (bs ! (i div 8)) (i mod 8)"
proof (induction bs arbitrary: i)
  case (Cons b bs)
  have bit: "bit (of_le_bytes (b # bs) :: 'a word) i \<longleftrightarrow>
      i < LENGTH('a) \<and> (bit b i \<or> 8 \<le> i \<and> bit (of_le_bytes bs :: 'a word) (i - 8))"
    by (auto simp: bit_simps dest: bit_imp_le_length)
  show ?case
  proof (cases "i < 8")
    case True
    then show ?thesis using Cons.prems unfolding bit by simp
  next
    case False
    then obtain j where j: "i = j + 8" by (metis add.commute le_add_diff_inverse linorder_not_less)
    have "\<not> bit b i" using False bit_imp_le_length [of b i] by auto
    moreover have "(j + 8) div 8 = Suc (j div 8)" by simp
    ultimately show ?thesis
      using Cons.IH [of j] Cons.prems unfolding bit unfolding j by auto
  qed
qed simp

lemma of_le_bytes_take:
  assumes "8 * k = LENGTH('b)" "LENGTH('b) \<le> LENGTH('a)"
  shows "(of_le_bytes (take k (le_bytes (w :: 'a::len word))) :: 'b::len word) = ucast w"
proof (rule bit_word_eqI)
  fix i assume i: "i < LENGTH('b)"
  have k: "k \<le> LENGTH('a) div 8" using assms by simp
  then have "bit (of_le_bytes (take k (le_bytes w)) :: 'b word) i \<longleftrightarrow>
      i < 8 * k \<and> bit (take k (le_bytes w) ! (i div 8)) (i mod 8)"
    using assms(1) by (subst bit_of_le_bytes) (simp_all add: min_def)
  also have "\<dots> \<longleftrightarrow> bit w (8 * (i div 8) + i mod 8)"
    using i assms k by (auto simp: le_bytes_def bit_simps)
  finally show "bit (of_le_bytes (take k (le_bytes w)) :: 'b word) i \<longleftrightarrow> bit (ucast w :: 'b word) i"
    using i by (simp add: bit_simps)
qed

section \<open>Filling\<close>

text \<open>Piece \<open>i\<close> is the first bytes of draw \<open>n + i\<close>.\<close>

fun pieces :: "draws_of \<Rightarrow> nat \<Rightarrow> nat list \<Rightarrow> bytes" where
  "pieces rnd n [] = []"
| "pieces rnd n (l # ls) = take l (le_bytes (rnd n)) @ pieces rnd (n + 1) ls"

lemma pieces_append: "pieces rnd n (ls @ ms) = pieces rnd n ls @ pieces rnd (n + length ls) ms"
  by (induction ls arbitrary: n) simp_all

definition piece :: "nat \<Rightarrow> nat list" where
  "piece l = (if l = 0 then [] else [l])"

lemma fill_piece_pieces:
  "l \<le> 8 \<Longrightarrow> fill_piece rnd l n = Some (map Some (pieces rnd n (piece l)), n + length (piece l))"
  by (simp add: fill_piece_def piece_def get_random_u64_def copy_from_word_def)

lemma fill_chunks_pieces:
  "addr mod 8 = 0 \<Longrightarrow>
    fill_chunks rnd addr k n = Some (map Some (pieces rnd n (replicate k 8)), n + k)"
proof (induction k arbitrary: addr n)
  case (Suc k)
  then have "(addr + 8) mod 8 = 0" by presburger
  with Suc show ?case
    by (simp add: get_random_u64_def write_word_def)
qed simp

lemma align_to_split:
  assumes "align_to addr len = (p, c, s)"
  shows "p + 8 * c + s = len" "p < 8" "s < 8" "c \<noteq> 0 \<Longrightarrow> (addr + p) mod 8 = 0"
proof -
  define off where "off = (8 - addr mod 8) mod 8"
  have "(addr + off) mod 8 = (addr mod 8 + (8 - addr mod 8)) mod 8"
    by (simp only: off_def mod_add_right_eq mod_add_left_eq)
  then have o: "(addr + off) mod 8 = 0" "off < 8" by (simp_all add: off_def)
  have cases: "len < off \<and> p = len \<and> c = 0 \<and> s = 0 \<or>
      off \<le> len \<and> p = off \<and> c = (len - off) div 8 \<and> s = (len - off) mod 8"
    using assms unfolding align_to_def off_def [symmetric] Let_def by (auto split: if_splits)
  show "p + 8 * c + s = len"
    using cases mult_div_mod_eq [of 8 "len - off"] by auto
  show "p < 8" "s < 8" "c \<noteq> 0 \<Longrightarrow> (addr + p) mod 8 = 0"
    using cases o by auto
qed

text \<open>The pieces of a buffer at an address.\<close>

definition pieces_at :: "nat \<Rightarrow> nat \<Rightarrow> nat list" where
  "pieces_at addr len = (let (p, c, s) = align_to addr len in piece p @ replicate c 8 @ piece s)"

lemma p3_fill_inner_pieces:
  "p3_fill_inner rnd addr dest n =
    Some (Inr (), map Some (pieces rnd n (pieces_at addr (length dest))), n + length (pieces_at addr (length dest)))"
proof -
  obtain p c s where a: "align_to addr (length dest) = (p, c, s)" by (rule prod_cases3)
  note split = align_to_split [OF a]
  have "fill_chunks rnd (addr + p) c m = Some (map Some (pieces rnd m (replicate c 8)), m + c)" for m
    using split(4) by (cases "c = 0") (simp_all add: fill_chunks_pieces)
  then show ?thesis
    using split by (simp add: p3_fill_inner_def pieces_at_def a fill_piece_pieces pieces_append add.assoc)
qed

lemma length_pieces: "list_all (\<lambda>l. l \<le> 8) ls \<Longrightarrow> length (pieces rnd n ls) = sum_list ls"
  by (induction ls arbitrary: n) simp_all

lemma pieces_at_ok:
  "sum_list (pieces_at addr len) = len" "list_all (\<lambda>l. 1 \<le> l \<and> l \<le> 8) (pieces_at addr len)"
  "length (pieces_at addr len) \<le> len div 8 + 2"
proof -
  obtain p c s where a: "align_to addr len = (p, c, s)" by (rule prod_cases3)
  note split = align_to_split [OF a]
  show "sum_list (pieces_at addr len) = len"
    using split(1) by (simp add: pieces_at_def a piece_def sum_list_replicate)
  show "list_all (\<lambda>l. 1 \<le> l \<and> l \<le> 8) (pieces_at addr len)"
    using split(2,3) by (auto simp: pieces_at_def a piece_def list_all_iff)
  have "c \<le> len div 8" using split(1) by (simp add: less_eq_div_iff_mult_less_eq)
  then show "length (pieces_at addr len) \<le> len div 8 + 2"
    by (simp add: pieces_at_def a piece_def)
qed

lemma assume_init_map_Some [simp]: "slice_assume_init (map Some bs) = Some bs"
  by (auto simp: slice_assume_init_def comp_def)

lemma fill_uninit_pieces:
  "fill_uninit (p3_fill_inner rnd) addr dest n =
    (let ls = pieces_at addr (length dest); bs = pieces rnd n ls in Some (Inr bs, map Some bs, n + length ls))"
proof (cases "dest = []")
  case True
  then show ?thesis
    by (simp add: fill_uninit_def pieces_at_def align_to_def piece_def slice_assume_init_def Let_def)
next
  case False
  then show ?thesis
    by (simp add: fill_uninit_def p3_fill_inner_pieces Let_def)
qed

text \<open>C23: Filling a buffer on the preview 3 target.  Whatever the address, the length and the old contents of
  the buffer, the call is free of undefined behaviour and succeeds; the buffer keeps its length and is cut into pieces
  of one to eight bytes, each the first bytes of a draw of its own, in the order of the draws; an empty
  buffer draws nothing and no draw is left unused.\<close>

theorem fill_fresh_draws:
  "\<exists>ls. rand_fill (p3_fill_inner rnd) addr buf n = Some (Inr (), pieces rnd n ls, n + length ls) \<and>
    length (pieces rnd n ls) = length buf \<and> sum_list ls = length buf \<and> list_all (\<lambda>l. 1 \<le> l \<and> l \<le> 8) ls \<and>
    length ls \<le> length buf div 8 + 2"
proof -
  let ?ls = "pieces_at addr (length buf)"
  have "list_all (\<lambda>l. l \<le> 8) ?ls"
    using pieces_at_ok(2) [of addr "length buf"] by (auto simp: list_all_iff)
  then have "length (pieces rnd n ?ls) = length buf"
    by (simp add: length_pieces pieces_at_ok)
  then show ?thesis
    using pieces_at_ok [of addr "length buf"]
    by (intro exI [of _ ?ls]) (simp add: rand_fill_def fill_uninit_pieces slice_as_uninit_def Let_def)
qed

lemma truncate_u64_low: "truncate_u64 v = Some (ucast v)"
proof -
  have mask: "unat (v AND 4294967295) < 2 ^ 32"
  proof -
    have "v AND 4294967295 = take_bit 32 v" by (simp add: take_bit_eq_mask mask_eq_exp_minus_1)
    then have "unat (v AND 4294967295) = take_bit 32 (unat v)" by (simp add: unsigned_take_bit_eq)
    then show ?thesis using take_bit_nat_less_exp [of 32 "unat v"] by simp
  qed
  show ?thesis
  proof -
    have "ucast (- 1 :: u32) = (4294967295 :: u64)"
      by (simp add: unsigned_minus_1_eq_mask mask_eq_exp_minus_1)
    moreover have "ucast (v AND 4294967295) = (ucast v :: u32)"
    proof (rule bit_word_eqI)
      have m: "(4294967295 :: u64) = mask 32" by (simp add: mask_eq_exp_minus_1)
      fix i assume "i < LENGTH(32)"
      then show "bit (ucast (v AND 4294967295) :: u32) i \<longleftrightarrow> bit (ucast v :: u32) i"
        unfolding m by (simp add: bit_simps)
    qed
    ultimately show ?thesis using mask by (simp add: truncate_u64_def u32_try_from_def)
  qed
qed

text \<open>The integer functions.  At an aligned address the crate's default functions, which fill the bytes of an
  uninitialized integer, return on the preview 3 backend exactly what its own functions return: the next draw, cut to its lower half
  for 32 bits without ever reaching the panic of the conversion; either way one draw is used.\<close>

theorem default_inner_agrees:
  assumes "addr32 mod 4 = 0" "addr64 mod 8 = 0"
  shows "default_inner (p3_fill_inner rnd) addr32 n = p3_inner_u32 rnd n \<and>
    default_inner (p3_fill_inner rnd) addr64 n = p3_inner_u64 rnd n \<and>
    p3_inner_u32 rnd n = Some (Inr (ucast (rnd n)), n + 1)"
proof -
  have "addr32 mod 8 = 0 \<or> addr32 mod 8 = 4" using assms(1) by presburger
  then have "align_to addr32 4 = (0, 0, 4) \<or> align_to addr32 4 = (4, 0, 0)"
    by (auto simp: align_to_def Let_def)
  then have p32: "pieces_at addr32 4 = [4]"
    by (auto simp: pieces_at_def piece_def)
  have p64: "pieces_at addr64 8 = [8]"
    using assms(2) by (simp add: pieces_at_def piece_def align_to_def)
  note trunc = truncate_u64_low [of "rnd n"]
  have "default_inner (p3_fill_inner rnd) addr32 n = p3_inner_u32 rnd n"
    using of_le_bytes_take [of 4 "rnd n", where 'b = 32]
    by (simp add: default_inner_def fill_uninit_pieces p32 Let_def p3_inner_u32_def get_random_u64_def trunc)
  moreover have "default_inner (p3_fill_inner rnd) addr64 n = p3_inner_u64 rnd n"
    using of_le_bytes_take [of 8 "rnd n", where 'b = 64]
    by (simp add: default_inner_def fill_uninit_pieces p64 Let_def p3_inner_u64_def get_random_u64_def)
  ultimately show ?thesis
    by (simp add: p3_inner_u32_def get_random_u64_def trunc)
qed

theorem default_inner_agrees_witness:
  "default_inner (p3_fill_inner (\<lambda>i. word_of_nat i + 4294967303)) 12 0 = (p3_inner_u32 (\<lambda>i. word_of_nat i + 4294967303) 0 :: ((rand_error + u32) \<times> nat) option) \<and>
    p3_inner_u32 (\<lambda>i. word_of_nat i + 4294967303) 0 = Some (Inr 7, 1)"
  using default_inner_agrees [of 12 16 "\<lambda>i. word_of_nat i + 4294967303" 0] by simp

section \<open>The choice of the backend\<close>

text \<open>The patch.  The preview 3 backend is selected exactly on WebAssembly with WASI preview 3 when no configuration flag
  the crate knows names another backend; the two older previews keep their own, any other version of WASI is refused
  at compile time, and the flag decides alone wherever it is known, whatever the target.\<close>

definition known_flags :: "string set" where
  "known_flags = {''custom'', ''linux_getrandom'', ''linux_raw'', ''rdrand'', ''rndr'', ''efi_rng'', ''windows_legacy'',
    ''wasm_js'', ''unsupported''}"

definition overridden :: "cfg \<Rightarrow> bool" where
  "overridden c \<longleftrightarrow> (case cfg_backend c of None \<Rightarrow> False | Some f \<Rightarrow> f \<in> known_flags)"

theorem p3_only_on_p3:
  "(backend_for c = Inr BkWasiP3 \<longleftrightarrow>
      \<not> overridden c \<and> cfg_arch c = ''wasm32'' \<and> cfg_os c = ''wasi'' \<and> cfg_env c = ''p3'') \<and>
   (backend_for c = Inl UnknownWasi \<longleftrightarrow>
      \<not> overridden c \<and> cfg_arch c = ''wasm32'' \<and> cfg_os c = ''wasi'' \<and> cfg_env c \<notin> {''p1'', ''p2'', ''p3''}) \<and>
   backend_for \<lparr>cfg_backend = cfg_backend c, cfg_wasm_js = cfg_wasm_js c, cfg_windows = w, cfg_arch = a, cfg_os = os,
      cfg_env = env, cfg_vendor = v\<rparr> =
     (if overridden c then backend_for c else target_backend \<lparr>cfg_backend = cfg_backend c, cfg_wasm_js = cfg_wasm_js c,
        cfg_windows = w, cfg_arch = a, cfg_os = os, cfg_env = env, cfg_vendor = v\<rparr>)"
proof -
  have tgt: "(target_backend c = Inr BkWasiP3 \<longleftrightarrow>
      cfg_arch c = ''wasm32'' \<and> cfg_os c = ''wasi'' \<and> cfg_env c = ''p3'') \<and>
    (target_backend c = Inl UnknownWasi \<longleftrightarrow>
      cfg_arch c = ''wasm32'' \<and> cfg_os c = ''wasi'' \<and> cfg_env c \<notin> {''p1'', ''p2'', ''p3''})"
    by (simp add: target_backend_def wasi_backend_def may_lack_getrandom_def)
  show ?thesis
  proof (cases "overridden c")
    case True
    then show ?thesis
      by (auto simp: overridden_def known_flags_def backend_for_def split: option.splits)
  next
    case False
    then have "cfg_backend c \<noteq> Some f" if "f \<in> known_flags" for f
      using that by (auto simp: overridden_def)
    then have "backend_for d = target_backend d" if "cfg_backend d = cfg_backend c" for d
      using that by (simp add: backend_for_def known_flags_def)
    then show ?thesis using False tgt by simp
  qed
qed

section \<open>The error codes\<close>

lemma sint_code:
  "sint (INTERNAL_START + ucast (n :: u16)) = 65536 + uint n"
  "sint (CUSTOM_START + ucast (m :: u16)) = 131072 + uint m"
proof -
  have b: "uint n < 65536" "uint m < 65536"
    using uint_lt2p [of n] uint_lt2p [of m] by simp_all
  have "INTERNAL_START + ucast n = word_of_int (65536 + uint n)"
      "CUSTOM_START + ucast m = word_of_int (131072 + uint m)"
    by (simp_all add: INTERNAL_START_def CUSTOM_START_def)
  then show "sint (INTERNAL_START + ucast n) = 65536 + uint n" "sint (CUSTOM_START + ucast m) = 131072 + uint m"
    using b by (simp_all only: sint_sbintrunc') (simp_all add: signed_take_bit_int_eq_self)
qed

lemma sint_new:
  "sint (err_code (new_internal n)) = 65536 + uint n" "sint (err_code (new_custom n)) = 131072 + uint n"
  by (simp_all add: new_internal_def new_custom_def sint_code)

lemma new_internal_eq [simp]: "new_internal n = new_internal n' \<longleftrightarrow> n = n'"
  by (metis sint_new(1) add_left_cancel word_uint_eq_iff)

lemma new_custom_eq [simp]: "new_custom n = new_custom n' \<longleftrightarrow> n = n'"
  by (metis sint_new(2) add_left_cancel word_uint_eq_iff)

lemma new_internal_custom [simp]: "new_internal n \<noteq> new_custom m" "new_custom m \<noteq> new_internal n"
proof -
  show "new_internal n \<noteq> new_custom m"
  proof
    assume "new_internal n = new_custom m"
    then have "65536 + uint n = 131072 + uint m" by (metis sint_new)
    moreover have "uint n < 65536" using uint_lt2p [of n] by simp
    moreover have "0 \<le> uint m" by (rule uint_ge_0)
    ultimately show False by linarith
  qed
  then show "new_custom m \<noteq> new_internal n" by metis
qed

lemma internal_desc_new: "internal_desc (new_internal n) \<noteq> None \<longleftrightarrow> n \<in> {0, 1, 2}" "internal_desc (new_custom m) = None"
  by (simp_all add: internal_desc_def UNSUPPORTED_def ERRNO_NOT_POSITIVE_def UNEXPECTED_def)

text \<open>The error codes.  On every target but one an error of the operating system reads back as its code, except for the
  least number, which reads as no error of the system; an invented code becomes the unexpected error; internal and custom errors
  are injective in their numbers, never equal to each other and never read as errors of the system; exactly the first three internal ones have a text.\<close>

theorem rand_errors_apart:
  "raw_os_error ''wasi'' (from_neg_error_code c) = (if sint c < 0 \<and> sint c \<noteq> - (2 ^ 31) then Some (- c) else None) \<and>
   (0 \<le> sint c \<longleftrightarrow> from_neg_error_code c = UNEXPECTED) \<and>
   raw_os_error os (new_internal n) = None \<and> raw_os_error os (new_custom m) = None \<and>
   new_internal n \<noteq> new_custom m \<and> (new_internal n = new_internal n' \<longleftrightarrow> n = n') \<and>
   (new_custom m = new_custom m' \<longleftrightarrow> m = m') \<and>
   (internal_desc (new_internal n) \<noteq> None \<longleftrightarrow> n \<in> {0, 1, 2}) \<and> internal_desc (new_custom m) = None"
proof -
  have none: "raw_os_error t (new_internal k) = None" "raw_os_error t (new_custom k) = None" for t k
    using uint_ge_0 [of k] by (simp_all add: raw_os_error_def sint_new)
  have "0 \<le> sint c" if "\<lparr>err_code = c\<rparr> = new_internal 2"
    using sint_new(1) [of 2] that by (metis rand_error.select_convs(1) add_nonneg_nonneg uint_ge_0 zero_le_numeral)
  then have "0 \<le> sint c \<longleftrightarrow> from_neg_error_code c = UNEXPECTED"
    by (auto simp: from_neg_error_code_def UNEXPECTED_def)
  moreover have "raw_os_error ''wasi'' (from_neg_error_code c) = (if sint c < 0 \<and> sint c \<noteq> - (2 ^ 31) then Some (- c) else None)"
    using none(1) [of "''wasi''" 2]
    by (simp add: from_neg_error_code_def UNEXPECTED_def raw_os_error_def checked_neg_def)
  ultimately show ?thesis
    using none internal_desc_new by simp
qed

end
