(* ===== verification/OsRandomTheorems.thy ===== *)
theory OsRandomTheorems
  imports OsRandom RandomTheorems
begin

text \<open>
  The properties of the backends.  The contract of a backend is the locale \<open>backend\<close>: a buffer
  keeps its length, and success means that every byte is initialized.  Under it the entry points
  of \<open>lib.rs\<close> and \<open>util.rs\<close> have no undefined behaviour of their own.  Every backend but the one of \<open>Uefi\<close> is shown here to satisfy the contract
  under what the called function documents; the loops return what the system delivered, in order.
\<close>

section \<open>The contract of a backend\<close>

definition filled :: "uninit \<Rightarrow> 'e + unit \<Rightarrow> uninit \<Rightarrow> bool" where
  "filled dest r dest' \<longleftrightarrow> length dest' = length dest \<and> (r = Inr () \<or> None \<notin> set dest \<longrightarrow> None \<notin> set dest')"

locale backend =
  fixes inner :: "('e, 's) filler_of"
  assumes fills: "dest \<noteq> [] \<Longrightarrow> inner addr dest s = Some (r, dest', s') \<Longrightarrow> filled dest r dest'"
begin

lemma fill_uninit_eq:
  "dest \<noteq> [] \<Longrightarrow> fill_uninit inner addr dest s = (case inner addr dest s of
      None \<Rightarrow> None
    | Some (Inl e, dest', s') \<Rightarrow> Some (Inl e, dest', s')
    | Some (Inr _, dest', s') \<Rightarrow> Some (Inr (map the dest'), dest', s'))"
  using fills [of dest addr s]
  by (auto simp: fill_uninit_def slice_assume_init_def filled_def split: option.splits sum.splits)

lemma fill_uninit_Nil: "fill_uninit inner addr [] s = Some (Inr [], [], s)"
  by (simp add: fill_uninit_def slice_assume_init_def)

lemma fill_uninit_None: "fill_uninit inner addr dest s = None \<Longrightarrow> dest \<noteq> [] \<and> inner addr dest s = None"
  by (cases "dest = []") (auto simp: fill_uninit_Nil fill_uninit_eq split: option.splits sum.splits)

lemma fill_uninit_Inr:
  assumes "fill_uninit inner addr dest s = Some (Inr bs, dest', s')"
  shows "dest' = map Some bs \<and> length bs = length dest"
proof (cases "dest = []")
  case True
  then show ?thesis using assms by (simp add: fill_uninit_Nil)
next
  case False
  then have i: "inner addr dest s = Some (Inr (), dest', s')" "bs = map the dest'"
    using assms by (auto simp: fill_uninit_eq split: option.splits sum.splits)
  then have "None \<notin> set dest'" "length dest' = length dest" using fills [OF False i(1)] by (auto simp: filled_def)
  moreover from this(1) have "map Some (map the dest') = dest'" by (induction dest') auto
  ultimately show ?thesis using i by auto
qed

lemma fill_uninit_initialized:
  assumes "fill_uninit inner addr dest s = Some (r, dest', s')" "None \<notin> set dest"
  shows "length dest' = length dest \<and> None \<notin> set dest'"
proof (cases r)
  case (Inr bs)
  then show ?thesis using fill_uninit_Inr [of addr dest s bs dest' s'] assms(1) by auto
next
  case (Inl e)
  then show ?thesis
    using assms fills [of dest addr s "Inl e" dest' s'] by (cases "dest = []") (auto simp: fill_uninit_Nil fill_uninit_eq filled_def split: option.splits sum.splits)
qed

lemma rand_fill_None: "rand_fill inner addr buf s = None \<Longrightarrow> buf \<noteq> [] \<and> inner addr (map Some buf) s = None"
  using fill_uninit_None [of addr "map Some buf" s] fill_uninit_initialized [of addr "map Some buf" s]
  by (fastforce simp: rand_fill_def slice_as_uninit_def bind_eq_None_conv slice_assume_init_def split: if_splits)

lemma rand_fill_length: "rand_fill inner addr buf s = Some (r, buf', s') \<Longrightarrow> length buf' = length buf"
  using fill_uninit_initialized [of addr "map Some buf" s]
  by (fastforce simp: rand_fill_def slice_as_uninit_def bind_eq_Some_conv slice_assume_init_def split: if_splits)

end

section \<open>What calls leave in a buffer\<close>

lemma None_overwrite: "None \<in> set (overwrite bs buf) \<longleftrightarrow> None \<in> set (drop (length bs) buf)"
  by (auto simp: overwrite_def)

lemma filled_overwrite: "(r = Inr () \<Longrightarrow> length buf \<le> length bs) \<Longrightarrow> filled buf r (overwrite bs buf)"
  by (auto simp: filled_def None_overwrite dest: in_set_dropD)

text \<open>A loop step: the first \<open>k\<close> bytes are written, the rest of the buffer is filled by the rest of the loop.\<close>

lemma filled_step:
  assumes "filled (drop k (overwrite bs buf)) r rest" "k \<le> length bs" "k \<le> length buf"
  shows "filled buf r (take k (overwrite bs buf) @ rest)"
proof -
  have "None \<notin> set (take k (overwrite bs buf))"
    using assms(2,3) by (auto simp: overwrite_def dest: in_set_takeD)
  moreover have "None \<notin> set buf \<Longrightarrow> None \<notin> set (drop k (overwrite bs buf))"
    using None_overwrite [of bs buf] by (auto dest: in_set_dropD)
  ultimately show ?thesis using assms by (auto simp: filled_def)
qed

lemma filled_again: "filled (overwrite bs buf) r dest \<Longrightarrow> filled buf r dest"
  using None_overwrite [of bs buf] by (auto simp: filled_def dest: in_set_dropD)

definition counted_call :: "(64, 's) syscall \<Rightarrow> bool" where
  "counted_call sys \<longleftrightarrow> (\<forall>n s ret bs e s'. sys n s = ((ret, bs, e), s') \<longrightarrow>
     0 < sint ret \<longrightarrow> nat (sint ret) \<le> n \<longrightarrow> nat (sint ret) \<le> length bs)"

lemma counted_callD:
  "counted_call sys \<Longrightarrow> sys n s = ((ret, bs, e), s') \<Longrightarrow> 0 < sint ret \<Longrightarrow> nat (sint ret) \<le> n \<Longrightarrow> nat (sint ret) \<le> length bs"
  unfolding counted_call_def by blast

text \<open>Partial correctness of a loop is induction over a run that returned.\<close>

lemmas sys_fill_exact_run = sys_fill_exact.raw_induct [rotated, consumes 1, case_names step]

lemma sys_fill_exact_filled:
  assumes "sys_fill_exact lc sys buf s = Some y" "counted_call sys"
  shows "filled buf (fst y) (fst (snd y))"
  using assms
proof (induction rule: sys_fill_exact_run)
  case (step rec lc sys buf s y)
  obtain res bs errno s' where c: "sys (length buf) s = ((res, bs, errno), s')" by (metis surj_pair)
  have wrote: "nat (sint res) \<le> length bs" if "0 < sint res" "nat (sint res) \<le> length buf"
    using counted_callD [OF step.prems c that] .
  note body = step(2) [unfolded c prod.case]
  show ?case
  proof (cases "buf = []")
    case True
    then show ?thesis using body by (auto simp: filled_def)
  next
    case buf: False
    show ?thesis
    proof (cases "0 < sint res")
      case pos: True
      show ?thesis
      proof (cases "nat (sint res) \<le> length buf")
        case True
        then obtain r rest t where "rec lc sys (drop (nat (sint res)) (overwrite bs buf)) s' = Some (r, rest, t)"
            "y = (r, take (nat (sint res)) (overwrite bs buf) @ rest, t)"
          using body buf pos by (auto simp: bind_eq_Some_conv)
        then show ?thesis using step(1) [OF _ step.prems] wrote [OF pos True] True by (auto intro: filled_step)
      next
        case False
        then show ?thesis using body buf pos by (auto intro: filled_overwrite)
      qed
    next
      case neg: False
      show ?thesis
      proof (cases "res = - 1 \<and> raw_os_error (lc_os lc) (last_os_error errno) = Some (lc_EINTR lc)")
        case True
        then have "rec lc sys (overwrite bs buf) s' = Some y" using body buf neg by simp
        then show ?thesis using step(1) [OF _ step.prems] filled_again by blast
      next
        case False
        then show ?thesis using body buf neg by (auto intro: filled_overwrite split: if_splits)
      qed
    qed
  qed
qed

lemmas linux_raw_run = linux_raw_fill.raw_induct [rotated, consumes 1, case_names step]

lemma linux_raw_filled:
  assumes "linux_raw_fill sys dest s = Some y" "counted_call sys"
  shows "filled dest (fst y) (fst (snd y))"
  using assms
proof (induction rule: linux_raw_run)
  case (step rec sys dest s y)
  obtain ret bs errno s' where c: "sys (length dest) s = ((ret, bs, errno), s')" by (metis surj_pair)
  note body = step(2) [unfolded c prod.case]
  consider (none) "sint ret = 0" | (some) "0 < sint ret" "nat (sint ret) < length dest"
    | (all) "0 < sint ret" "nat (sint ret) = length dest" | (beyond) "0 < sint ret" "length dest < nat (sint ret)"
    | (again) "sint ret = - 4" | (failed) "sint ret < 0" "sint ret \<noteq> - 4" by linarith
  then show ?case
  proof cases
    case some
    then obtain r rest t where "rec sys (drop (nat (sint ret)) (overwrite bs dest)) s' = Some (r, rest, t)"
        "y = (r, take (nat (sint ret)) (overwrite bs dest) @ rest, t)"
      using body by (auto simp: bind_eq_Some_conv)
    then show ?thesis
      using step(1) [OF _ step.prems] counted_callD [OF step.prems c] some by (auto intro: filled_step)
  next
    case all
    then show ?thesis using body counted_callD [OF step.prems c] by (auto intro!: filled_overwrite)
  next
    case again
    then have "rec sys (overwrite bs dest) s' = Some y" using body by simp
    then show ?thesis using step(1) [OF _ step.prems] filled_again by blast
  qed (use body in \<open>auto intro: filled_overwrite\<close>)
qed

lemma hermit_filled:
  "counted_call sys \<Longrightarrow> filled dest (fst (hermit_fill sys dest s)) (fst (snd (hermit_fill sys dest s)))"
proof (induction sys dest s rule: hermit_fill.induct)
  case (1 sys dest s)
  obtain ret bs errno s' where c: "sys (length dest) s = ((ret, bs, errno), s')" by (metis surj_pair)
  obtain r rest t where h: "hermit_fill sys (drop (nat (sint ret)) (overwrite bs dest)) s' = (r, rest, t)" by (metis surj_pair)
  show ?case
  proof (cases "dest \<noteq> [] \<and> 0 < sint ret \<and> nat (sint ret) \<le> length dest")
    case True
    then have "filled (drop (nat (sint ret)) (overwrite bs dest)) r rest"
      using 1(1) [OF _ c [symmetric] refl refl _ _ 1(2)] h by simp
    then show ?thesis
      using True counted_callD [OF 1(2) c] by (auto simp: hermit_fill.simps [of sys dest s] c h intro: filled_step)
  next
    case False
    then show ?thesis
      by (auto simp: hermit_fill.simps [of sys dest s] c filled_def [of "[]"] intro: filled_overwrite)
  qed
qed

section \<open>Chunks and words\<close>

text \<open>A chunk call that reports success has written the whole chunk.\<close>

definition chunk_law :: "'s chunk_call \<Rightarrow> bool" where
  "chunk_law call \<longleftrightarrow> (\<forall>n s bs s'. call n s = ((None, bs), s') \<longrightarrow> n \<le> length bs)"

lemma filled_split: "filled (take n dest) (Inr ()) d \<Longrightarrow> filled (drop n dest) r rest \<Longrightarrow> filled dest r (d @ rest)"
  by (auto simp: filled_def dest: in_set_dropD)

lemma chunked_filled:
  "chunked_fill n call dest s = Some (r, dest', s') \<Longrightarrow> chunk_law call \<Longrightarrow> filled dest r dest'"
proof (induction n call dest s arbitrary: dest' r rule: chunked_fill.induct)
  case (1 n call dest s)
  obtain e bs t where c: "call (length (take n dest)) s = ((e, bs), t)" by (metis surj_pair)
  show ?case
  proof (cases "n = 0 \<or> dest = []")
    case True
    then show ?thesis using 1(2) by (auto simp: chunked_fill.simps [of n call dest s] filled_def split: if_splits)
  next
    case ne: False
    show ?thesis
    proof (cases e)
      case None
      then obtain rest where h: "chunked_fill n call (drop n dest) t = Some (r, rest, s')"
          "dest' = overwrite bs (take n dest) @ rest"
        using 1(2) ne c by (auto simp: chunked_fill.simps [of n call dest s] bind_eq_Some_conv)
      have "length (take n dest) \<le> length bs" using 1(3) c None unfolding chunk_law_def by blast
      then have "filled (take n dest) (Inr ()) (overwrite bs (take n dest))" by (rule filled_overwrite)
      moreover have "filled (drop n dest) r rest"
        using 1(1) [OF _ _ c [symmetric] refl None h(1) 1(3)] ne by simp
      ultimately show ?thesis unfolding h(2) by (rule filled_split)
    next
      case (Some err)
      then have "r = Inl err" "dest' = overwrite bs (take n dest) @ drop n dest"
        using 1(2) ne c by (auto simp: chunked_fill.simps [of n call dest s])
      then show ?thesis
        by (auto simp: filled_def None_overwrite dest: in_set_dropD in_set_takeD)
    qed
  qed
qed

lemma chunked_total: "0 < n \<Longrightarrow> chunked_fill n call dest s \<noteq> None"
proof (induction n call dest s rule: chunked_fill.induct)
  case (1 n call dest s)
  then show ?case
    by (subst chunked_fill.simps) (fastforce split: prod.splits option.splits simp: bind_eq_Some_conv)
qed

lemma word_filled:
  fixes draw :: "'s \<Rightarrow> 'w::len word option \<times> 's"
  assumes "8 \<le> LENGTH('w)"
  shows "word_fill draw dest s = (full, dest', s') \<Longrightarrow> filled dest (if full then Inr () else Inl e) dest'"
proof (induction draw dest s arbitrary: dest' rule: word_fill.induct)
  case (1 draw dest s)
  let ?k = "LENGTH('w) div 8"
  obtain v t where d: "draw s = (v, t)" by (metis surj_pair)
  show ?case
  proof (cases "dest = [] \<or> v = None \<or> length dest < ?k")
    case True
    then show ?thesis
      using 1(2) d by (auto simp: word_fill.simps [of draw dest s] filled_def length_le_bytes split: option.splits if_splits dest: in_set_takeD)
  next
    case False
    then obtain val where v: "v = Some val" by auto
    obtain rest where h: "word_fill draw (drop ?k dest) t = (full, rest, s')" "dest' = map Some (le_bytes val) @ rest"
      using 1(2) False d v assms by (auto simp: word_fill.simps [of draw dest s] split: prod.splits)
    have "filled (drop ?k dest) (if full then Inr () else Inl e) rest"
      using 1(1) [OF _ d [symmetric] v] False h(1) assms by simp
    then show ?thesis using h(2) False by (auto simp: filled_def length_le_bytes dest: in_set_dropD)
  qed
qed

text \<open>What the functions called document: where they report success, the bytes are written.\<close>

definition writes_all :: "('w word \<Rightarrow> bool) \<Rightarrow> ('w, 's) syscall \<Rightarrow> bool" where
  "writes_all ok sys \<longleftrightarrow> (\<forall>n s ret bs e s'. sys n s = ((ret, bs, e), s') \<longrightarrow> ok ret \<longrightarrow> n \<le> length bs)"

lemma writes_allD: "writes_all ok sys \<Longrightarrow> sys n s = ((ret, bs, e), s') \<Longrightarrow> ok ret \<Longrightarrow> n \<le> length bs"
  unfolding writes_all_def by blast

definition solaris_law :: "(64, 's) syscall \<Rightarrow> bool" where
  "solaris_law sys \<longleftrightarrow> (\<forall>n s ret bs e s'. sys n s = ((ret, bs, e), s') \<longrightarrow> 0 \<le> sint ret \<longrightarrow> nat (sint ret) = n \<longrightarrow> n \<le> length bs)"

definition sysctl_law :: "'s sysctl \<Rightarrow> bool" where
  "sysctl_law sysctl \<longleftrightarrow> (\<forall>n s len bs e s'. sysctl n s = ((0, len, bs, e), s') \<longrightarrow> len \<le> n \<and> len \<le> length bs)"

definition custom_law :: "(nat \<Rightarrow> 's \<Rightarrow> ((rand_error + unit) \<times> bytes) \<times> 's) \<Rightarrow> bool" where
  "custom_law f \<longleftrightarrow> (\<forall>n s bs s'. f n s = ((Inr (), bs), s') \<longrightarrow> n \<le> length bs)"

definition os_law :: "'s os_calls \<Rightarrow> bool" where
  "os_law oc \<longleftrightarrow> custom_law (oc_custom oc) \<and> counted_call (oc_getrandom oc) \<and> counted_call (oc_raw oc) \<and>
     (\<forall>fd. counted_call (fc_read (oc_files oc) fd)) \<and> sysctl_law (oc_sysctl oc) \<and>
     writes_all (\<lambda>r. r = 0) (oc_getentropy oc) \<and> solaris_law (oc_solaris oc) \<and> counted_call (oc_hermit oc) \<and>
     writes_all (\<lambda>r. r = 0) (oc_cc oc) \<and> writes_all (\<lambda>_. True) (oc_plain oc) \<and> writes_all (\<lambda>r. 0 \<le> sint r) (oc_solid oc) \<and>
     writes_all (\<lambda>r. r = 0) (oc_random_get oc) \<and> writes_all (\<lambda>r. r = 1) (oc_rtl oc) \<and>
     writes_all (\<lambda>r. r = 0) (oc_web oc) \<and> writes_all (\<lambda>r. r = 0) (oc_rand_bytes oc)"

lemma chunk_laws:
  "writes_all (\<lambda>r. r = 0) sys \<Longrightarrow> chunk_law (getentropy_chunk sys)"
  "solaris_law sol \<Longrightarrow> chunk_law (solaris_chunk sol)"
  "writes_all (\<lambda>r. r = 1) rtl \<Longrightarrow> chunk_law (rtl_chunk rtl)"
  "writes_all (\<lambda>r. r = 0) web \<Longrightarrow> chunk_law (wasm_js_chunk atomics web)"
  unfolding chunk_law_def getentropy_chunk_def solaris_chunk_def rtl_chunk_def wasm_js_chunk_def solaris_law_def
  by (auto split: prod.splits if_splits dest: writes_allD)

lemma kern_arnd_counted: "sysctl_law sysctl \<Longrightarrow> counted_call (kern_arnd sysctl)"
  unfolding counted_call_def
proof (intro allI impI)
  fix n s ret bs e s'
  assume law: "sysctl_law sysctl" and k: "kern_arnd sysctl n s = ((ret, bs, e), s')" and pos: "0 < sint ret"
  obtain st len out en where c: "sysctl (min n 256) s = ((st, len, out, en), s')"
    using k by (auto simp: kern_arnd_def split: prod.splits)
  have st: "st = 0 \<and> len \<le> 256 \<and> ret = word_of_nat len \<and> bs = take (min n 256) out"
    using k pos by (auto simp: kern_arnd_def c split: if_splits)
  then have "sint ret = int len" by (simp add: sint_uint unsigned_of_nat signed_take_bit_int_eq_self take_bit_nat_eq_self)
  moreover have "len \<le> min n 256 \<and> len \<le> length out"
    using law c st unfolding sysctl_law_def by blast
  ultimately show "nat (sint ret) \<le> length bs" using st by simp
qed

section \<open>Every backend keeps the contract\<close>

lemma filled_Inl [simp]: "filled dest (Inl e) dest"
  by (simp add: filled_def)

lemma on_os_filled:
  "on_os f p = Some (r, dest', p') \<Longrightarrow> (\<And>y. f (pr_os p) = Some y \<Longrightarrow> filled dest (fst y) (fst (snd y))) \<Longrightarrow> filled dest r dest'"
  by (force simp: on_os_def)

lemma use_file_cases:
  assumes "use_file_fill lc fc addr dest p = Some (r, dest', p')"
  obtains e where "r = Inl e" "dest' = dest"
  | fd s s' where "sys_fill_exact lc (fc_read fc fd) dest s = Some (r, dest', s')"
proof -
  obtain q cell s where q: "open_alone lc fc (pr_fd p) (pr_os p) = Some (q, cell, s)"
    using assms by (auto simp: use_file_fill_def bind_eq_Some_conv)
  show thesis
    using assms q that by (cases q) (auto simp: use_file_fill_def Let_def)
qed

lemma use_file_filled:
  "use_file_fill lc fc addr dest p = Some (r, dest', p') \<Longrightarrow> (\<And>fd. counted_call (fc_read fc fd)) \<Longrightarrow> filled dest r dest'"
  by (erule use_file_cases) (auto dest: sys_fill_exact_filled)

lemma fallback_filled:
  "fallback_fill lc found sys fc addr dest p = Some (r, dest', p') \<Longrightarrow> counted_call sys \<Longrightarrow>
    (\<And>fd. counted_call (fc_read fc fd)) \<Longrightarrow> filled dest r dest'"
  by (auto simp: fallback_fill_def Let_def split: prod.splits if_splits
      dest: use_file_filled on_os_filled [where dest = dest, OF _ sys_fill_exact_filled])

lemma netbsd_filled:
  "netbsd_fill lc found sys sysctl addr dest p = Some (r, dest', p') \<Longrightarrow> counted_call sys \<Longrightarrow> sysctl_law sysctl \<Longrightarrow>
    filled dest r dest'"
  by (auto simp: netbsd_fill_def Let_def split: prod.splits if_splits
      dest: kern_arnd_counted on_os_filled [where dest = dest, OF _ sys_fill_exact_filled])

lemma vxworks_filled:
  "vxworks_fill secure sys addr dest p = Some (r, dest', p') \<Longrightarrow> writes_all (\<lambda>r. r = 0) sys \<Longrightarrow> filled dest r dest'"
proof -
  assume run: "vxworks_fill secure sys addr dest p = Some (r, dest', p')" and law: "writes_all (\<lambda>r. r = 0) sys"
  obtain q cell s where q: "vxworks_wait secure (pr_rng_init p) (pr_os p) = Some (q, cell, s)"
    using run by (auto simp: vxworks_fill_def bind_eq_Some_conv)
  show ?thesis
    using run q chunked_filled [OF _ chunk_laws(1) [OF law], of _ dest]
    by (cases q) (auto simp: vxworks_fill_def Let_def)
qed

lemma rdrand_filled: "rdrand_fill feature cpuid step addr dest p = Some (r, dest', p') \<Longrightarrow> filled dest r dest'"
  by (auto simp: rdrand_fill_def rdrand_exact_def split: prod.splits if_splits rdrand_step.splits
      dest: word_filled [where 'w = 64, simplified] word_filled [where 'w = 32, simplified])

lemma rndr_filled: "rndr_fill feature detected step addr dest p = Some (r, dest', p') \<Longrightarrow> filled dest r dest'"
  by (auto simp: rndr_fill_def rndr_words_def split: prod.splits if_splits dest: word_filled [where 'w = 64, simplified])

lemma p3_filled: "p3_fill_inner rnd addr dest n = Some (r, dest', n') \<Longrightarrow> filled dest r dest'"
proof -
  assume p: "p3_fill_inner rnd addr dest n = Some (r, dest', n')"
  have "list_all (\<lambda>l. l \<le> 8) (pieces_at addr (length dest))"
    using pieces_at_ok(2) [of addr "length dest"] by (auto simp: list_all_iff)
  then have "length (pieces rnd n (pieces_at addr (length dest))) = length dest"
    by (simp add: length_pieces pieces_at_ok)
  then show ?thesis using p by (auto simp: p3_fill_inner_pieces filled_def)
qed

interpretation p3: backend "p3_fill_inner rnd" for rnd
  by unfold_locales (rule p3_filled)

interpretation rdrand: backend "rdrand_fill feature cpuid step" for feature cpuid step
  by unfold_locales (rule rdrand_filled)

interpretation rndr: backend "rndr_fill feature detected step" for feature detected step
  by unfold_locales (rule rndr_filled)

lemma getrandom_filled:
  "getrandom_fill lc sys addr dest s = Some y \<Longrightarrow> counted_call sys \<Longrightarrow> filled dest (fst y) (fst (snd y))"
  by (simp add: getrandom_fill_def sys_fill_exact_filled)

text \<open>The backends of one call.\<close>

lemma one_call_filled:
  "apple_other_fill cc addr dest s = Some y \<Longrightarrow> writes_all (\<lambda>r. r = 0) cc \<Longrightarrow> filled dest (fst y) (fst (snd y))"
  "fuchsia_fill zx addr dest s = Some y \<Longrightarrow> writes_all (\<lambda>_. True) zx \<Longrightarrow> filled dest (fst y) (fst (snd y))"
  "esp_idf_fill esp addr dest s = Some y \<Longrightarrow> writes_all (\<lambda>_. True) esp \<Longrightarrow> filled dest (fst y) (fst (snd y))"
  "windows_fill prng addr dest s = Some y \<Longrightarrow> writes_all (\<lambda>_. True) prng \<Longrightarrow> filled dest (fst y) (fst (snd y))"
  "solid_fill solid addr dest s = Some y \<Longrightarrow> writes_all (\<lambda>r. 0 \<le> sint r) solid \<Longrightarrow> filled dest (fst y) (fst (snd y))"
  "wasi_p1_fill p1 addr dest s = Some y \<Longrightarrow> writes_all (\<lambda>r. r = 0) p1 \<Longrightarrow> filled dest (fst y) (fst (snd y))"
  unfolding apple_other_fill_def fuchsia_fill_def esp_idf_fill_def windows_fill_def solid_fill_def wasi_p1_fill_def
  by (auto split: prod.splits if_splits intro!: filled_overwrite dest: writes_allD)

lemma custom_filled: "custom_fill f addr dest s = Some y \<Longrightarrow> custom_law f \<Longrightarrow> filled dest (fst y) (fst (snd y))"
proof -
  assume run: "custom_fill f addr dest s = Some y" and law: "custom_law f"
  obtain r bs s' where c: "f (length dest) s = ((r, bs), s')" by (metis surj_pair)
  have "r = Inr () \<Longrightarrow> length dest \<le> length bs" using law c unfolding custom_law_def by blast
  from filled_overwrite [OF this] show ?thesis using run c by (auto simp: custom_fill_def)
qed

lemma chunked_backends_filled:
  "getentropy_fill ent addr dest s = Some y \<Longrightarrow> writes_all (\<lambda>r. r = 0) ent \<Longrightarrow> filled dest (fst y) (fst (snd y))"
  "solaris_fill sol addr dest s = Some y \<Longrightarrow> solaris_law sol \<Longrightarrow> filled dest (fst y) (fst (snd y))"
  "windows_legacy_fill rtl addr dest s = Some y \<Longrightarrow> writes_all (\<lambda>r. r = 1) rtl \<Longrightarrow> filled dest (fst y) (fst (snd y))"
  "wasm_js_fill atomics web addr dest s = Some y \<Longrightarrow> writes_all (\<lambda>r. r = 0) web \<Longrightarrow> filled dest (fst y) (fst (snd y))"
  unfolding getentropy_fill_def solaris_fill_def windows_legacy_fill_def wasm_js_fill_def
  by (cases y; force intro: chunked_filled chunk_laws)+

text \<open>A stateless backend in the process.\<close>

lemma on_os_backend:
  "(\<And>addr dest s y. f addr dest s = Some y \<Longrightarrow> filled dest (fst y) (fst (snd y))) \<Longrightarrow> backend (\<lambda>addr dest. on_os (f addr dest))"
  by unfold_locales (rule on_os_filled)

lemma unsupported_filled: "unsupported_fill addr dest s = Some y \<Longrightarrow> filled dest (fst y) (fst (snd y))"
  by (auto simp: unsupported_fill_def)

lemma hermit_backend: "counted_call sys \<Longrightarrow> backend (\<lambda>addr dest. on_os (\<lambda>s. Some (hermit_fill sys dest s)))"
  by (rule on_os_backend [of "\<lambda>addr dest s. Some (hermit_fill sys dest s)"]) (metis option.inject hermit_filled)

lemma p2_eq: "p2_fill_inner rnd = p3_fill_inner rnd" "p2_inner_u32 rnd = p3_inner_u32 rnd" "p2_inner_u64 rnd = p3_inner_u64 rnd"
  by (simp_all add: fun_eq_iff p2_fill_inner_def p3_fill_inner_def p2_inner_u32_def p3_inner_u32_def p2_inner_u64_def p3_inner_u64_def)

lemma wasi_backend: "backend (\<lambda>addr dest p. map_option (\<lambda>(r, d, n). (r, d, p\<lparr>pr_draws := n\<rparr>)) (p3_fill_inner rnd addr dest (pr_draws p)))"
  by unfold_locales (auto dest: p3_filled)

lemma stateful_backends:
  "(\<And>fd. counted_call (fc_read fc fd)) \<Longrightarrow> backend (use_file_fill lc fc)"
  "counted_call sys \<Longrightarrow> (\<And>fd. counted_call (fc_read fc fd)) \<Longrightarrow> backend (fallback_fill lc found sys fc)"
  "counted_call sys \<Longrightarrow> sysctl_law sysctl \<Longrightarrow> backend (netbsd_fill lc found sys sysctl)"
  "writes_all (\<lambda>r. r = 0) rnd \<Longrightarrow> backend (vxworks_fill secure rnd)"
  by (unfold_locales; auto intro: use_file_filled fallback_filled netbsd_filled vxworks_filled)+

lemmas stateless_backends =
  on_os_backend [OF custom_filled] on_os_backend [OF getrandom_filled] on_os_backend [OF linux_raw_filled]
  on_os_backend [OF chunked_backends_filled(1)] on_os_backend [OF chunked_backends_filled(2)]
  on_os_backend [OF chunked_backends_filled(3)] on_os_backend [OF chunked_backends_filled(4)]
  on_os_backend [OF one_call_filled(1)] on_os_backend [OF one_call_filled(2)] on_os_backend [OF one_call_filled(3)]
  on_os_backend [OF one_call_filled(4)] on_os_backend [OF one_call_filled(5)] on_os_backend [OF one_call_filled(6)] on_os_backend [OF unsupported_filled] hermit_backend wasi_backend

section \<open>The retry loop returns the system's bytes\<close>

text \<open>
  The documented behaviour of a random device: a positive result is the number of the next
  bytes of its output, taken and no other; a failure takes none.  The state is the number of
  bytes taken and the number of calls made.
\<close>

definition device_law :: "(nat \<Rightarrow> u8) \<Rightarrow> ('s \<Rightarrow> nat) \<Rightarrow> (64, 's) syscall \<Rightarrow> bool" where
  "device_law out pos sys \<longleftrightarrow> (\<forall>n s ret bs e s'. sys n s = ((ret, bs, e), s') \<longrightarrow>
     (if 0 < sint ret then nat (sint ret) \<le> n \<and> bs = map out [pos s..<pos s + nat (sint ret)] \<and> pos s' = pos s + nat (sint ret)
      else pos s' = pos s))"

lemma device_lawD:
  assumes "device_law out pos sys" "sys n s = ((ret, bs, e), s')"
  shows "0 < sint ret \<Longrightarrow> nat (sint ret) \<le> n \<and> bs = map out [pos s..<pos s + nat (sint ret)] \<and> pos s' = pos s + nat (sint ret)"
    "\<not> 0 < sint ret \<Longrightarrow> pos s' = pos s"
  using assms unfolding device_law_def by (metis (full_types))+

lemma device_counted: "device_law out pos sys \<Longrightarrow> counted_call sys"
  unfolding counted_call_def by (auto dest: device_lawD(1))

lemma assume_init_map: "slice_assume_init (map (\<lambda>i. Some (f i)) xs) = Some (map f xs)"
  using assume_init_map_Some [of "map f xs"] by (simp add: comp_def)

lemma upt_chunks: "j \<le> k \<Longrightarrow> map f [i..<i + j] @ map f [i + j..<i + k] = map f [i..<i + k]"
  using upt_add_eq_append [of i "i + j" "k - j"] by (simp flip: map_append)

lemma sys_fill_exact_device:
  assumes "sys_fill_exact lc sys buf s = Some y" "device_law out pos sys"
  shows "fst y = Inr () \<longrightarrow> fst (snd y) = map (\<lambda>i. Some (out i)) [pos s..<pos s + length buf] \<and> pos (snd (snd y)) = pos s + length buf"
  using assms
proof (induction rule: sys_fill_exact_run)
  case (step rec lc sys buf s y)
  obtain res bs errno s' where c: "sys (length buf) s = ((res, bs, errno), s')" by (metis surj_pair)
  note law = device_lawD [OF step.prems c]
  note body = step(2) [unfolded c prod.case]
  let ?k = "nat (sint res)"
  consider (empty) "buf = []" | (some) "buf \<noteq> []" "0 < sint res"
    | (again) "buf \<noteq> []" "\<not> 0 < sint res" "res = - 1" "raw_os_error (lc_os lc) (last_os_error errno) = Some (lc_EINTR lc)"
    | (failed) "buf \<noteq> []" "\<not> 0 < sint res" "\<not> (res = - 1 \<and> raw_os_error (lc_os lc) (last_os_error errno) = Some (lc_EINTR lc))" by blast
  then show ?case
  proof cases
    case some
    note l = law(1) [OF some(2)]
    obtain r rest t where h: "rec lc sys (drop ?k (overwrite bs buf)) s' = Some (r, rest, t)"
        "y = (r, take ?k (overwrite bs buf) @ rest, t)"
      using body some l by (auto simp: bind_eq_Some_conv)
    have "take ?k (overwrite bs buf) = map (\<lambda>i. Some (out i)) [pos s..<pos s + ?k]"
      using l by (simp add: overwrite_def comp_def)
    then show ?thesis
      using step(1) [OF h(1) step.prems] l h(2) upt_chunks [of ?k "length buf" "\<lambda>i. Some (out i)" "pos s"] by auto
  next
    case again
    then have "rec lc sys (overwrite bs buf) s' = Some y" using body by simp
    then show ?thesis using step(1) [OF _ step.prems] law(2) [OF again(2)] by simp
  qed (use body in \<open>auto split: if_splits\<close>)
qed

text \<open>The loop returns unless the calls are interrupted forever: \<open>patience\<close> counts down while they are.\<close>

lemma sys_fill_exact_returns:
  fixes patience :: "'s \<Rightarrow> nat"
  assumes "\<And>n s bs e s'. sys n s = ((- 1, bs, e), s') \<Longrightarrow> raw_os_error (lc_os lc) (last_os_error e) = Some (lc_EINTR lc) \<Longrightarrow> patience s' < patience s"
  shows "sys_fill_exact lc sys buf s \<noteq> None"
proof -
  have "\<exists>y. sys_fill_exact lc sys buf s = Some y"
  proof (induction "(length buf, patience s)" arbitrary: buf s rule: wf_induct_rule [OF wf_lex_prod [OF wf_less_than wf_less_than]])
    case 1
    obtain res bs errno s' where c: "sys (length buf) s = ((res, bs, errno), s')" by (metis surj_pair)
    consider (empty) "buf = []" | (some) "buf \<noteq> []" "0 < sint res" "nat (sint res) \<le> length buf"
      | (again) "buf \<noteq> []" "\<not> 0 < sint res" "res = - 1" "raw_os_error (lc_os lc) (last_os_error errno) = Some (lc_EINTR lc)"
      | (stop) "buf \<noteq> []" "\<not> (0 < sint res \<and> nat (sint res) \<le> length buf)"
          "\<not> (\<not> 0 < sint res \<and> res = - 1 \<and> raw_os_error (lc_os lc) (last_os_error errno) = Some (lc_EINTR lc))" by blast
    then show ?case
    proof cases
      case some
      then have "\<exists>y. sys_fill_exact lc sys (drop (nat (sint res)) (overwrite bs buf)) s' = Some y"
        by (intro 1) auto
      then show ?thesis using some c by (subst sys_fill_exact.simps) (auto split: prod.splits)
    next
      case again
      then have "\<exists>y. sys_fill_exact lc sys (overwrite bs buf) s' = Some y"
        using assms c by (intro 1) auto
      then show ?thesis using again c by (subst sys_fill_exact.simps) auto
    qed (subst sys_fill_exact.simps, use c in auto)+
  qed
  then show ?thesis by simp
qed

section \<open>A device that is interrupted\<close>

text \<open>A device on Linux that hands out at most three bytes and is interrupted twice before each piece.\<close>

definition linux_lib :: c_lib where
  "linux_lib = \<lparr>lc_os = ''linux'', lc_EINTR = 4, lc_EPERM = 1, lc_ENOSYS = 38\<rparr>"

definition demo_device :: "(64, nat \<times> nat) syscall" where
  "demo_device n s = (case s of (pos, interrupts) \<Rightarrow>
     if 0 < interrupts then ((- 1, [], lc_EINTR linux_lib), (pos, interrupts - 1))
     else ((word_of_nat (min n 3), map word_of_nat [pos..<pos + min n 3], 0), (pos + min n 3, 2)))"

lemma sint_small_nat: "k < 2 ^ 63 \<Longrightarrow> sint (word_of_nat k :: i64) = int k"
  by (simp add: sint_uint unsigned_of_nat take_bit_nat_eq_self signed_take_bit_int_eq_self)

lemma demo_device_law: "device_law word_of_nat fst demo_device"
proof -
  have "min n 3 < 2 ^ 63" for n :: nat by (simp add: min_def)
  from sint_small_nat [OF this] show ?thesis
    by (auto simp: device_law_def demo_device_def split: if_splits)
qed

lemma demo_device_patience: "demo_device n s = ((- 1, bs, e), s') \<Longrightarrow> snd s' < snd s"
proof -
  have "min n 3 < 2 ^ 63" by (simp add: min_def)
  then have "word_of_nat (min n 3) \<noteq> (- 1 :: i64)"
    using sint_small_nat [of "min n 3"] by auto
  then show "demo_device n s = ((- 1, bs, e), s') \<Longrightarrow> snd s' < snd s"
    by (auto simp: demo_device_def split: prod.splits if_splits)
qed

lemma EINTR_reads_back: "raw_os_error (lc_os linux_lib) (last_os_error (lc_EINTR linux_lib)) = Some (lc_EINTR linux_lib)"
  by (simp add: last_os_error_def linux_lib_def from_neg_error_code_def raw_os_error_def checked_neg_def)

definition demo_process :: "'s \<Rightarrow> 's process" where
  "demo_process s = \<lparr>pr_os = s, pr_fd = FD_UNINIT, pr_getrandom = None, pr_rng_init = False,
     pr_rdrand_good = LAZY_UNINIT, pr_rndr_good = LAZY_UNINIT, pr_draws = 0\<rparr>"

text \<open>C25: The retry loop over a system call.  On a random device that is not interrupted forever, filling a buffer returns, whatever the
  sizes of the pieces the system hands out and wherever it is interrupted; on success the buffer holds exactly the next bytes of the device in
  order, as many as the buffer has: an interrupted call loses none and a partial one repeats none.\<close>

theorem getrandom_delivers:
  fixes patience :: "'s \<Rightarrow> nat"
  assumes "device_law out pos sys"
    and "\<And>n s bs e s'. sys n s = ((- 1, bs, e), s') \<Longrightarrow> raw_os_error (lc_os lc) (last_os_error e) = Some (lc_EINTR lc) \<Longrightarrow> patience s' < patience s"
  shows "\<exists>r buf' p'. rand_fill (\<lambda>addr dest. on_os (getrandom_fill lc sys addr dest)) addr buf p = Some (r, buf', p') \<and>
    length buf' = length buf \<and>
    (r = Inr () \<longrightarrow> buf' = map out [pos (pr_os p)..<pos (pr_os p) + length buf] \<and> pos (pr_os p') = pos (pr_os p) + length buf)"
proof -
  let ?inner = "\<lambda>addr dest. on_os (getrandom_fill lc sys addr dest)"
  have contract: "backend ?inner"
    by (rule on_os_backend) (rule getrandom_filled [OF _ device_counted [OF assms(1)]])
  have "?inner addr (map Some buf) p \<noteq> None"
    using sys_fill_exact_returns [of sys lc patience "map Some buf" "pr_os p", OF assms(2)] by (simp add: on_os_def getrandom_fill_def)
  then obtain r buf' p' where run: "rand_fill ?inner addr buf p = Some (r, buf', p')"
    using backend.rand_fill_None [OF contract, of addr buf p] by fastforce
  have "buf' = map out [pos (pr_os p)..<pos (pr_os p) + length buf] \<and> pos (pr_os p') = pos (pr_os p) + length buf" if r: "r = Inr ()"
  proof (cases "buf = []")
    case True
    then show ?thesis using run by (auto simp: rand_fill_def fill_uninit_def slice_as_uninit_def slice_assume_init_def)
  next
    case False
    obtain q dest t where f: "fill_uninit ?inner addr (map Some buf) p = Some (q, dest, t)" "slice_assume_init dest = Some buf'" "t = p'" "map_sum id (\<lambda>_. ()) q = Inr ()"
      using run r by (auto simp: rand_fill_def bind_eq_Some_conv slice_as_uninit_def)
    then obtain bs where q: "q = Inr bs" by (cases q) auto
    note fills = backend.fill_uninit_Inr [OF contract f(1) [unfolded q]]
    then obtain w where "sys_fill_exact lc sys (map Some buf) (pr_os p) = Some (Inr (), map Some bs, w)" "p' = p\<lparr>pr_os := w\<rparr>"
      using f(1) False unfolding q f(3)
      by (auto simp: backend.fill_uninit_eq [OF contract] on_os_def getrandom_fill_def split: option.splits sum.splits)
    with sys_fill_exact_device [OF this(1) assms(1)] fills f(2) show ?thesis
      by (auto simp: assume_init_map)
  qed
  then show ?thesis using run backend.rand_fill_length [OF contract run] by auto
qed

theorem getrandom_delivers_witness:
  "\<exists>p'. rand_fill (\<lambda>addr dest. on_os (getrandom_fill linux_lib demo_device addr dest)) 5 [9, 9, 9, 9, 9] (demo_process (7, 2)) =
    Some (Inr (), map word_of_nat [7..<12], p') \<and> fst (pr_os p') = 12"
proof -
  let ?inner = "\<lambda>addr dest. on_os (getrandom_fill linux_lib demo_device addr dest)"
  have "\<exists>dest s. sys_fill_exact linux_lib demo_device [Some 9, Some 9, Some 9, Some 9, Some 9] (7, 2) = Some (Inr (), dest, s) \<and> None \<notin> set dest"
    by (simp add: sys_fill_exact.simps demo_device_def EINTR_reads_back overwrite_def)
  then have "\<exists>buf' p'. rand_fill ?inner 5 [9, 9, 9, 9, 9] (demo_process (7, 2)) = Some (Inr (), buf', p')"
    by (auto simp: rand_fill_def fill_uninit_def slice_as_uninit_def slice_assume_init_def on_os_def getrandom_fill_def demo_process_def)
  then obtain buf' p' where run: "rand_fill ?inner 5 [9, 9, 9, 9, 9] (demo_process (7, 2)) = Some (Inr (), buf', p')" by blast
  note returns = getrandom_delivers [OF demo_device_law, where lc = linux_lib and patience = snd and addr = 5 and
      buf = "[9, 9, 9, 9, 9]" and p = "demo_process (7, 2)", OF demo_device_patience]
  have "pr_os (demo_process (7, 2 :: nat)) = (7 :: nat, 2)" "length [9, 9, 9, 9, 9 :: u8] = 5" by (simp_all add: demo_process_def)
  with returns run show ?thesis by auto
qed

section \<open>The self-test of the processor's generator\<close>

text \<open>How many of the draws equal the one before them, the first compared with \<open>prev\<close>.\<close>

fun repeats :: "'w::len word \<Rightarrow> 'w word list \<Rightarrow> nat" where
  "repeats prev [] = 0"
| "repeats prev (v # vs) = (if v = prev then 1 else 0) + repeats v vs"

lemma self_test_loop_repeats:
  "(\<And>n. step n = ((True, v n), n + 1)) \<Longrightarrow>
    self_test_loop step k prev fails n = (Some (fails + repeats prev (map v [n..<n + k])), n + k)"
proof (induction k arbitrary: prev fails n)
  case (Suc k)
  have "rdrand step n = (Some (v n), n + 1)"
    using Suc.prems by (simp add: rdrand_def numeral_eq_Suc)
  moreover have "[n..<n + Suc k] = n # [n + 1..<n + 1 + k]" by (simp add: upt_conv_Cons)
  ultimately show ?case using Suc.IH [OF Suc.prems] by simp
qed simp

lemma lazy_bool_once:
  "lazy_bool init cell s = (b, cell', s') \<Longrightarrow> cell' \<noteq> LAZY_UNINIT \<and> lazy_bool init' cell' t = (b, cell', t)"
  by (auto simp: lazy_bool_def lazy_usize_def LAZY_UNINIT_def split: prod.splits if_splits)

text \<open>The gate of the processor backend.  On a 64-bit processor that is known to have the instruction, the first request of a process draws eight numbers and lets the
  backend pass exactly when at most two of them equal their predecessor, all ones standing before the first; the verdict is kept, so any later
  request, whatever the processor then says of itself, draws none for the test and gives the same answer.\<close>

theorem rdrand_checked_once:
  assumes "\<And>n. step n = ((True, v n), n + 1)" "pr_rdrand_good p = LAZY_UNINIT" "rdrand_ready True cpuid (Step64 step) p = (good, p')"
  shows "(good \<longleftrightarrow> repeats (- 1) (map v [pr_os p..<pr_os p + 8]) \<le> 2) \<and> pr_os p' = pr_os p + 8 \<and>
    rdrand_ready feature' cpuid' step' p' = (good, p')"
proof -
  have test: "is_rdrand_good True cpuid (Step64 step) n = (repeats (- 1) (map v [n..<n + 8]) \<le> 2, n + 8)" for n
    using self_test_loop_repeats [of step v 8 "- 1" 0 n, OF assms(1)] by (simp add: is_rdrand_good_def self_test_def del: upt_Suc)
  obtain cell s where l: "lazy_bool (is_rdrand_good True cpuid (Step64 step)) LAZY_UNINIT (pr_os p) = (good, cell, s)"
      "p' = p\<lparr>pr_rdrand_good := cell, pr_os := s\<rparr>"
    using assms(2,3) by (auto simp: rdrand_ready_def split: prod.splits)
  then have "good \<longleftrightarrow> repeats (- 1) (map v [pr_os p..<pr_os p + 8]) \<le> 2" "s = pr_os p + 8"
    by (auto simp: lazy_bool_def lazy_usize_def test simp del: upt_Suc split: if_splits)
  moreover have "lazy_bool f cell t = (good, cell, t)" for f :: "nat \<Rightarrow> bool \<times> nat" and t
    by (rule conjunct2 [OF lazy_bool_once [OF l(1)]])
  ultimately show ?thesis
    using l(2) by (simp add: rdrand_ready_def del: upt_Suc)
qed

theorem rdrand_checked_once_witness:
  "\<not> fst (rdrand_ready True cpuid (Step64 (\<lambda>n. ((True, word_of_nat (n div 2)), n + 1))) (demo_process 0))"
proof -
  let ?step = "\<lambda>n. ((True, word_of_nat (n div 2) :: u64), n + 1)"
  obtain good p' where r: "rdrand_ready True cpuid (Step64 ?step) (demo_process 0) = (good, p')" by (rule prod.exhaust)
  have fresh: "pr_rdrand_good (demo_process 0) = LAZY_UNINIT" "pr_os (demo_process (0 :: nat)) = 0"
    by (simp_all only: demo_process_def process.select_convs)
  have step: "?step n = ((True, word_of_nat (n div 2)), n + 1)" for n by (rule refl)
  note checked = conjunct1 [OF rdrand_checked_once [OF step fresh(1) r]]
  have list: "map (\<lambda>n. word_of_nat (n div 2)) [0..<0 + 8] = [0, 0, 1, 1, 2, 2, 3, 3 :: u64]" by (simp add: upt_rec)
  have "\<not> good" using checked unfolding fresh(2) list by simp
  then show ?thesis unfolding r fst_conv by blast
qed

end
