(* ===== verification/FdProtocol.thy ===== *)
theory FdProtocol
  imports OsRandomTheorems
begin

text \<open>
  The opening of the random device by many threads (\<open>backends/use_file.rs\<close>): \<open>fill_inner\<close> up to
  the read, and \<open>open_or_wait\<close>, over the atomic \<open>FD\<close>.  A thread is at one of the points between
  two accesses to \<open>FD\<close>, the accesses are the steps, and any interleaving is allowed; the opening
  itself, \<open>open_fd\<close>, is one step with any result the sequential code can return.  On Linux and
  Android waiting is a futex: a thread goes to sleep only if \<open>FD\<close> still says that an opening is
  under way, and the opener wakes all sleepers after its store.  Elsewhere it is a pause.  A
  weak exchange may fail without reason, a sleeper may wake without reason.
\<close>

section \<open>The threads\<close>

datatype open_pc =
    Enter | AtLoop | Exchange | AboutToWait | Asleep
  | Opening | Publish "rand_error + i32" | Wake "rand_error + i32"
  | Ready i32 | Failed rand_error

definition open_outcome :: "rand_error + i32 \<Rightarrow> open_pc" where
  "open_outcome res = (case res of Inr fd \<Rightarrow> Ready fd | Inl e \<Rightarrow> Failed e)"

text \<open>One step of a thread on the value of \<open>FD\<close>, for a target with or without a futex.\<close>

inductive thread_step :: "bool \<Rightarrow> (rand_error + i32 \<Rightarrow> bool) \<Rightarrow> i32 \<Rightarrow> open_pc \<Rightarrow> i32 \<Rightarrow> open_pc \<Rightarrow> bool"
  for futex opens where
  load_ready: "fd \<noteq> FD_UNINIT \<Longrightarrow> fd \<noteq> FD_ONGOING_INIT \<Longrightarrow> thread_step futex opens fd Enter fd (Ready fd)"
| load_unready: "fd = FD_UNINIT \<or> fd = FD_ONGOING_INIT \<Longrightarrow> thread_step futex opens fd Enter fd AtLoop"
| loop_uninit: "thread_step futex opens FD_UNINIT AtLoop FD_UNINIT Exchange"
| loop_ongoing: "thread_step futex opens FD_ONGOING_INIT AtLoop FD_ONGOING_INIT AboutToWait"
| loop_ready: "fd \<noteq> FD_UNINIT \<Longrightarrow> fd \<noteq> FD_ONGOING_INIT \<Longrightarrow> thread_step futex opens fd AtLoop fd (Ready fd)"
| exchange_done: "thread_step futex opens FD_UNINIT Exchange FD_ONGOING_INIT Opening"
| exchange_fails: "thread_step futex opens fd Exchange fd AtLoop"
| futex_sleeps: "futex \<Longrightarrow> thread_step futex opens FD_ONGOING_INIT AboutToWait FD_ONGOING_INIT Asleep"
| futex_returns: "futex \<Longrightarrow> fd \<noteq> FD_ONGOING_INIT \<Longrightarrow> thread_step futex opens fd AboutToWait fd AtLoop"
| pauses: "\<not> futex \<Longrightarrow> thread_step futex opens fd AboutToWait fd AtLoop"
| stirs: "thread_step futex opens fd Asleep fd AtLoop"
| opened: "opens res \<Longrightarrow> thread_step futex opens fd Opening fd (Publish res)"
| publishes: "thread_step futex opens fd (Publish res) (fd_value res) (if futex then Wake res else open_outcome res)"

inductive_cases thread_stepE: "thread_step futex opens fd pc fd' pc'"

section \<open>The system\<close>

text \<open>\<open>os_opened\<close> records the descriptors that openings returned: no other trace of them is left.\<close>

record open_state =
  os_fd :: i32
  os_pc :: "nat \<Rightarrow> open_pc"
  os_opened :: "i32 list"

definition opened_by :: "open_pc \<Rightarrow> open_pc \<Rightarrow> i32 list" where
  "opened_by pc pc' = (case pc of Opening \<Rightarrow> (case pc' of Publish (Inr fd) \<Rightarrow> [fd] | _ \<Rightarrow> []) | _ \<Rightarrow> [])"

inductive open_step :: "nat \<Rightarrow> bool \<Rightarrow> (rand_error + i32 \<Rightarrow> bool) \<Rightarrow> open_state \<Rightarrow> open_state \<Rightarrow> bool"
  for threads futex opens where
  local: "t < threads \<Longrightarrow> thread_step futex opens (os_fd st) (os_pc st t) fd pc \<Longrightarrow>
    open_step threads futex opens st
      \<lparr>os_fd = fd, os_pc = (os_pc st)(t := pc), os_opened = os_opened st @ opened_by (os_pc st t) pc\<rparr>"
| wake: "t < threads \<Longrightarrow> os_pc st t = Wake res \<Longrightarrow>
    open_step threads futex opens st
      (st\<lparr>os_pc := (\<lambda>u. if u = t then open_outcome res else if os_pc st u = Asleep then AtLoop else os_pc st u)\<rparr>)"

definition open_start :: open_state where
  "open_start = \<lparr>os_fd = FD_UNINIT, os_pc = \<lambda>_. Enter, os_opened = []\<rparr>"

inductive open_reach :: "nat \<Rightarrow> bool \<Rightarrow> (rand_error + i32 \<Rightarrow> bool) \<Rightarrow> open_state \<Rightarrow> bool"
  for threads futex opens where
  start: "open_reach threads futex opens open_start"
| step: "open_reach threads futex opens st \<Longrightarrow> open_step threads futex opens st st' \<Longrightarrow> open_reach threads futex opens st'"

text \<open>The results of the opening itself.\<close>

definition open_results :: "c_lib \<Rightarrow> 's file_calls \<Rightarrow> rand_error + i32 \<Rightarrow> bool" where
  "open_results lc fc res \<longleftrightarrow> (\<exists>s s'. open_fd lc fc s = Some (res, s'))"

lemmas open_readonly_run = open_readonly.raw_induct [rotated, consumes 1, case_names step]

lemma open_readonly_fd:
  assumes "open_readonly lc fc path s = Some y"
  shows "fst y = Inr fd \<Longrightarrow> 0 \<le> sint fd"
  using assms
proof (induction rule: open_readonly_run)
  case (step rec lc fc path s y)
  then show ?case by (auto split: if_splits prod.splits)
qed

lemma open_results_fd: "open_results lc fc (Inr fd) \<Longrightarrow> 0 \<le> sint fd"
proof -
  assume "open_results lc fc (Inr fd)"
  then obtain s s' where run: "open_fd lc fc s = Some (Inr fd, s')" by (auto simp: open_results_def)
  then obtain r s1 where r: "(if has_futex (lc_os lc) then wait_until_rng_ready lc fc s else Some (Inr (), s)) = Some (r, s1)"
    unfolding open_fd_def by (auto simp only: bind_eq_Some_conv split: prod.splits)
  show "0 \<le> sint fd"
    using run r open_readonly_fd [where y = "(Inr fd, s')" and fd = fd] by (cases r) (simp_all add: open_fd_def)
qed

section \<open>The invariant\<close>

fun holds :: "open_pc \<Rightarrow> bool" where
  "holds Opening = True"
| "holds (Publish res) = True"
| "holds _ = False"

text \<open>
  One thread at most is between its exchange and its store, and \<open>FD\<close> says so; one descriptor at
  most has been opened, and it is the one published, stored and read; whoever sleeps has someone to
  wake it.
\<close>

fun thread_ok :: "bool \<Rightarrow> i32 \<Rightarrow> i32 list \<Rightarrow> open_pc \<Rightarrow> bool" where
  "thread_ok futex fd opened (Publish (Inr f)) \<longleftrightarrow> opened = [f] \<and> 0 \<le> sint f"
| "thread_ok futex fd opened (Wake (Inr f)) \<longleftrightarrow> fd = f \<and> 0 \<le> sint f"
| "thread_ok futex fd opened (Ready f) \<longleftrightarrow> fd = f \<and> 0 \<le> sint f"
| "thread_ok futex fd opened Asleep \<longleftrightarrow> futex"
| "thread_ok futex fd opened _ \<longleftrightarrow> True"

definition publishing :: "(nat \<Rightarrow> open_pc) \<Rightarrow> bool" where
  "publishing pc \<longleftrightarrow> (\<exists>t f. pc t = Publish (Inr f))"

definition waking :: "(nat \<Rightarrow> open_pc) \<Rightarrow> bool" where
  "waking pc \<longleftrightarrow> (\<exists>t res. pc t = Wake res)"

definition open_inv :: "nat \<Rightarrow> bool \<Rightarrow> open_state \<Rightarrow> bool" where
  "open_inv threads futex st \<longleftrightarrow>
     (\<forall>t. thread_ok futex (os_fd st) (os_opened st) (os_pc st t)) \<and>
     (\<forall>t. os_pc st t \<noteq> Enter \<longrightarrow> t < threads) \<and>
     (\<forall>t u. holds (os_pc st t) \<longrightarrow> holds (os_pc st u) \<longrightarrow> t = u) \<and>
     (os_fd st = FD_ONGOING_INIT \<longleftrightarrow> (\<exists>t. holds (os_pc st t))) \<and>
     (os_fd st = FD_UNINIT \<or> os_fd st = FD_ONGOING_INIT \<or> 0 \<le> sint (os_fd st)) \<and>
     (0 \<le> sint (os_fd st) \<longrightarrow> os_opened st = [os_fd st]) \<and>
     (os_opened st \<noteq> [] \<longrightarrow> 0 \<le> sint (os_fd st) \<or> publishing (os_pc st)) \<and>
     (\<forall>t. os_pc st t = Asleep \<longrightarrow> os_fd st = FD_ONGOING_INIT \<or> waking (os_pc st))"

lemma fd_marks [simp]:
  "sint FD_UNINIT = - 1" "sint FD_ONGOING_INIT = - 2" "FD_UNINIT \<noteq> FD_ONGOING_INIT" "FD_ONGOING_INIT \<noteq> FD_UNINIT"
  by (simp_all add: FD_UNINIT_def FD_ONGOING_INIT_def)

lemma fd_marks_neg: "0 \<le> sint fd \<Longrightarrow> fd \<noteq> FD_UNINIT \<and> fd \<noteq> FD_ONGOING_INIT"
  by auto

lemma open_inv_start: "open_inv threads futex open_start"
  by (simp add: open_inv_def open_start_def)

lemma open_inv_wake:
  assumes inv: "open_inv threads futex st" and t: "os_pc st t = Wake res"
  defines "pc \<equiv> \<lambda>u. if u = t then open_outcome res else if os_pc st u = Asleep then AtLoop else os_pc st u"
  shows "open_inv threads futex (st\<lparr>os_pc := pc\<rparr>)"
proof -
  have holds: "holds (pc u) \<longleftrightarrow> holds (os_pc st u)" for u
    using t by (auto simp: pc_def open_outcome_def split: sum.split)
  have "pc u = Publish r \<longleftrightarrow> os_pc st u = Publish r" for u r
    using t by (auto simp: pc_def open_outcome_def split: sum.split)
  then have "publishing pc \<longleftrightarrow> publishing (os_pc st)" by (simp add: publishing_def)
  moreover have "thread_ok futex (os_fd st) (os_opened st) (pc u)" for u
  proof -
    have "thread_ok futex (os_fd st) (os_opened st) (os_pc st u)" using inv by (simp add: open_inv_def)
    then show ?thesis using t by (auto simp: pc_def open_outcome_def split: sum.split)
  qed
  moreover have "pc u \<noteq> Enter \<longrightarrow> u < threads" for u
  proof -
    have "os_pc st u \<noteq> Enter \<longrightarrow> u < threads" using inv by (simp add: open_inv_def)
    then show ?thesis using t by (auto simp: pc_def)
  qed
  moreover have "pc u \<noteq> Asleep" for u by (simp add: pc_def open_outcome_def split: sum.split)
  ultimately show ?thesis using inv by (simp add: open_inv_def holds) blast
qed

text \<open>A step that neither takes nor leaves the opening, and neither sleeps in vain nor wakes.\<close>

lemma open_inv_quiet:
  assumes inv: "open_inv threads futex st" and t: "t < threads"
    and old: "\<not> holds (os_pc st t)" "\<And>res. os_pc st t \<noteq> Wake res"
    and new: "\<not> holds pc" "thread_ok futex (os_fd st) (os_opened st) pc" "pc = Asleep \<longrightarrow> os_fd st = FD_ONGOING_INIT"
  defines "pcs \<equiv> (os_pc st)(t := pc)"
  shows "open_inv threads futex (st\<lparr>os_pc := pcs\<rparr>)"
proof -
  have holds: "holds (pcs u) \<longleftrightarrow> holds (os_pc st u)" for u
    using old new by (simp add: pcs_def)
  have "pcs u = Publish res \<longleftrightarrow> os_pc st u = Publish res" for u res
    using old(1) new(1) by (auto simp: pcs_def)
  then have "publishing pcs \<longleftrightarrow> publishing (os_pc st)" by (simp add: publishing_def)
  moreover have "pcs u = Asleep \<longrightarrow> os_fd st = FD_ONGOING_INIT \<or> waking pcs" for u
  proof
    assume u: "pcs u = Asleep"
    have "waking (os_pc st) \<Longrightarrow> waking pcs"
      using old(2) unfolding waking_def pcs_def by (metis fun_upd_other)
    then show "os_fd st = FD_ONGOING_INIT \<or> waking pcs"
      using u new(3) inv by (cases "u = t") (auto simp: pcs_def open_inv_def)
  qed
  moreover have "thread_ok futex (os_fd st) (os_opened st) (pcs u)" for u
    using inv new(2) by (simp add: open_inv_def pcs_def)
  moreover have "pcs u \<noteq> Enter \<longrightarrow> u < threads" for u
    using inv t by (simp add: open_inv_def pcs_def)
  ultimately show ?thesis
    using inv by (simp add: open_inv_def holds) blast
qed

text \<open>What the invariant says of the state around the opening.\<close>

lemma open_invD:
  assumes "open_inv threads futex st"
  shows "thread_ok futex (os_fd st) (os_opened st) (os_pc st t)" "os_pc st t \<noteq> Enter \<Longrightarrow> t < threads"
    "holds (os_pc st t) \<Longrightarrow> holds (os_pc st u) \<Longrightarrow> t = u" "os_fd st = FD_ONGOING_INIT \<longleftrightarrow> (\<exists>t. holds (os_pc st t))"
    "os_pc st t = Asleep \<Longrightarrow> os_fd st = FD_ONGOING_INIT \<or> waking (os_pc st)"
  using assms unfolding open_inv_def by blast+

lemma not_opened:
  assumes "open_inv threads futex st" "\<not> 0 \<le> sint (os_fd st)" "\<And>u f. os_pc st u \<noteq> Publish (Inr f)"
  shows "os_opened st = []"
  using assms by (auto simp: open_inv_def publishing_def)

lemma thread_ok_idle: "thread_ok futex fd opened pc \<Longrightarrow> \<not> holds pc \<Longrightarrow> \<not> 0 \<le> sint fd \<Longrightarrow> thread_ok futex fd' opened' pc"
  by (cases "(futex, fd, opened, pc)" rule: thread_ok.cases) auto

lemma open_inv_exchange:
  assumes inv: "open_inv threads futex st" and fd: "os_fd st = FD_UNINIT" and t: "t < threads"
  shows "open_inv threads futex \<lparr>os_fd = FD_ONGOING_INIT, os_pc = (os_pc st)(t := Opening), os_opened = os_opened st\<rparr>"
proof -
  have idle: "\<not> holds (os_pc st u)" for u
    using open_invD(4) [OF inv] fd by auto
  then have none: "os_opened st = []"
    using not_opened [OF inv] fd holds.simps(2) by (metis fd_marks(1) neg_0_le_iff_le not_one_le_zero)
  have "thread_ok futex FD_ONGOING_INIT [] (((os_pc st)(t := Opening)) u)" for u
    using thread_ok_idle [OF open_invD(1) [OF inv, of u] idle] fd by simp
  moreover have "holds (((os_pc st)(t := Opening)) u) \<longleftrightarrow> u = t" for u using idle by simp
  moreover have "((os_pc st)(t := Opening)) u \<noteq> Enter \<longrightarrow> u < threads" for u
    using open_invD(2) [OF inv, of u] t by simp
  ultimately show ?thesis by (simp add: open_inv_def none)
qed

lemma open_inv_opened:
  assumes inv: "open_inv threads futex st" and t: "os_pc st t = Opening" and res: "\<And>f. res = Inr f \<Longrightarrow> 0 \<le> sint f"
  shows "open_inv threads futex \<lparr>os_fd = os_fd st, os_pc = (os_pc st)(t := Publish res), os_opened = os_opened st @ opened_by Opening (Publish res)\<rparr>"
proof -
  have fd: "os_fd st = FD_ONGOING_INIT" using open_invD(4) [OF inv] t by (metis holds.simps(1))
  have idle: "\<not> holds (os_pc st u)" if "u \<noteq> t" for u
    using open_invD(3) [OF inv, of u t] t that by auto
  have "os_pc st u \<noteq> Publish (Inr f)" for u f
    using t idle [of u] by (cases "u = t") auto
  then have none: "os_opened st = []" using not_opened [OF inv] fd by simp
  have "thread_ok futex (os_fd st) (opened_by Opening (Publish res)) (((os_pc st)(t := Publish res)) u)" for u
  proof (cases "u = t")
    case True
    then show ?thesis using res by (cases res) (simp_all add: opened_by_def)
  next
    case False
    then show ?thesis
      using thread_ok_idle [OF open_invD(1) [OF inv, of u] idle [OF False]] fd by simp
  qed
  moreover have "holds (((os_pc st)(t := Publish res)) u) \<longleftrightarrow> u = t" for u using idle by simp
  moreover have "((os_pc st)(t := Publish res)) u \<noteq> Enter \<longrightarrow> u < threads" for u
    using open_invD(2) [OF inv, of u] open_invD(2) [OF inv, of t] t by simp
  moreover have "opened_by Opening (Publish res) \<noteq> [] \<longrightarrow> publishing ((os_pc st)(t := Publish res))"
    by (auto simp: opened_by_def publishing_def split: sum.splits)
  ultimately show ?thesis by (simp add: open_inv_def none fd)
qed

lemma open_inv_publish:
  assumes inv: "open_inv threads futex st" and t: "os_pc st t = Publish res"
  defines "pcs \<equiv> (os_pc st)(t := if futex then Wake res else open_outcome res)"
  shows "open_inv threads futex \<lparr>os_fd = fd_value res, os_pc = pcs, os_opened = os_opened st\<rparr>"
proof -
  have fd: "os_fd st = FD_ONGOING_INIT" using open_invD(4) [OF inv] t by (metis holds.simps(2))
  have idle: "\<not> holds (pcs u)" for u
    using open_invD(3) [OF inv, of u t] t by (auto simp: pcs_def open_outcome_def split: sum.split)
  have val: "case res of Inr f \<Rightarrow> os_opened st = [f] \<and> 0 \<le> sint f | Inl _ \<Rightarrow> os_opened st = []"
  proof (cases res)
    case (Inr f)
    then show ?thesis using open_invD(1) [OF inv, of t] t by simp
  next
    case (Inl e)
    have "os_pc st u \<noteq> Publish (Inr f)" for u f
      using open_invD(3) [OF inv, of u t] t Inl by (metis holds.simps(2) open_pc.inject(1) sum.distinct(1))
    then show ?thesis using not_opened [OF inv] fd Inl by simp
  qed
  have "thread_ok futex (fd_value res) (os_opened st) (pcs u)" for u
  proof (cases "u = t")
    case True
    then show ?thesis using val by (auto simp: pcs_def open_outcome_def fd_value_def split: sum.splits)
  next
    case False
    then show ?thesis
      using thread_ok_idle [OF open_invD(1) [OF inv, of u]] idle [of u] fd by (simp add: pcs_def)
  qed
  moreover have "pcs u \<noteq> Enter \<longrightarrow> u < threads" for u
    using open_invD(2) [OF inv, of u] open_invD(2) [OF inv, of t] t by (simp add: pcs_def)
  moreover have "pcs u = Asleep \<longrightarrow> waking pcs" for u
  proof
    assume u: "pcs u = Asleep"
    have "thread_ok futex (os_fd st) (os_opened st) (os_pc st u)" by (rule open_invD(1) [OF inv])
    then have futex using u by (auto simp: pcs_def open_outcome_def split: if_splits sum.splits)
    then show "waking pcs" by (auto simp: waking_def pcs_def)
  qed
  ultimately show ?thesis
    using val idle by (auto simp: open_inv_def fd_value_def split: sum.splits)
qed

lemma open_inv_local:
  assumes inv: "open_inv threads futex st" and t: "t < threads" and opens: "\<And>f. opens (Inr f) \<Longrightarrow> 0 \<le> sint f"
    and step: "thread_step futex opens (os_fd st) (os_pc st t) fd pc"
  shows "open_inv threads futex
    \<lparr>os_fd = fd, os_pc = (os_pc st)(t := pc), os_opened = os_opened st @ opened_by (os_pc st t) pc\<rparr>"
proof -
  have range: "os_fd st = FD_UNINIT \<or> os_fd st = FD_ONGOING_INIT \<or> 0 \<le> sint (os_fd st)"
    using inv unfolding open_inv_def by blast
  have quiet: ?thesis
    if "fd = os_fd st" "opened_by (os_pc st t) pc = []" "\<not> holds (os_pc st t)" "\<And>res. os_pc st t \<noteq> Wake res"
      "\<not> holds pc" "thread_ok futex (os_fd st) (os_opened st) pc" "pc = Asleep \<longrightarrow> os_fd st = FD_ONGOING_INIT"
    using open_inv_quiet [OF inv t that(3,4,5,6,7)] that(1,2) by (cases st) simp
  from step show ?thesis
  proof (cases rule: thread_step.cases)
    case exchange_done
    then show ?thesis using open_inv_exchange [OF inv _ t] by (simp add: opened_by_def)
  next
    case (opened res)
    then show ?thesis using open_inv_opened [OF inv, of t res] opens by auto
  next
    case (publishes res)
    then show ?thesis using open_inv_publish [OF inv] by (simp add: opened_by_def)
  qed (rule quiet; use range in \<open>auto simp: opened_by_def\<close>)+
qed

lemma open_inv_step:
  assumes "open_inv threads futex st" "\<And>f. opens (Inr f) \<Longrightarrow> 0 \<le> sint f" "open_step threads futex opens st st'"
  shows "open_inv threads futex st'"
  using assms(3)
proof (cases rule: open_step.cases)
  case (local t fd pc)
  then show ?thesis using open_inv_local [OF assms(1) _ assms(2)] by simp
next
  case (wake t res)
  then show ?thesis using open_inv_wake [OF assms(1)] by simp
qed

lemma open_reach_inv:
  "open_reach threads futex opens st \<Longrightarrow> (\<And>f. opens (Inr f) \<Longrightarrow> 0 \<le> sint f) \<Longrightarrow> open_inv threads futex st"
  by (induction rule: open_reach.induct) (auto intro: open_inv_start open_inv_step)

text \<open>C9: The lock-free initialization of the random device.  Whatever the number of threads, the interleaving, the results of
  opening the file, spurious failures of the exchange and spurious wake-ups: at most one thread is inside the opening, and the
  atomic says so exactly then; at most one descriptor is ever opened, though openings that failed are repeated; every thread that goes
  on to read has that one, and it is the valid descriptor stored; and the atomic never holds anything but it and the two marks.\<close>

theorem fd_protocol:
  assumes "open_reach threads (has_futex (lc_os lc)) (open_results lc fc) st"
  shows "(\<forall>t u. holds (os_pc st t) \<and> holds (os_pc st u) \<longrightarrow> t = u) \<and>
    (os_fd st = FD_ONGOING_INIT \<longleftrightarrow> (\<exists>t. holds (os_pc st t))) \<and>
    length (os_opened st) \<le> 1 \<and>
    (\<forall>t fd. os_pc st t = Ready fd \<longrightarrow> os_opened st = [fd] \<and> os_fd st = fd \<and> 0 \<le> sint fd) \<and>
    (os_fd st = FD_UNINIT \<or> os_fd st = FD_ONGOING_INIT \<or> os_opened st = [os_fd st] \<and> 0 \<le> sint (os_fd st))"
proof -
  have inv: "open_inv threads (has_futex (lc_os lc)) st"
    using open_reach_inv [OF assms] open_results_fd by blast
  have range: "os_fd st = FD_UNINIT \<or> os_fd st = FD_ONGOING_INIT \<or> os_opened st = [os_fd st] \<and> 0 \<le> sint (os_fd st)"
    using inv unfolding open_inv_def by blast
  have one: "length (os_opened st) \<le> 1"
  proof (cases "0 \<le> sint (os_fd st) \<or> (\<exists>u f. os_pc st u = Publish (Inr f))")
    case True
    then show ?thesis
    proof
      assume "\<exists>u f. os_pc st u = Publish (Inr f)"
      then obtain u f where "os_pc st u = Publish (Inr f)" by blast
      then show ?thesis using open_invD(1) [OF inv, of u] by simp
    qed (use range fd_marks_neg in auto)
  next
    case False
    then show ?thesis using not_opened [OF inv] by auto
  qed
  have ready: "os_opened st = [fd] \<and> os_fd st = fd \<and> 0 \<le> sint fd" if "os_pc st t = Ready fd" for t fd
    using open_invD(1) [OF inv, of t] that range fd_marks_neg by auto
  show ?thesis
    using one range open_invD(3,4) [OF inv] ready by blast
qed

section \<open>Progress\<close>

fun finished :: "open_pc \<Rightarrow> bool" where
  "finished (Ready fd) = True"
| "finished (Failed e) = True"
| "finished _ = False"

text \<open>A step that wakes nobody without reason.\<close>

definition unaided :: "nat \<Rightarrow> bool \<Rightarrow> (rand_error + i32 \<Rightarrow> bool) \<Rightarrow> open_state \<Rightarrow> open_state \<Rightarrow> bool" where
  "unaided threads futex opens st st' \<longleftrightarrow> open_step threads futex opens st st' \<and>
     (\<forall>t. os_pc st t = Asleep \<longrightarrow> os_pc st' t = Asleep \<or> waking (os_pc st))"

text \<open>How far a thread is from its end, once the descriptor is there (\<open>open\<close>) and before.\<close>

fun thread_rank :: "bool \<Rightarrow> open_pc \<Rightarrow> nat" where
  "thread_rank op Enter = (if op then 1 else 3)"
| "thread_rank op AtLoop = (if op then 1 else 2)"
| "thread_rank op Exchange = (if op then 2 else 1)"
| "thread_rank op AboutToWait = (if op then 2 else 3)"
| "thread_rank op Asleep = (if op then 2 else 3)"
| "thread_rank op (Wake res) = 1"
| "thread_rank op _ = 0"

definition open_phase :: "open_state \<Rightarrow> nat" where
  "open_phase st =
     (if 0 \<le> sint (os_fd st) then 0
      else if os_fd st \<noteq> FD_ONGOING_INIT then 3
      else if \<exists>t. os_pc st t = Opening then 2
      else if publishing (os_pc st) then 1 else 4)"

definition open_rank :: "nat \<Rightarrow> open_state \<Rightarrow> nat" where
  "open_rank threads st = open_phase st * (3 * threads + 1) + (\<Sum>t<threads. thread_rank (0 \<le> sint (os_fd st)) (os_pc st t))"

lemma sum_rank_le: "(\<Sum>t<threads. thread_rank op (pc t)) \<le> 3 * threads"
proof -
  have "thread_rank op p \<le> 3" for p by (cases p) auto
  then have "(\<Sum>t<threads. thread_rank op (pc t)) \<le> (\<Sum>t<threads. 3)" by (intro sum_mono) auto
  then show ?thesis by simp
qed

lemma open_rank_phase: "open_phase st' < open_phase st \<Longrightarrow> open_rank threads st' < open_rank threads st"
proof -
  assume less: "open_phase st' < open_phase st"
  have "open_rank threads st' < open_phase st' * (3 * threads + 1) + (3 * threads + 1)"
    using sum_rank_le [of "0 \<le> sint (os_fd st')" "os_pc st'" threads] by (simp add: open_rank_def)
  also have "\<dots> = (open_phase st' + 1) * (3 * threads + 1)" by simp
  also have "\<dots> \<le> open_phase st * (3 * threads + 1)" using less by (intro mult_le_mono1) simp
  also have "\<dots> \<le> open_rank threads st" by (simp add: open_rank_def)
  finally show ?thesis .
qed

text \<open>Within a phase that is not an opening, the ranks of the threads count.\<close>

lemma open_rank_threads:
  assumes "os_fd st' = os_fd st" "os_fd st \<noteq> FD_ONGOING_INIT" "t < threads"
    and "\<And>u. thread_rank (0 \<le> sint (os_fd st)) (os_pc st' u) \<le> thread_rank (0 \<le> sint (os_fd st)) (os_pc st u)"
    and "thread_rank (0 \<le> sint (os_fd st)) (os_pc st' t) < thread_rank (0 \<le> sint (os_fd st)) (os_pc st t)"
  shows "open_rank threads st' < open_rank threads st"
proof -
  have "(\<Sum>u<threads. thread_rank (0 \<le> sint (os_fd st)) (os_pc st' u)) < (\<Sum>u<threads. thread_rank (0 \<le> sint (os_fd st)) (os_pc st u))"
    using assms(3-5) by (intro sum_strict_mono_ex1) auto
  then show ?thesis
    using assms(1,2) by (cases "0 \<le> sint (os_fd st)") (simp_all add: open_rank_def open_phase_def)
qed

lemma step_local:
  assumes "t < threads" "thread_step futex opens (os_fd st) (os_pc st t) fd pc" "os_pc st t \<noteq> Asleep"
  shows "unaided threads futex opens st
    \<lparr>os_fd = fd, os_pc = (os_pc st)(t := pc), os_opened = os_opened st @ opened_by (os_pc st t) pc\<rparr>"
  using open_step.local [OF assms(1,2)] assms(3) by (auto simp: unaided_def)

lemma progress_wake:
  assumes "os_pc st t = Wake res" "t < threads" "os_fd st \<noteq> FD_ONGOING_INIT"
  shows "\<exists>st'. unaided threads futex opens st st' \<and> open_rank threads st' < open_rank threads st"
proof -
  let ?pc = "\<lambda>u. if u = t then open_outcome res else if os_pc st u = Asleep then AtLoop else os_pc st u"
  have "unaided threads futex opens st (st\<lparr>os_pc := ?pc\<rparr>)"
    using open_step.wake [OF assms(2,1)] assms(1) by (auto simp: unaided_def waking_def)
  moreover have "open_rank threads (st\<lparr>os_pc := ?pc\<rparr>) < open_rank threads st"
    using assms by (intro open_rank_threads [of _ _ t]) (auto simp: open_outcome_def split: sum.split)
  ultimately show ?thesis by blast
qed

text \<open>The opener goes on; if the file can be opened, it may succeed.\<close>

lemma progress_opening:
  assumes inv: "open_inv threads futex st" and fd: "os_fd st = FD_ONGOING_INIT" and opens: "opens (Inr f)" "0 \<le> sint f"
  shows "\<exists>st'. unaided threads futex opens st st' \<and> open_rank threads st' < open_rank threads st"
proof -
  obtain t where t: "holds (os_pc st t)" using open_invD(4) [OF inv] fd by blast
  then have lt: "t < threads" by (intro open_invD(2) [OF inv]) auto
  have neg: "\<not> 0 \<le> sint (os_fd st)" using fd by simp
  have alone: "os_pc st u \<noteq> Opening" "os_pc st u \<noteq> Publish r" if "u \<noteq> t" for u r
    using open_invD(3) [OF inv t, of u] that by auto
  consider (busy) "os_pc st t = Opening" | (publish) res where "os_pc st t = Publish res"
    using t by (cases "os_pc st t") auto
  then show ?thesis
  proof cases
    case busy
    let ?st = "\<lparr>os_fd = os_fd st, os_pc = (os_pc st)(t := Publish (Inr f)), os_opened = os_opened st @ opened_by (os_pc st t) (Publish (Inr f))\<rparr>"
    have "unaided threads futex opens st ?st"
      using step_local [OF lt, of futex opens st "os_fd st" "Publish (Inr f)"] thread_step.opened [of opens "Inr f"] opens(1) busy by simp
    moreover have "open_phase ?st = 1"
      using alone fd by (auto simp: open_phase_def publishing_def)
    moreover have "open_phase st = 2" using busy fd by (auto simp: open_phase_def)
    ultimately show ?thesis using open_rank_phase [of ?st st threads] by auto
  next
    case (publish res)
    let ?pc = "if futex then Wake res else open_outcome res"
    let ?st = "\<lparr>os_fd = fd_value res, os_pc = (os_pc st)(t := ?pc), os_opened = os_opened st @ opened_by (os_pc st t) ?pc\<rparr>"
    have "unaided threads futex opens st ?st"
      using step_local [OF lt, of futex opens st "fd_value res" ?pc] thread_step.publishes [of futex opens "os_fd st" res] publish by simp
    moreover have "open_phase ?st < open_phase st"
    proof (cases res)
      case (Inr g)
      then have "0 \<le> sint g" using open_invD(1) [OF inv, of t] publish by simp
      then show ?thesis using neg Inr fd by (auto simp: open_phase_def fd_value_def)
    next
      case (Inl e)
      have "\<not> publishing (os_pc st)" unfolding publishing_def using alone publish Inl by (metis open_pc.inject(1) sum.distinct(1))
      moreover have "os_pc st u \<noteq> Opening" for u using alone publish by (cases "u = t") auto
      ultimately show ?thesis using fd Inl by (auto simp: open_phase_def fd_value_def)
    qed
    ultimately show ?thesis using open_rank_phase by blast
  qed
qed

lemma open_progress:
  assumes inv: "open_inv threads futex st" and opens: "opens (Inr f)" "\<And>f. opens (Inr f) \<Longrightarrow> 0 \<le> sint f"
    and t: "t < threads" "\<not> finished (os_pc st t)"
  shows "\<exists>st'. unaided threads futex opens st st' \<and> open_rank threads st' < open_rank threads st"
proof (cases "os_fd st = FD_ONGOING_INIT")
  case True
  then show ?thesis using progress_opening [where opens = opens and f = f, OF inv _ opens(1) opens(2) [OF opens(1)]] by blast
next
  case fd: False
  then have idle: "\<not> holds (os_pc st u)" for u using open_invD(4) [OF inv] by blast
  have move: ?thesis
    if "thread_step futex opens (os_fd st) (os_pc st t) (os_fd st) pc" "os_pc st t \<noteq> Asleep"
      "thread_rank (0 \<le> sint (os_fd st)) pc < thread_rank (0 \<le> sint (os_fd st)) (os_pc st t)" for pc
  proof -
    let ?st = "\<lparr>os_fd = os_fd st, os_pc = (os_pc st)(t := pc), os_opened = os_opened st @ opened_by (os_pc st t) pc\<rparr>"
    have "open_rank threads ?st < open_rank threads st"
      using that(3) fd t(1) by (intro open_rank_threads [of _ _ t]) auto
    then show ?thesis using step_local [OF t(1) that(1,2)] by blast
  qed
  have range: "os_fd st = FD_UNINIT \<or> 0 \<le> sint (os_fd st)"
    using inv fd unfolding open_inv_def by blast
  show ?thesis
  proof (cases "os_pc st t")
    case Enter
    show ?thesis
    proof (cases "0 \<le> sint (os_fd st)")
      case True
      then have "thread_step futex opens (os_fd st) Enter (os_fd st) (Ready (os_fd st))"
        using fd by (intro thread_step.load_ready) auto
      then show ?thesis using True Enter move [of "Ready (os_fd st)"] by simp
    next
      case False
      then have "thread_step futex opens (os_fd st) Enter (os_fd st) AtLoop"
        using range by (intro thread_step.load_unready) auto
      then show ?thesis using False Enter move [of AtLoop] by simp
    qed
  next
    case AtLoop
    show ?thesis
    proof (cases "0 \<le> sint (os_fd st)")
      case True
      then have "thread_step futex opens (os_fd st) AtLoop (os_fd st) (Ready (os_fd st))"
        using fd by (intro thread_step.loop_ready) auto
      then show ?thesis using True AtLoop move [of "Ready (os_fd st)"] by simp
    next
      case False
      then show ?thesis using AtLoop range move [of Exchange] by (auto intro: thread_step.intros)
    qed
  next
    case Exchange
    show ?thesis
    proof (cases "0 \<le> sint (os_fd st)")
      case True
      then show ?thesis using Exchange move [of AtLoop] by (auto intro: thread_step.intros)
    next
      case False
      let ?st = "\<lparr>os_fd = FD_ONGOING_INIT, os_pc = (os_pc st)(t := Opening), os_opened = os_opened st @ opened_by (os_pc st t) Opening\<rparr>"
      have "unaided threads futex opens st ?st"
        using step_local [OF t(1), of futex opens st FD_ONGOING_INIT Opening] thread_step.exchange_done range False Exchange by simp
      moreover have "open_phase ?st < open_phase st"
        using False fd by (auto simp: open_phase_def)
      ultimately show ?thesis using open_rank_phase by blast
    qed
  next
    case AboutToWait
    have "thread_step futex opens (os_fd st) AboutToWait (os_fd st) AtLoop"
      using fd by (cases futex) (auto intro: thread_step.intros)
    then show ?thesis
      using AboutToWait move [of AtLoop] by (cases "0 \<le> sint (os_fd st)") simp_all
  next
    case Asleep
    then have "waking (os_pc st)" using open_invD(5) [OF inv, of t] fd by blast
    then obtain u res where u: "os_pc st u = Wake res" by (auto simp: waking_def)
    then have "u < threads" by (intro open_invD(2) [OF inv]) auto
    then show ?thesis using progress_wake [OF u _ fd] by blast
  next
    case (Wake res)
    then show ?thesis using progress_wake [OF _ t(1) fd] by blast
  qed (use t(2) idle [of t] in auto)
qed

lemma open_can_finish:
  assumes "open_inv threads futex st" "opens (Inr f)" "\<And>f. opens (Inr f) \<Longrightarrow> 0 \<le> sint f"
  shows "\<exists>st'. rtranclp (unaided threads futex opens) st st' \<and> (\<forall>t<threads. finished (os_pc st' t))"
  using assms(1)
proof (induction "open_rank threads st" arbitrary: st rule: less_induct)
  case less
  show ?case
  proof (cases "\<forall>t<threads. finished (os_pc st t)")
    case False
    then obtain t where "t < threads" "\<not> finished (os_pc st t)" by blast
    then obtain st1 where st1: "unaided threads futex opens st st1" "open_rank threads st1 < open_rank threads st"
      using open_progress [where opens = opens and f = f, OF less.prems assms(2,3)] by blast
    then have "open_inv threads futex st1"
      using open_inv_step [OF less.prems assms(3)] by (auto simp: unaided_def)
    then obtain st' where "rtranclp (unaided threads futex opens) st1 st'" "\<forall>t<threads. finished (os_pc st' t)"
      using less.hyps [OF st1(2)] by blast
    then show ?thesis using st1(1) by (meson converse_rtranclp_into_rtranclp)
  qed blast
qed

text \<open>C10: No thread is left waiting.  From every state the threads can reach, as long as the file can be opened at all, a continuation exists
  in which all of them leave the initialization, with a descriptor or an error, and in which no sleeper wakes by chance: each is
  woken by the thread that had the opening.  In particular no interleaving deadlocks and no wake-up is lost between the check of a waiting thread and its sleep.\<close>

theorem fd_no_lost_wakeup:
  assumes "open_reach threads (has_futex (lc_os lc)) (open_results lc fc) st" "open_results lc fc (Inr f)"
  shows "\<exists>st'. rtranclp (unaided threads (has_futex (lc_os lc)) (open_results lc fc)) st st' \<and> (\<forall>t<threads. finished (os_pc st' t))"
proof (rule open_can_finish)
  show "open_inv threads (has_futex (lc_os lc)) st"
    using open_reach_inv [OF assms(1)] open_results_fd by blast
qed (use assms(2) open_results_fd in blast)+

section \<open>A run of two threads\<close>

text \<open>On Linux, with a system whose files open as descriptor 3.\<close>

definition demo_files :: "nat file_calls" where
  "demo_files = \<lparr>fc_open = (\<lambda>path s. ((3, 0), s + 1)), fc_poll = (\<lambda>fd s. ((1, 0), s)), fc_close = (\<lambda>fd s. s), fc_read = (\<lambda>fd n s. ((word_of_nat (min n 3), replicate (min n 3) 7, 0), s))\<rparr>"

lemma demo_open: "open_results linux_lib demo_files (Inr 3)"
proof -
  have "0 \<in> set RANDOM_PATH" "0 \<in> set FILE_PATH" by (simp_all add: RANDOM_PATH_def FILE_PATH_def)
  then have o: "open_readonly linux_lib demo_files RANDOM_PATH 0 = Some (Inr 3, 1)"
      "open_readonly linux_lib demo_files FILE_PATH 1 = Some (Inr 3, 2)"
    by (simp_all add: open_readonly.simps demo_files_def)
  moreover have "poll_loop linux_lib demo_files 3 1 = Some (Inr (), 1)"
    by (simp add: poll_loop.simps demo_files_def)
  ultimately have "open_fd linux_lib demo_files 0 = Some (Inr 3, 2)"
    by (simp add: open_fd_def has_futex_def linux_lib_def wait_until_rng_ready_def) (simp add: demo_files_def)
  then show ?thesis unfolding open_results_def by blast
qed

text \<open>The first thread has the opening, the second has just gone to sleep.\<close>

definition demo_waiting :: open_state where
  "demo_waiting = \<lparr>os_fd = FD_ONGOING_INIT, os_pc = (\<lambda>_. Enter)(0 := Opening, 1 := Asleep), os_opened = []\<rparr>"

lemma demo_waiting_reached: "open_reach 2 True opens demo_waiting"
proof -
  let ?at = "\<lambda>fd p q. \<lparr>os_fd = fd, os_pc = (\<lambda>_. Enter)(0 := p, 1 := q), os_opened = []\<rparr>"
  have first: "open_reach 2 True opens (?at fd' p' q)"
    if "open_reach 2 True opens (?at fd p q)" "thread_step True opens fd p fd' p'" "p \<noteq> Opening" for fd fd' p p' q
  proof -
    have "open_step 2 True opens (?at fd p q) (?at fd' p' q)"
      using open_step.local [of 0 2 True opens "?at fd p q" fd' p'] that(2,3)
      by (cases p) (simp_all add: opened_by_def fun_upd_twist [of 0 "Suc 0"])
    with that(1) show ?thesis by (rule open_reach.step)
  qed
  have second: "open_reach 2 True opens (?at fd' p q')"
    if "open_reach 2 True opens (?at fd p q)" "thread_step True opens fd q fd' q'" "q \<noteq> Opening" for fd fd' p q q'
  proof -
    have "open_step 2 True opens (?at fd p q) (?at fd' p q')"
      using open_step.local [of 1 2 True opens "?at fd p q" fd' q'] that(2,3)
      by (cases q) (simp_all add: opened_by_def)
    with that(1) show ?thesis by (rule open_reach.step)
  qed
  have "?at FD_UNINIT Enter Enter = open_start" by (simp add: open_start_def fun_eq_iff)
  then have "open_reach 2 True opens (?at FD_UNINIT Enter Enter)" using open_reach.start by simp
  then have "open_reach 2 True opens (?at FD_UNINIT AtLoop Enter)" by (rule first) (simp_all add: thread_step.intros)
  then have "open_reach 2 True opens (?at FD_UNINIT Exchange Enter)" by (rule first) (simp_all add: thread_step.intros)
  then have "open_reach 2 True opens (?at FD_ONGOING_INIT Opening Enter)" by (rule first) (simp_all add: thread_step.intros)
  then have "open_reach 2 True opens (?at FD_ONGOING_INIT Opening AtLoop)" by (rule second) (simp_all add: thread_step.intros)
  then have "open_reach 2 True opens (?at FD_ONGOING_INIT Opening AboutToWait)" by (rule second) (simp_all add: thread_step.intros)
  then have "open_reach 2 True opens (?at FD_ONGOING_INIT Opening Asleep)" by (rule second) (simp_all add: thread_step.intros)
  then show ?thesis by (simp add: demo_waiting_def)
qed

theorem fd_protocol_witness:
  "length (os_opened demo_waiting) \<le> 1 \<and> {t. holds (os_pc demo_waiting t)} = {0}"
proof -
  have "open_reach 2 (has_futex (lc_os linux_lib)) (open_results linux_lib demo_files) demo_waiting"
    by (simp add: has_futex_def linux_lib_def demo_waiting_reached)
  note inv = fd_protocol [OF this]
  have "holds (os_pc demo_waiting 0)" by (simp add: demo_waiting_def)
  then have "{t. holds (os_pc demo_waiting t)} = {0}" using inv by blast
  then show ?thesis using inv by blast
qed

theorem fd_no_lost_wakeup_witness:
  "\<exists>st'. rtranclp (unaided 2 True (open_results linux_lib demo_files)) demo_waiting st' \<and> finished (os_pc st' 0) \<and> finished (os_pc st' 1)"
proof -
  have "open_reach 2 (has_futex (lc_os linux_lib)) (open_results linux_lib demo_files) demo_waiting"
    by (simp add: has_futex_def linux_lib_def demo_waiting_reached)
  from fd_no_lost_wakeup [OF this demo_open] show ?thesis by (auto simp: has_futex_def linux_lib_def)
qed

end
