(* ===== verification/Mirror.thy ===== *)
theory Mirror
  imports LeanCodec Rows
begin

text \<open>
  The Lean value codec (\<open>SchemaLang/CodecValue.lean\<close> and the row codec of \<open>SchemaLang/Trace.lean\<close>),
  which \<open>value.rs\<close> and \<open>row.rs\<close> promise to mirror byte for byte, and the proof of the promise: the
  encoders of the two languages write the same bytes, each decoder reads what the other language
  wrote, and the number decoders are related on every input.

  The Lean codec is modelled on the types the Rust crate has: maps, sets, tensors, futures, streams and
  floating-point numbers have no counterpart there.  A Lean value carries its type, so the last
  arm of an encoder, no bytes, stands for the values Lean cannot form.
\<close>

section \<open>The Lean value codec\<close>

definition lean_zigzag :: "int \<Rightarrow> nat" where
  "lean_zigzag i = (if 0 \<le> i then nat (2 * i) else nat (2 * (- i) - 1))"

definition lean_unzigzag :: "nat \<Rightarrow> int" where
  "lean_unzigzag n = (if n mod 2 = 0 then int (n div 2) else - (int (n div 2) + 1))"

definition lenc_bool :: "bool \<Rightarrow> bytes" where
  "lenc_bool b = [if b then 1 else 0]"

definition ldec_bool :: "bool ldec" where
  "ldec_bool bs = (case bs of
       [] \<Rightarrow> None
     | b # rest \<Rightarrow> if b = 0 then Some (False, rest) else if b = 1 then Some (True, rest) else None)"

definition ldec_u8 :: "u8 ldec" where
  "ldec_u8 bs = (case bs of [] \<Rightarrow> None | b # rest \<Rightarrow> Some (b, rest))"

definition lenc_opt :: "('a \<Rightarrow> bytes) \<Rightarrow> 'a option \<Rightarrow> bytes" where
  "lenc_opt enc x = (case x of None \<Rightarrow> [0] | Some a \<Rightarrow> 1 # enc a)"

definition ldec_opt :: "'a ldec \<Rightarrow> 'a option ldec" where
  "ldec_opt dec bs = (case bs of
       [] \<Rightarrow> None
     | t # rest \<Rightarrow> if t = 0 then Some (None, rest)
                  else if t = 1 then map_option (\<lambda>(a, r). (Some a, r)) (dec rest) else None)"

definition lenc_sum :: "('a \<Rightarrow> bytes) \<Rightarrow> ('b \<Rightarrow> bytes) \<Rightarrow> 'a + 'b \<Rightarrow> bytes" where
  "lenc_sum enc_a enc_b s = (case s of Inl a \<Rightarrow> 0 # enc_a a | Inr b \<Rightarrow> 1 # enc_b b)"

definition ldec_sum :: "'a ldec \<Rightarrow> 'b ldec \<Rightarrow> ('a + 'b) ldec" where
  "ldec_sum dec_a dec_b bs = (case bs of
       [] \<Rightarrow> None
     | t # rest \<Rightarrow> if t = 0 then map_option (\<lambda>(a, r). (Inl a, r)) (dec_a rest)
                  else if t = 1 then map_option (\<lambda>(b, r). (Inr b, r)) (dec_b rest) else None)"

primrec lenc_value :: "ty \<Rightarrow> val \<Rightarrow> bytes" where
  "lenc_value TBool v = (case v of VBool b \<Rightarrow> lenc_bool b | _ \<Rightarrow> [])"
| "lenc_value TU8 v = (case v of VU8 x \<Rightarrow> [x] | _ \<Rightarrow> [])"
| "lenc_value TU16 v = (case v of VU16 x \<Rightarrow> enc_nat (unat x) | _ \<Rightarrow> [])"
| "lenc_value TU32 v = (case v of VU32 x \<Rightarrow> enc_nat (unat x) | _ \<Rightarrow> [])"
| "lenc_value TU64 v = (case v of VU64 x \<Rightarrow> enc_nat (unat x) | _ \<Rightarrow> [])"
| "lenc_value TI8 v = (case v of VI8 x \<Rightarrow> enc_nat (lean_zigzag (sint x)) | _ \<Rightarrow> [])"
| "lenc_value TI16 v = (case v of VI16 x \<Rightarrow> enc_nat (lean_zigzag (sint x)) | _ \<Rightarrow> [])"
| "lenc_value TI32 v = (case v of VI32 x \<Rightarrow> enc_nat (lean_zigzag (sint x)) | _ \<Rightarrow> [])"
| "lenc_value TI64 v = (case v of VI64 x \<Rightarrow> enc_nat (lean_zigzag (sint x)) | _ \<Rightarrow> [])"
| "lenc_value TStr v = (case v of VStr s \<Rightarrow> lenc_list enc_nat (map unat s) | _ \<Rightarrow> [])"
| "lenc_value TBytes v = (case v of VBytes bs \<Rightarrow> lenc_bytes bs | _ \<Rightarrow> [])"
| "lenc_value (TOpt t) v = (case v of VOpt x \<Rightarrow> lenc_opt (lenc_value t) x | _ \<Rightarrow> [])"
| "lenc_value (TRes ok err) v = (case v of
       VOk x \<Rightarrow> lenc_sum (lenc_value ok) (lenc_value err) (Inl x)
     | VErr e \<Rightarrow> lenc_sum (lenc_value ok) (lenc_value err) (Inr e) | _ \<Rightarrow> [])"
| "lenc_value (TList t) v = (case v of VList xs \<Rightarrow> lenc_list (lenc_value t) xs | _ \<Rightarrow> [])"

text \<open>A number below a bound; \<open>IntN.ofInt\<close> wraps.\<close>

definition ldec_below :: "nat \<Rightarrow> (nat \<Rightarrow> val) \<Rightarrow> val ldec" where
  "ldec_below bound mk bs = (case dec_nat bs of (n, r) \<Rightarrow> if n < bound then Some (mk n, r) else None)"

definition ldec_int :: "(int \<Rightarrow> val) \<Rightarrow> val ldec" where
  "ldec_int mk bs = (case dec_nat bs of (n, r) \<Rightarrow> Some (mk (lean_unzigzag n), r))"

primrec ldec_value :: "ty \<Rightarrow> val ldec" where
  "ldec_value TBool bs = map_option (\<lambda>(b, r). (VBool b, r)) (ldec_bool bs)"
| "ldec_value TU8 bs = map_option (\<lambda>(x, r). (VU8 x, r)) (ldec_u8 bs)"
| "ldec_value TU16 bs = ldec_below (2 ^ 16) (\<lambda>n. VU16 (word_of_nat n)) bs"
| "ldec_value TU32 bs = ldec_below (2 ^ 32) (\<lambda>n. VU32 (word_of_nat n)) bs"
| "ldec_value TU64 bs = ldec_below (2 ^ 64) (\<lambda>n. VU64 (word_of_nat n)) bs"
| "ldec_value TI8 bs = ldec_int (\<lambda>i. VI8 (word_of_int i)) bs"
| "ldec_value TI16 bs = ldec_int (\<lambda>i. VI16 (word_of_int i)) bs"
| "ldec_value TI32 bs = ldec_int (\<lambda>i. VI32 (word_of_int i)) bs"
| "ldec_value TI64 bs = ldec_int (\<lambda>i. VI64 (word_of_int i)) bs"
| "ldec_value TStr bs = map_option (\<lambda>(ns, r). (VStr (map lean_char ns), r)) (ldec_list dec_nat_opt bs)"
| "ldec_value TBytes bs = map_option (\<lambda>(x, r). (VBytes x, r)) (ldec_bytes bs)"
| "ldec_value (TOpt t) bs = map_option (\<lambda>(x, r). (VOpt x, r)) (ldec_opt (ldec_value t) bs)"
| "ldec_value (TRes ok err) bs = map_option (\<lambda>(s, r). (case s of Inl x \<Rightarrow> VOk x | Inr e \<Rightarrow> VErr e, r))
     (ldec_sum (ldec_value ok) (ldec_value err) bs)"
| "ldec_value (TList t) bs = map_option (\<lambda>(xs, r). (VList xs, r)) (ldec_list (ldec_value t) bs)"

fun lenc_row :: "field list \<Rightarrow> val list \<Rightarrow> bytes" where
  "lenc_row (f # fs) (v # vs) = lenc_value (fty f) v @ lenc_row fs vs"
| "lenc_row _ _ = []"

fun ldec_row :: "field list \<Rightarrow> val list ldec" where
  "ldec_row [] bs = Some ([], bs)"
| "ldec_row (f # fs) bs = (case ldec_value (fty f) bs of
       None \<Rightarrow> None
     | Some (v, r) \<Rightarrow> (case ldec_row fs r of None \<Rightarrow> None | Some (vs, r2) \<Rightarrow> Some (v # vs, r2)))"

section \<open>Numbers\<close>

lemma enc_nat_unat: "enc_nat (unat v) = enc_varnat (v :: u64)"
  using enc_nat_varnat [of "unat v"] unsigned_less [of v, where 'a = nat] by simp

text \<open>The total decoder reads the digits up to the last, or all there are.\<close>

lemma dec_nat_eq:
  "dec_nat bs = (leb_value (take (length (takeWhile continues bs) + 1) bs), drop (length (takeWhile continues bs) + 1) bs)"
proof (induction bs)
  case (Cons b bs)
  have "unat b < 256" using unsigned_less [of b, where 'a = nat] by simp
  then have "\<not> unat b < 128 \<Longrightarrow> unat b mod 128 = unat b - 128"
    by (simp add: le_mod_geq)
  moreover have "continues b \<longleftrightarrow> \<not> unat b < 128" by (simp add: word_le_nat_alt not_less)
  ultimately show ?case
    using Cons.IH by simp
qed simp

lemma lean_zigzag_unzigzag: "lean_zigzag (lean_unzigzag n) = n"
proof (cases "n mod 2 = 0")
  case True
  then have "2 * int (n div 2) = int n" by presburger
  with True show ?thesis by (simp add: lean_zigzag_def lean_unzigzag_def)
next
  case False
  then have "2 * (int (n div 2) + 1) - 1 = int n" by presburger
  with False show ?thesis by (simp add: lean_zigzag_def lean_unzigzag_def)
qed

lemma sint_small: "uint (w :: i64) < 2 ^ 63 \<Longrightarrow> sint w = uint w"
  by (auto simp: sint_uint intro!: signed_take_bit_int_eq_self order_trans [OF _ uint_ge_0])

lemma sint_unzigzag: "sint (unzigzag n) = lean_unzigzag (unat n)"
proof -
  have h: "uint (drop_bit 1 n) = int (unat n div 2)"
    by (simp add: drop_bit_Suc zdiv_int uint_div)
  moreover have "int (unat n div 2) < 2 ^ 63"
    using unsigned_less [of n, where 'a = nat] by simp
  ultimately have s: "sint (drop_bit 1 n) = int (unat n div 2)"
    using sint_small [of "drop_bit 1 n"] by simp
  have par: "bit n 0 \<longleftrightarrow> unat n mod 2 \<noteq> 0"
    using unat_mod [of n 2] by (simp add: bit_0 even_iff_mod_2_eq_zero flip: unsigned_eq_0_iff [where 'a = nat])
  have neg: "sint (NOT (drop_bit 1 n)) = - (int (unat n div 2) + 1)"
    using s sint_ge [of "drop_bit 1 n"] sint_lt [of "drop_bit 1 n"]
    by (simp add: signed_not_eq not_int_def signed_take_bit_int_eq_self)
  show ?thesis
    using s neg par by (simp add: unzigzag_eq lean_unzigzag_def)
qed

lemma unat_zigzag: "unat (zigzag i) = lean_zigzag (sint i)"
  using sint_unzigzag [of "zigzag i"] lean_zigzag_unzigzag [of "unat (zigzag i)"]
  by (simp add: unzigzag_zigzag)

lemma sint_scast_up [simp]:
  "sint (scast (x :: i8) :: i64) = sint x"
  "sint (scast (y :: i16) :: i64) = sint y"
  "sint (scast (z :: i32) :: i64) = sint z"
  by (simp_all add: sint_up_scast is_up)

lemma enc_nat_zigzag: "enc_nat (lean_zigzag (sint i)) = enc_varnat (zigzag i)"
  using enc_nat_unat [of "zigzag i"] by (simp add: unat_zigzag)

lemma enc_nat_zigzag_up:
  "enc_nat (lean_zigzag (sint (x :: i8))) = enc_varnat (zigzag (scast x))"
  "enc_nat (lean_zigzag (sint (y :: i16))) = enc_varnat (zigzag (scast y))"
  "enc_nat (lean_zigzag (sint (z :: i32))) = enc_varnat (zigzag (scast z))"
  using enc_nat_zigzag [of "scast x"] enc_nat_zigzag [of "scast y"] enc_nat_zigzag [of "scast z"] by simp_all

lemma enc_nat_up:
  "enc_nat (unat (x :: u16)) = enc_varnat (ucast x)"
  "enc_nat (unat (y :: u32)) = enc_varnat (ucast y)"
  using enc_nat_unat [of "ucast x"] enc_nat_unat [of "ucast y"] by simp_all

section \<open>The encoders agree\<close>

lemma lenc_list_eq:
  "length xs < 2 ^ 63 \<Longrightarrow> (\<And>x. x \<in> set xs \<Longrightarrow> f x = g x) \<Longrightarrow>
    lenc_list f xs = enc_varnat (word_of_nat (length xs)) @ concat (map g xs)"
  using enc_nat_varnat [of "length xs"] by (simp add: lenc_list_def cong: map_cong)

lemma lenc_value_eq: "typed t v \<Longrightarrow> lenc_value t v = enc_value t v"
proof (induction t arbitrary: v)
  case (TList t)
  then show ?case
    by (auto simp: typed_def list_all_iff intro!: lenc_list_eq split: val.splits)
next
  case TStr
  then obtain s where v: "v = VStr s" "length s < 2 ^ 63" by (auto simp: typed_def str_ok_def split: val.splits)
  have "lenc_list enc_nat (map unat s) = lenc_list (\<lambda>c. enc_nat (unat c)) s"
    by (simp add: lenc_list_def comp_def)
  with v show ?case using lenc_list_eq [of s "\<lambda>c. enc_nat (unat c)"] by (simp add: enc_nat_up)
qed (auto simp: typed_def lenc_bool_def enc_bool_def enc_nat_up enc_nat_unat enc_nat_zigzag enc_nat_zigzag_up
    lenc_bytes_def enc_bytes_def enc_nat_varnat lenc_opt_def lenc_sum_def split: val.splits option.splits)

lemma lenc_row_eq:
  "list_all2 (\<lambda>f v. typed (fty f) v) fs vs \<Longrightarrow> lenc_row fs vs = enc_fields fs vs"
  by (induction fs vs rule: list_all2_induct) (simp_all add: lenc_value_eq)

section \<open>The decoders agree\<close>

lemma ldec_below_enc:
  "n < bound \<Longrightarrow> ldec_below bound mk (enc_nat n @ rest) = Some (mk n, rest)"
  by (simp add: ldec_below_def dec_enc_nat)

lemma lean_unzigzag_zigzag: "lean_unzigzag (lean_zigzag (sint (i :: i64))) = sint i"
  using sint_unzigzag [of "zigzag i"] by (simp add: unzigzag_zigzag unat_zigzag)

lemma ldec_int_enc:
  "ldec_int mk (enc_nat (lean_zigzag (sint (i :: i64))) @ rest) = Some (mk (sint i), rest)"
  by (simp add: ldec_int_def dec_enc_nat lean_unzigzag_zigzag)

lemma ldec_int_enc_up:
  "ldec_int mk (enc_nat (lean_zigzag (sint (x :: i8))) @ rest) = Some (mk (sint x), rest)"
  "ldec_int mk (enc_nat (lean_zigzag (sint (y :: i16))) @ rest) = Some (mk (sint y), rest)"
  "ldec_int mk (enc_nat (lean_zigzag (sint (z :: i32))) @ rest) = Some (mk (sint z), rest)"
  using ldec_int_enc [of mk "scast x"] ldec_int_enc [of mk "scast y"] ldec_int_enc [of mk "scast z"] by simp_all

lemma unat_small:
  "unat (x :: u16) < 2 ^ 16" "unat (y :: u32) < 2 ^ 32" "unat (z :: u64) < 2 ^ 64"
  using unsigned_less [of x, where 'a = nat] unsigned_less [of y, where 'a = nat] unsigned_less [of z, where 'a = nat]
  by simp_all

lemma lean_char_unat: "is_scalar c \<Longrightarrow> lean_char (unat c) = c"
  by (auto simp: lean_char_def is_scalar_def)

lemma ldec_lenc_value: "typed t v \<Longrightarrow> ldec_value t (lenc_value t v @ rest) = Some (v, rest)"
proof (induction t arbitrary: v rest)
  case (TList t)
  then show ?case
    by (auto simp: typed_def list_all_iff intro!: ldec_list_roundtrip split: val.splits)
next
  case TStr
  then obtain s where v: "v = VStr s" "list_all is_scalar s" by (auto simp: typed_def str_ok_def split: val.splits)
  have "ldec_list dec_nat_opt (lenc_list enc_nat (map unat s) @ rest) = Some (map unat s, rest)"
    by (rule ldec_list_roundtrip) (rule natc.roundtrip, simp)
  moreover have "map (\<lambda>c. lean_char (unat c)) s = s"
    using v(2) by (induction s) (simp_all add: lean_char_unat)
  ultimately show ?case using v(1) by (simp add: comp_def)
qed (use unat_small in \<open>auto simp: typed_def lenc_bool_def ldec_bool_def ldec_u8_def lenc_opt_def ldec_opt_def
    lenc_sum_def ldec_sum_def ldec_below_enc ldec_int_enc ldec_int_enc_up lbytesc.roundtrip
    split: val.splits option.splits\<close>)

lemma ldec_lenc_row:
  "list_all2 (\<lambda>f v. typed (fty f) v) fs vs \<Longrightarrow> ldec_row fs (lenc_row fs vs @ rest) = Some (vs, rest)"
  by (induction fs vs rule: list_all2_induct) (simp_all add: ldec_lenc_value)

interpretation leanrow: lawful_codec "lenc_row (sfields s)" "ldec_row (sfields s)"
    "\<lambda>vs. row_ok s \<lparr>row_values = vs\<rparr>" for s
  by unfold_locales (simp add: row_ok_def ldec_lenc_row)

text \<open>C8: The Rust row codec is the mirror of the Lean one that it promises to be: for every
  schema and every well-formed row the two encoders write the same bytes; the Lean decoder reads a row
  the Rust encoder wrote, and the Rust decoder a row the Lean encoder wrote, each back to the
  row and leaving exactly the bytes that follow.\<close>

theorem mirror_exact:
  assumes "row_ok s r"
  shows "enc_row s r = lenc_row (sfields s) (row_values r) \<and>
    ldec_row (sfields s) (enc_row s r @ rest) = Some (row_values r, rest) \<and>
    dec_row s (lenc_row (sfields s) (row_values r) @ rest) = Inr (r, length (enc_row s r))"
proof -
  have a: "enc_row s r = lenc_row (sfields s) (row_values r)"
    using assms by (simp add: enc_row_def row_ok_def lenc_row_eq)
  moreover have "row_ok s \<lparr>row_values = row_values r\<rparr>" using assms by (simp add: row_ok_def)
  ultimately show ?thesis
    using leanrow.roundtrip [of s "row_values r" rest] rowc.roundtrip [OF assms, of rest] by simp
qed

theorem mirror_exact_witness:
  "ldec_row [\<lparr>fname = str ''k'', fty = TI64\<rparr>, \<lparr>fname = str ''v'', fty = TList (TOpt TStr)\<rparr>]
     (enc_row \<lparr>sfields = [\<lparr>fname = str ''k'', fty = TI64\<rparr>, \<lparr>fname = str ''v'', fty = TList (TOpt TStr)\<rparr>]\<rparr>
        \<lparr>row_values = [VI64 (- 3), VList [VOpt None, VOpt (Some (VStr (str ''ab'')))]]\<rparr> @ [7])
   = Some ([VI64 (- 3), VList [VOpt None, VOpt (Some (VStr (str ''ab'')))]], [7])"
proof -
  have "row_ok \<lparr>sfields = [\<lparr>fname = str ''k'', fty = TI64\<rparr>, \<lparr>fname = str ''v'', fty = TList (TOpt TStr)\<rparr>]\<rparr>
      \<lparr>row_values = [VI64 (- 3), VList [VOpt None, VOpt (Some (VStr (str ''ab'')))]]\<rparr>"
    by (simp add: row_ok_def typed_def str_ok_def str_def is_scalar_def)
  from mirror_exact [OF this, of "[7]"] show ?thesis
    unfolding schema.select_convs row.select_convs by blast
qed

section \<open>Numbers on every input\<close>

text \<open>The two number decoders on every input, which the documentation calls equal on well-formed bytes
  and different only on a number cut short: where the Rust decoder gives a number it is Lean's, modulo 2^64,
  and both leave the same rest; where it reports a torn number Lean has consumed the whole input and
  padded it with zeros; and it reports corruption just for an eleventh digit.\<close>

theorem varint_mirror:
  "case dec_varnat bs of
     Inr (v, u) \<Rightarrow> v = word_of_nat (fst (dec_nat bs)) \<and> drop u bs = snd (dec_nat bs)
   | Inl Torn \<Rightarrow> dec_nat bs = (leb_value bs, []) \<and> list_all continues bs
   | Inl Corrupt \<Rightarrow> 10 < length bs \<and> list_all continues (take 10 bs)"
proof -
  let ?k = "length (takeWhile continues bs)"
  have all: "?k = length bs \<Longrightarrow> list_all continues bs"
    by (metis list_all_iff set_takeWhileD takeWhile_eq_take take_all order_refl)
  have ten: "10 \<le> ?k \<Longrightarrow> list_all continues (take 10 bs)"
  proof -
    assume "10 \<le> ?k"
    then have "take 10 bs = take 10 (takeWhile continues bs)"
      using takeWhile_eq_take [of continues bs] by (metis min.absorb1 take_take)
    then show ?thesis by (auto simp: list_all_iff dest!: in_set_takeD set_takeWhileD)
  qed
  consider (corrupt) "10 \<le> ?k" "10 < length bs" | (torn) "\<not> (10 \<le> ?k \<and> 10 < length bs)" "?k = length bs"
    | (number) "\<not> (10 \<le> ?k \<and> 10 < length bs)" "?k \<noteq> length bs" by blast
  then show ?thesis
  proof cases
    case corrupt
    then show ?thesis using ten by (simp add: dec_varnat_eq varnat_spec_def VARNAT_MAX_BYTES_def)
  next
    case torn
    then show ?thesis
      using all [OF torn(2)] dec_nat_eq [of bs]
      by (simp only: dec_varnat_eq varnat_spec_def VARNAT_MAX_BYTES_def Let_def if_False if_True) simp
  next
    case number
    then show ?thesis
      by (simp only: dec_varnat_eq varnat_spec_def VARNAT_MAX_BYTES_def Let_def if_False if_True) (simp add: dec_nat_eq)
  qed
qed

text \<open>So the accept sets differ on bytes that are not cut short: a ten-byte number past 2^64 is a Rust
  \<open>u64\<close> and none in Lean.\<close>

lemma dec_nat_zeros: "d < 128 \<Longrightarrow> dec_nat (replicate n 128 @ [d]) = (128 ^ n * unat d, [])"
  by (induction n) (simp_all add: word_less_nat_alt)

lemma overflow_reads_apart:
  assumes "2 \<le> d" "d < 128"
  shows "(\<exists>v. dec_value TU64 (replicate 9 128 @ [d]) = Inr (VU64 v, 10)) \<and>
    ldec_value TU64 (replicate 9 128 @ [d]) = None"
proof -
  have d: "2 \<le> unat d" "unat d < 128" using assms by (simp_all add: word_le_nat_alt word_less_nat_alt)
  have tw: "length (takeWhile continues (replicate 9 128 @ [d])) = 9"
    using assms by (simp add: takeWhile_append not_le)
  have "ldec_value TU64 (replicate 9 128 @ [d]) = None"
    unfolding ldec_value.simps ldec_below_def dec_nat_zeros [OF assms(2)] using d by simp
  moreover have "dec_varnat (replicate 9 128 @ [d]) = Inr (word_of_nat (leb_value (replicate 9 128 @ [d])), 10)"
    unfolding dec_varnat_eq varnat_spec_def VARNAT_MAX_BYTES_def tw Let_def by simp
  ultimately show ?thesis
    unfolding dec_value.simps by simp
qed

end
