(* ===== verification/WarmStart.thy ===== *)
theory WarmStart
  imports RuntimeTheorems Guest
begin

text \<open>
  The warm start of a swapped component (\<open>crates/guestlang-host/examples/warm_start_event_log.rs\<close>),
  where the parts of the host and of the guest side meet: a router holds the current component
  runtime and counts the successful routes, the calls before a swap are kept in an event log,
  and replaying the log into the new instance restores its state.

  The state of a run is the shared engine, the router and the clock: how many intervals of the
  engine's threads pass before the next operation.  The first component is the demo component,
  the second the counting middleware of \<open>Guest\<close> around it.  A run ends well, with an error of
  the runtime, or with a panic, which every failed assertion is.
\<close>

section \<open>The router\<close>

record 'i router =
  ro_current :: "'i component_runtime option"
  ro_served :: u64

record 'i run_state =
  rs_clock :: "nat list"
  rs_engine :: host_engine
  rs_router :: "'i router"

datatype run_fault = RunError host_fault | RunPanic string

definition router_new :: "'i router" where
  "router_new = \<lparr>ro_current = None, ro_served = 0\<rparr>"

definition pass_time :: "'i run_state \<Rightarrow> 'i run_state" where
  "pass_time w = (case rs_clock w of
       [] \<Rightarrow> w
     | k # ks \<Rightarrow> w\<lparr>rs_clock := ks, rs_engine := (tick ^^ k) (rs_engine w)\<rparr>)"

definition run_then :: "('e + 'a) \<times> 's \<Rightarrow> ('a \<Rightarrow> 's \<Rightarrow> ('e + 'b) \<times> 's) \<Rightarrow> ('e + 'b) \<times> 's" where
  "run_then p f = (case p of (Inl e, s) \<Rightarrow> (Inl e, s) | (Inr x, s) \<Rightarrow> f x s)"

text \<open>Installing a component hands back the runtime it replaces; a failed start installs nothing.\<close>

definition router_swap :: "('c, 'i) wasmtime \<Rightarrow> 'c \<Rightarrow> 'i run_state \<Rightarrow> (run_fault + 'i component_runtime option) \<times> 'i run_state" where
  "router_swap wt c w = (case runtime_new wt (rs_engine w) CAP_NONE of
       Inl e \<Rightarrow> (Inl (RunError e), w)
     | Inr rt \<Rightarrow>
         let w1 = pass_time w in
         (case instantiate wt c (rs_engine w1, rt) of
            (Inl e, en, _) \<Rightarrow> (Inl (RunError e), w1\<lparr>rs_engine := en\<rparr>)
          | (Inr _, en, rt') \<Rightarrow>
              (Inr (ro_current (rs_router w1)),
               w1\<lparr>rs_engine := en, rs_router := (rs_router w1)\<lparr>ro_current := Some rt'\<rparr>\<rparr>)))"

definition router_route :: "('c, 'i) wasmtime \<Rightarrow> string \<Rightarrow> wval list \<Rightarrow> 'i run_state \<Rightarrow> (run_fault + wval list) \<times> 'i run_state" where
  "router_route wt func args w =
     (let w1 = pass_time w; ro = rs_router w1 in
      case ro_current ro of
        None \<Rightarrow> (Inl (RunPanic ''router: no runtime installed''), w1)
      | Some rt \<Rightarrow> (case rt_call wt func args (rs_engine w1, rt) of (out, en, rt') \<Rightarrow>
          let ro1 = ro\<lparr>ro_current := Some rt'\<rparr> in
          (case out of
             Inl e \<Rightarrow> (Inl (RunError e), w1\<lparr>rs_engine := en, rs_router := ro1\<rparr>)
           | Inr vs \<Rightarrow>
               if ro_served ro1 = - 1 then (Inl (RunPanic ''attempt to add with overflow''), w1\<lparr>rs_engine := en, rs_router := ro1\<rparr>)
               else (Inr vs, w1\<lparr>rs_engine := en, rs_router := ro1\<lparr>ro_served := ro_served ro1 + 1\<rparr>\<rparr>))))"

section \<open>The event log\<close>

text \<open>An entry: function, argument, result.\<close>

type_synonym event = "string \<times> u64 \<times> u64"

definition u64_of :: "string \<Rightarrow> wval list \<Rightarrow> run_fault + u64" where
  "u64_of msg vs = (case vs of
       [] \<Rightarrow> Inl (RunPanic ''index out of bounds'')
     | v # _ \<Rightarrow> (case v of WU64 x \<Rightarrow> Inr x | _ \<Rightarrow> Inl (RunPanic msg)))"

fun log_calls :: "('c, 'i) wasmtime \<Rightarrow> u64 list \<Rightarrow> event list \<Rightarrow> 'i run_state \<Rightarrow> (run_fault + event list) \<times> 'i run_state" where
  "log_calls wt [] log w = (Inr log, w)"
| "log_calls wt (n # ns) log w =
     run_then (router_route wt ''double'' [WU64 n] w) (\<lambda>r w.
     run_then (u64_of ''v1 double returned non-u64'' r, w) (\<lambda>x w.
       log_calls wt ns (log @ [(''double'', n, x)]) w))"

fun replay_log :: "('c, 'i) wasmtime \<Rightarrow> event list \<Rightarrow> 'i run_state \<Rightarrow> (run_fault + unit) \<times> 'i run_state" where
  "replay_log wt [] w = (Inr (), w)"
| "replay_log wt ((func, n, expected) # log) w =
     run_then (router_route wt func [WU64 n] w) (\<lambda>r w.
     run_then (u64_of ''replay returned non-u64'' r, w) (\<lambda>x w.
       if x \<noteq> expected then (Inl (RunPanic ''diverged from the logged result''), w)
       else replay_log wt log w))"

definition run_assert :: "string \<Rightarrow> bool \<Rightarrow> 's \<Rightarrow> (run_fault + unit) \<times> 's" where
  "run_assert msg b w = (if b then Inr () else Inl (RunPanic msg), w)"

text \<open>\<open>matches!(&r[0], Val::U64(n))\<close>, and the assertion on it.\<close>

definition assert_first :: "string \<Rightarrow> u64 \<Rightarrow> wval list \<Rightarrow> 's \<Rightarrow> (run_fault + unit) \<times> 's" where
  "assert_first msg n vs w = (case vs of
       [] \<Rightarrow> (Inl (RunPanic ''index out of bounds''), w)
     | v # _ \<Rightarrow> run_assert msg (v = WU64 n) w)"

section \<open>The run\<close>

definition served_is :: "string \<Rightarrow> u64 \<Rightarrow> 'i run_state \<Rightarrow> (run_fault + unit) \<times> 'i run_state" where
  "served_is msg n w = run_assert msg (ro_served (rs_router w) = n) w"

text \<open>The phases of \<open>main\<close>: the logged calls, the swap with its replay, the swap without one.\<close>

definition serve_logged :: "('c, 'i) wasmtime \<Rightarrow> 'c \<Rightarrow> 'i run_state \<Rightarrow> (run_fault + event list) \<times> 'i run_state" where
  "serve_logged wt v1 w =
     run_then (router_swap wt v1 w) (\<lambda>_ w.
     run_then (log_calls wt [21, 3] [] w) (\<lambda>log w.
     run_then (served_is ''the log covers both v1 routes'' 2 w) (\<lambda>_ w.
     run_then (run_assert ''the host's event log = the pre-swap history'' (log = [(''double'', 21, 42), (''double'', 3, 6)]) w) (\<lambda>_ w.
       (Inr log, w)))))"

definition swap_warm :: "('c, 'i) wasmtime \<Rightarrow> 'c \<Rightarrow> event list \<Rightarrow> 'i run_state \<Rightarrow> (run_fault + unit) \<times> 'i run_state" where
  "swap_warm wt v2 log w =
     run_then (router_swap wt v2 w) (\<lambda>old w.
     run_then (case old of None \<Rightarrow> Inl (RunPanic ''v1 runtime'') | Some _ \<Rightarrow> Inr (), w) (\<lambda>_ w.
     run_then (replay_log wt log w) (\<lambda>_ w.
     run_then (router_route wt ''calls'' [] w) (\<lambda>r w.
     run_then (assert_first ''the replayed history must show in v2's state'' 2 r w) (\<lambda>_ w.
       served_is ''2 pre-swap + 2 replay + 1 probe'' 5 w)))))"

definition swap_cold :: "('c, 'i) wasmtime \<Rightarrow> 'c \<Rightarrow> 'i run_state \<Rightarrow> (run_fault + unit) \<times> 'i run_state" where
  "swap_cold wt v2 w =
     run_then (router_swap wt v2 w) (\<lambda>_ w.
     run_then (router_route wt ''calls'' [] w) (\<lambda>r w.
     run_then (assert_first ''no replay = state lost (fresh heap per instance)'' 0 r w) (\<lambda>_ w.
       served_is ''host state survives both swaps'' 6 w)))"

definition warm_start :: "('c, 'i) wasmtime \<Rightarrow> 'c \<Rightarrow> 'c \<Rightarrow> 'i run_state \<Rightarrow> (run_fault + unit) \<times> 'i run_state" where
  "warm_start wt v1 v2 w =
     run_then (serve_logged wt v1 w) (\<lambda>log w.
     run_then (swap_warm wt v2 log w) (\<lambda>_ w. swap_cold wt v2 w))"

text \<open>
  \<open>main\<close>: without the two artifacts the run is skipped.  \<open>load\<close> reads a component, \<open>fresh\<close> is the
  engine or its configuration error.
\<close>

definition V1_PATH :: string where
  "V1_PATH = ''../../lean/wasm-backend/artifact/demo.component.wasm''"

definition V2_PATH :: string where
  "V2_PATH = ''../../target/spliced-mw/spliced-mw.component.wasm''"

definition warm_main :: "(string \<Rightarrow> bool) \<Rightarrow> host_fault + host_engine \<Rightarrow> (string \<Rightarrow> host_fault + 'c) \<Rightarrow> ('c, 'i) wasmtime \<Rightarrow> nat list \<Rightarrow>
    run_fault + unit" where
  "warm_main present fresh load wt clock =
     (if filter (\<lambda>p. \<not> present p) [V1_PATH, V2_PATH] \<noteq> [] then Inr ()
      else and_then (map_err RunError fresh) (\<lambda>en.
           and_then (map_err RunError (load V1_PATH)) (\<lambda>v1.
           and_then (map_err RunError (load V2_PATH)) (\<lambda>v2.
             fst (warm_start wt v1 v2 \<lparr>rs_clock = clock, rs_engine = en, rs_router = router_new\<rparr>)))))"


section \<open>Runs without a panic\<close>

text \<open>Either the run stops on an error of the runtime, or it goes on with a value and a state of the given kind.\<close>

definition run_yields :: "(run_fault + 'a) \<times> 's \<Rightarrow> ('a \<Rightarrow> 's \<Rightarrow> bool) \<Rightarrow> bool" where
  "run_yields p Q \<longleftrightarrow> (case p of
       (Inr x, s) \<Rightarrow> Q x s
     | (Inl (RunError _), _) \<Rightarrow> True
     | (Inl (RunPanic _), _) \<Rightarrow> False)"

lemma run_yields_simps [simp]:
  "run_yields (Inr x, s) Q = Q x s" "run_yields (Inl (RunError e), s) Q" "\<not> run_yields (Inl (RunPanic msg), s) Q"
  by (simp_all add: run_yields_def)

lemma run_then_simps [simp]:
  "run_then (Inr x, s) f = f x s" "run_then (Inl e, s) f = (Inl e, s)"
  by (simp_all add: run_then_def)

lemma run_yieldsE:
  assumes "run_yields p Q"
  obtains x s where "p = (Inr x, s)" "Q x s" | e s where "p = (Inl (RunError e), s)"
  using assms by (auto simp: run_yields_def split: prod.splits sum.splits run_fault.splits)

lemma run_yields_then:
  "run_yields p Q \<Longrightarrow> (\<And>x s. Q x s \<Longrightarrow> run_yields (f x s) R) \<Longrightarrow> run_yields (run_then p f) R"
  by (erule run_yieldsE) simp_all

lemma run_yields_mono: "run_yields p Q \<Longrightarrow> (\<And>x s. Q x s \<Longrightarrow> R x s) \<Longrightarrow> run_yields p R"
  by (erule run_yieldsE) simp_all

lemma run_assert_yields [simp]:
  "run_yields (run_assert msg b w) Q \<longleftrightarrow> b \<and> Q () w"
  by (simp add: run_assert_def)

lemma served_is_yields [simp]:
  "run_yields (served_is msg n w) Q \<longleftrightarrow> ro_served (rs_router w) = n \<and> Q () w"
  by (simp add: served_is_def)

lemma u64_of_simps [simp]: "u64_of msg [WU64 x] = Inr x"
  by (simp add: u64_of_def)

lemma assert_first_yields [simp]:
  "run_yields (assert_first msg n [WU64 x] w) Q \<longleftrightarrow> x = n \<and> Q () w"
  by (simp add: assert_first_def)

section \<open>The two components on the engine\<close>

datatype 's guest = Direct 's | Counted "'s middleware"

definition guest_double :: "('h, 's) inner \<Rightarrow> u64 \<Rightarrow> 's guest \<Rightarrow> u64 option \<times> 's guest" where
  "guest_double inn x g = (case g of
       Direct s \<Rightarrow> apsnd Direct (in_double inn x s)
     | Counted m \<Rightarrow> apsnd Counted (mw_double inn x m))"

text \<open>
  What the run relies on of the engine: an instance is new, and a call that does not fail is
  the guest's own export on that instance.  Calls may fail for any reason: a trap, the fuel, the epoch.
\<close>

definition double_law :: "('c, 's guest) wasmtime \<Rightarrow> ('h, 's) inner \<Rightarrow> bool" where
  "double_law wt inn \<longleftrightarrow> (\<forall>e d fuel g x slots vs g' fuel'. wt_call wt e d fuel g ''double'' [WU64 x] slots = (Inr vs, g', fuel') \<longrightarrow>
     (\<exists>y. guest_double inn x g = (Some y, g') \<and> vs = [WU64 y]))"

definition calls_law :: "('c, 's guest) wasmtime \<Rightarrow> bool" where
  "calls_law wt \<longleftrightarrow> (\<forall>e d fuel m slots vs g' fuel'. wt_call wt e d fuel (Counted m) ''calls'' [] slots = (Inr vs, g', fuel') \<longrightarrow>
     vs = [WU64 (fst (mw_calls_export m))] \<and> g' = Counted (snd (mw_calls_export m)))"

definition serves :: "('c, 's guest) wasmtime \<Rightarrow> ('h, 's) inner \<Rightarrow> 's \<Rightarrow> 'c \<Rightarrow> 'c \<Rightarrow> bool" where
  "serves wt inn s0 v1 v2 \<longleftrightarrow>
     (\<forall>g. wt_results wt g ''double'' = Some [RU64]) \<and>
     (\<forall>m. wt_results wt (Counted m) ''calls'' = Some [RU64]) \<and>
     (\<forall>e d fuel i. fst (wt_instantiate wt e d fuel v1) = Inr i \<longrightarrow> i = Direct s0) \<and>
     (\<forall>e d fuel i. fst (wt_instantiate wt e d fuel v2) = Inr i \<longrightarrow> i = Counted \<lparr>mw_calls = 0, mw_inner = s0\<rparr>) \<and>
     double_law wt inn \<and> calls_law wt"

text \<open>The answers of the demo component do not depend on its state (\<open>DemoFn.lean\<close>: the sum of the argument with itself).\<close>

definition answers_by :: "('h, 's) inner \<Rightarrow> (u64 \<Rightarrow> u64) \<Rightarrow> bool" where
  "answers_by inn f \<longleftrightarrow> (\<forall>x s y s'. in_double inn x s = (Some y, s') \<longrightarrow> y = f x)"

text \<open>The router serves the instance \<open>g\<close> from a runtime built at the epoch \<open>e0\<close>, after \<open>n\<close> successful routes.\<close>

definition serving :: "nat \<Rightarrow> 's guest \<Rightarrow> u64 \<Rightarrow> 's guest run_state \<Rightarrow> bool" where
  "serving e0 g n w \<longleftrightarrow> ro_served (rs_router w) = n \<and> e0 \<le> he_epoch (rs_engine w) \<and>
     (\<exists>rt. ro_current (rs_router w) = Some rt \<and> cr_instance rt = Some g \<and> cr_deadline rt = Suc e0)"

lemma tick_pow: "he_epoch ((tick ^^ k) en) = he_epoch en + k * he_threads en \<and> he_threads ((tick ^^ k) en) = he_threads en"
  by (induction k) (simp_all add: tick_def)

lemma pass_time_simps:
  "rs_router (pass_time w) = rs_router w" "he_epoch (rs_engine w) \<le> he_epoch (rs_engine (pass_time w))"
  by (simp_all add: pass_time_def tick_pow split: list.split)

lemma swap_yields:
  assumes "\<And>e d fuel i. fst (wt_instantiate wt e d fuel c) = Inr i \<Longrightarrow> i = g0"
  shows "run_yields (router_swap wt c w) (\<lambda>old w'. old = ro_current (rs_router w) \<and>
    serving (he_epoch (rs_engine w)) g0 (ro_served (rs_router w)) w')"
proof (cases "runtime_new wt (rs_engine w) CAP_NONE")
  case (Inr rt)
  then have d: "cr_deadline rt = Suc (he_epoch (rs_engine w))"
    by (auto simp: runtime_new_def Let_def result_simps)
  obtain r en rt' where i: "instantiate wt c (rs_engine (pass_time w), rt) = (r, en, rt')"
    by (rule prod_cases3)
  show ?thesis
  proof (cases r)
    case (Inr u)
    then obtain j where "cr_instance rt' = Some j" "\<exists>e d fuel. fst (wt_instantiate wt e d fuel c) = Inr j"
      using i by (auto simp: instantiate_def Let_def split: prod.splits sum.splits) (metis fst_conv)
    then show ?thesis
      using Inr \<open>runtime_new _ _ _ = _\<close> i d assms instantiate_keeps [OF i] pass_time_simps [of w]
      by (auto simp: router_swap_def serving_def)
  qed (use Inr i in \<open>simp add: router_swap_def\<close>)
qed (simp add: router_swap_def)

text \<open>A successful route is the call of the instance, before the deadline.\<close>

lemma route_yields:
  assumes "serving e0 g n w" "n \<noteq> - 1" "epoch_law wt" "wt_results wt g func = Some [RU64]"
    and call: "\<And>e d fuel slots vs g' fuel'. wt_call wt e d fuel g func args slots = (Inr vs, g', fuel') \<Longrightarrow> Q vs g'"
  shows "run_yields (router_route wt func args w) (\<lambda>vs w'. \<exists>g'. Q vs g' \<and> serving e0 g' (n + 1) w' \<and> he_epoch (rs_engine w') = e0)"
proof -
  obtain rt where rt: "ro_current (rs_router w) = Some rt" "cr_instance rt = Some g" "cr_deadline rt = Suc e0"
    "ro_served (rs_router w) = n" "e0 \<le> he_epoch (rs_engine w)"
    using assms(1) by (auto simp: serving_def)
  obtain out en rt' where o: "rt_call wt func args (rs_engine (pass_time w), rt) = (out, en, rt')"
    by (rule prod_cases3)
  show ?thesis
  proof (cases out)
    case (Inr vs)
    have en: "en = rs_engine (pass_time w)" "cr_deadline rt' = Suc e0"
      using rt_call_keeps [OF o] rt(3) by simp_all
    have "he_epoch en < Suc e0"
      using expired_call [OF assms(3), of rt "rs_engine (pass_time w)" func args] o Inr rt(3) en(1) by (force simp: not_le [symmetric])
    then have "he_epoch en = e0"
      using en(1) pass_time_simps(2) [of w] rt(5) by simp
    moreover obtain g' where "cr_instance rt' = Some g'" "Q vs g'"
      using o Inr rt(2) assms(4) call
      by (auto simp: rt_call_def Let_def map_err_def split: prod.splits sum.splits option.splits)
    ultimately show ?thesis
      using Inr o rt assms(2) en pass_time_simps [of w] by (auto simp: router_route_def Let_def serving_def)
  next
    case (Inl e)
    then show ?thesis
      using o rt(1) pass_time_simps(1) [of w] by (simp add: router_route_def Let_def)
  qed
qed


text \<open>What the inner component's own history of doubles does to its state, and what it does to an instance: the middleware
  counts the calls and hands them on.\<close>

definition inner_after :: "('h, 's) inner \<Rightarrow> u64 list \<Rightarrow> 's \<Rightarrow> 's" where
  "inner_after inn xs s = snd (run_calls (inner_step inn) (map CallDouble xs) s)"

definition guest_after :: "('h, 's) inner \<Rightarrow> u64 list \<Rightarrow> 's guest \<Rightarrow> 's guest" where
  "guest_after inn xs g = (case g of
       Direct s \<Rightarrow> Direct (inner_after inn xs s)
     | Counted m \<Rightarrow> Counted \<lparr>mw_calls = mw_calls m + word_of_nat (length xs), mw_inner = inner_after inn xs (mw_inner m)\<rparr>)"

lemma inner_after_simps [simp]:
  "inner_after inn [] s = s" "inner_after inn (x # xs) s = inner_after inn xs (snd (in_double inn x s))"
  by (simp_all add: inner_after_def inner_step_def apfst_def map_prod_def split: prod.split)

lemma guest_after_Nil [simp]: "guest_after inn [] g = g"
  by (simp add: guest_after_def split: guest.split)

lemma guest_after_Cons: "guest_after inn (x # xs) g = guest_after inn xs (guest_after inn [x] g)"
  by (simp add: guest_after_def add.assoc split: guest.split)

lemma guest_double_after:
  "guest_double inn x g = (Some y, g') \<Longrightarrow> answers_by inn f \<Longrightarrow> y = f x \<and> g' = guest_after inn [x] g"
  by (auto simp: guest_double_def answers_by_def guest_after_def mw_double_def mw_count_def Let_def apsnd_def map_prod_def
      split: guest.splits prod.splits)

lemma room_step:
  fixes n :: u64
  assumes "unat n + Suc k < 2 ^ 64"
  shows "n \<noteq> - 1" "unat (n + 1) + k < 2 ^ 64"
proof -
  have "unat (n + 1) = unat n + 1"
    using assms by (simp add: unat_word_ariths)
  then show "unat (n + 1) + k < 2 ^ 64" using assms by simp
  show "n \<noteq> - 1" using \<open>unat (n + 1) = unat n + 1\<close> by auto
qed

lemma double_yields:
  assumes "serves wt inn s0 v1 v2" "answers_by inn f" "epoch_law wt" "serving e0 g n w" "n \<noteq> - 1"
  shows "run_yields (router_route wt ''double'' [WU64 x] w)
    (\<lambda>vs w'. vs = [WU64 (f x)] \<and> serving e0 (guest_after inn [x] g) (n + 1) w' \<and> he_epoch (rs_engine w') = e0)"
proof (rule run_yields_mono [OF route_yields])
  show "wt_results wt g ''double'' = Some [RU64]" using assms(1) by (simp add: serves_def)
  show "vs = [WU64 (f x)] \<and> g' = guest_after inn [x] g"
    if call: "wt_call wt e d fuel g ''double'' [WU64 x] slots = (Inr vs, g', fuel')" for e d fuel slots vs g' fuel'
  proof -
    obtain y where "guest_double inn x g = (Some y, g')" "vs = [WU64 y]"
      using assms(1) call unfolding serves_def double_law_def by blast
    then show ?thesis using guest_double_after assms(2) by blast
  qed
qed (use assms in auto)

lemma calls_yields:
  assumes "serves wt inn s0 v1 v2" "epoch_law wt" "serving e0 (Counted m) n w" "n \<noteq> - 1"
  shows "run_yields (router_route wt ''calls'' [] w)
    (\<lambda>vs w'. vs = [WU64 (mw_calls m)] \<and> serving e0 (Counted m) (n + 1) w' \<and> he_epoch (rs_engine w') = e0)"
proof (rule run_yields_mono [OF route_yields])
  show "wt_results wt (Counted m) ''calls'' = Some [RU64]" using assms(1) by (simp add: serves_def)
  show "vs = [WU64 (mw_calls m)] \<and> g' = Counted m"
    if "wt_call wt e d fuel (Counted m) ''calls'' [] slots = (Inr vs, g', fuel')" for e d fuel slots vs g' fuel'
    using assms(1) that unfolding serves_def calls_law_def mw_calls_export_def prod.sel by blast
qed (use assms in auto)

lemma log_calls_yields:
  assumes "serves wt inn s0 v1 v2" "answers_by inn f" "epoch_law wt"
  shows "serving e0 g n w \<Longrightarrow> unat n + length ns < 2 ^ 64 \<Longrightarrow> run_yields (log_calls wt ns log w)
    (\<lambda>log' w'. log' = log @ map (\<lambda>x. (''double'', x, f x)) ns \<and> (ns \<noteq> [] \<longrightarrow> he_epoch (rs_engine w') = e0) \<and>
      serving e0 (guest_after inn ns g) (n + word_of_nat (length ns)) w')"
proof (induction ns arbitrary: g n w log)
  case Nil
  then show ?case by (auto intro!: exI [of _ g])
next
  case (Cons x ns)
  note room = room_step [of n "length ns"]
  show ?case
    unfolding log_calls.simps
  proof (rule run_yields_then [OF double_yields [OF assms Cons.prems(1)]])
    show "n \<noteq> - 1" using Cons.prems(2) room(1) by simp
    fix vs w'
    assume vs: "vs = [WU64 (f x)] \<and> serving e0 (guest_after inn [x] g) (n + 1) w' \<and> he_epoch (rs_engine w') = e0"
    then have g': "serving e0 (guest_after inn [x] g) (n + 1) w'" by blast
    have "run_yields (log_calls wt ns (log @ [(''double'', x, f x)]) w')
        (\<lambda>log' w'. log' = (log @ [(''double'', x, f x)]) @ map (\<lambda>x. (''double'', x, f x)) ns \<and> (ns \<noteq> [] \<longrightarrow> he_epoch (rs_engine w') = e0) \<and>
          serving e0 (guest_after inn ns (guest_after inn [x] g)) (n + 1 + word_of_nat (length ns)) w')"
      using Cons.IH [OF g', of "log @ [(''double'', x, f x)]"] Cons.prems(2) room(2) by simp
    then show "run_yields (run_then (u64_of ''v1 double returned non-u64'' vs, w')
        (\<lambda>y. log_calls wt ns (log @ [(''double'', x, y)])))
        (\<lambda>log' w'. log' = log @ map (\<lambda>x. (''double'', x, f x)) (x # ns) \<and> (x # ns \<noteq> [] \<longrightarrow> he_epoch (rs_engine w') = e0) \<and>
          serving e0 (guest_after inn (x # ns) g) (n + word_of_nat (length (x # ns))) w')"
      using vs guest_after_Cons [of inn x ns g]
      by (cases ns) (auto simp: add.assoc elim!: run_yields_mono)
  qed
qed

lemma replay_log_yields:
  assumes "serves wt inn s0 v1 v2" "answers_by inn f" "epoch_law wt"
  shows "serving e0 g n w \<Longrightarrow> unat n + length ns < 2 ^ 64 \<Longrightarrow>
    run_yields (replay_log wt (map (\<lambda>x. (''double'', x, f x)) ns) w)
      (\<lambda>_ w'. serving e0 (guest_after inn ns g) (n + word_of_nat (length ns)) w')"
proof (induction ns arbitrary: g n w)
  case Nil
  then show ?case by (auto intro!: exI [of _ g])
next
  case (Cons x ns)
  note room = room_step [of n "length ns"]
  show ?case
    unfolding list.map replay_log.simps
  proof (rule run_yields_then [OF double_yields [OF assms Cons.prems(1)]])
    show "n \<noteq> - 1" using Cons.prems(2) room(1) by simp
    fix vs w'
    assume vs: "vs = [WU64 (f x)] \<and> serving e0 (guest_after inn [x] g) (n + 1) w' \<and> he_epoch (rs_engine w') = e0"
    then have g': "serving e0 (guest_after inn [x] g) (n + 1) w'" by blast
    have "run_yields (replay_log wt (map (\<lambda>x. (''double'', x, f x)) ns) w')
        (\<lambda>_ w'. serving e0 (guest_after inn ns (guest_after inn [x] g)) (n + 1 + word_of_nat (length ns)) w')"
      using Cons.IH [OF g'] Cons.prems(2) room(2) by simp
    then show "run_yields (run_then (u64_of ''replay returned non-u64'' vs, w')
        (\<lambda>y w'. if y \<noteq> f x then (Inl (RunPanic ''diverged from the logged result''), w')
          else replay_log wt (map (\<lambda>x. (''double'', x, f x)) ns) w'))
        (\<lambda>_ w'. serving e0 (guest_after inn (x # ns) g) (n + word_of_nat (length (x # ns))) w')"
      using vs guest_after_Cons [of inn x ns g] by (auto simp: add.assoc elim!: run_yields_mono)
  qed
qed


lemma serving_simps: "serving e0 g n w \<Longrightarrow> ro_served (rs_router w) = n \<and> (\<exists>rt. ro_current (rs_router w) = Some rt)"
  by (auto simp: serving_def)

lemma serves_swap:
  assumes "serves wt inn s0 v1 v2"
  shows "run_yields (router_swap wt v1 w) (\<lambda>old w'. old = ro_current (rs_router w) \<and>
      serving (he_epoch (rs_engine w)) (Direct s0) (ro_served (rs_router w)) w')"
    and "run_yields (router_swap wt v2 w) (\<lambda>old w'. old = ro_current (rs_router w) \<and>
      serving (he_epoch (rs_engine w)) (Counted \<lparr>mw_calls = 0, mw_inner = s0\<rparr>) (ro_served (rs_router w)) w')"
proof -
  show "run_yields (router_swap wt v1 w) (\<lambda>old w'. old = ro_current (rs_router w) \<and>
      serving (he_epoch (rs_engine w)) (Direct s0) (ro_served (rs_router w)) w')"
    using assms by (intro swap_yields) (simp add: serves_def)
  show "run_yields (router_swap wt v2 w) (\<lambda>old w'. old = ro_current (rs_router w) \<and>
      serving (he_epoch (rs_engine w)) (Counted \<lparr>mw_calls = 0, mw_inner = s0\<rparr>) (ro_served (rs_router w)) w')"
    using assms by (intro swap_yields) (simp add: serves_def)
qed

section \<open>The warm start\<close>

text \<open>C16: Replay is state carry-over.  Let the router serve the demo component in any state and log any sequence of
  calls, swap in the counting middleware and replay the log.  The run may stop on an error of the runtime, but it never panics:
  every replayed result is the logged one.  When it gets through, the old instance was left in the state its calls lead to,
  the new one started with the component's initial state and a zero counter, and is left with exactly the state the same calls
  lead to from the initial one (so the state the old instance had, if the log covers its whole life) and the number of logged
  calls on its counter; the router's own count includes both rounds.\<close>

theorem replay_restores:
  assumes "serves wt inn s0 v1 v2" "answers_by inn f" "epoch_law wt"
    and "serving e0 (Direct s) n w" "unat n + 2 * length ns < 2 ^ 64"
  shows "run_yields (run_then (log_calls wt ns [] w) (\<lambda>log w1. run_then (router_swap wt v2 w1) (\<lambda>_ w2.
      run_then (replay_log wt log w2) (\<lambda>_ w3. (Inr (log, w1, w2), w3)))))
    (\<lambda>(log, w1, w2) w3. log = map (\<lambda>x. (''double'', x, f x)) ns \<and>
      serving e0 (Direct (inner_after inn ns s)) (n + word_of_nat (length ns)) w1 \<and>
      (\<exists>e1. serving e1 (Counted \<lparr>mw_calls = 0, mw_inner = s0\<rparr>) (n + word_of_nat (length ns)) w2 \<and>
        serving e1 (Counted \<lparr>mw_calls = word_of_nat (length ns), mw_inner = inner_after inn ns s0\<rparr>)
          (n + 2 * word_of_nat (length ns)) w3))"
proof (rule run_yields_then [OF log_calls_yields [OF assms(1-4)]])
  let ?k = "word_of_nat (length ns) :: u64" and ?log = "map (\<lambda>x. (''double'', x, f x)) ns"
  let ?post = "\<lambda>(log, w1, w2) w3. log = ?log \<and> serving e0 (Direct (inner_after inn ns s)) (n + ?k) w1 \<and>
    (\<exists>e1. serving e1 (Counted \<lparr>mw_calls = 0, mw_inner = s0\<rparr>) (n + ?k) w2 \<and>
      serving e1 (Counted \<lparr>mw_calls = ?k, mw_inner = inner_after inn ns s0\<rparr>) (n + 2 * ?k) w3)"
  show "unat n + length ns < 2 ^ 64" using assms(5) by simp
  have room: "unat (n + ?k) + length ns < 2 ^ 64"
    using assms(5) by (simp add: unat_word_ariths unat_of_nat)
  fix log w1
  assume "log = [] @ ?log \<and> (ns \<noteq> [] \<longrightarrow> he_epoch (rs_engine w1) = e0) \<and> serving e0 (guest_after inn ns (Direct s)) (n + ?k) w1"
  then have log: "log = ?log" and w1: "serving e0 (Direct (inner_after inn ns s)) (n + ?k) w1"
    by (simp_all add: guest_after_def)
  show "run_yields (run_then (router_swap wt v2 w1) (\<lambda>_ w2. run_then (replay_log wt log w2) (\<lambda>_ w3. (Inr (log, w1, w2), w3)))) ?post"
  proof (rule run_yields_then [OF serves_swap(2) [OF assms(1)]])
    fix old w2
    assume "old = ro_current (rs_router w1) \<and>
      serving (he_epoch (rs_engine w1)) (Counted \<lparr>mw_calls = 0, mw_inner = s0\<rparr>) (ro_served (rs_router w1)) w2"
    then have w2: "serving (he_epoch (rs_engine w1)) (Counted \<lparr>mw_calls = 0, mw_inner = s0\<rparr>) (n + ?k) w2"
      using serving_simps [OF w1] by simp
    show "run_yields (run_then (replay_log wt log w2) (\<lambda>_ w3. (Inr (log, w1, w2), w3))) ?post"
      using w1 w2 unfolding log
      by (intro run_yields_then [OF replay_log_yields [OF assms(1-3) w2 room]])
        (auto simp: guest_after_def algebra_simps)
  qed
qed

text \<open>C15: The whole run, on an engine whose calls may fail at any time.  No assertion of the run can fail: the log is the
  history, the replay agrees with it, the counter reads two after it and zero on the instance that was not warmed, the served count is
  continuous across both swaps.  A clean end leaves the cold instance installed with six routes served, and means that not one
  increment of the engine's epoch happened during the run, whose three runtimes live one increment each.\<close>

theorem warm_start_run:
  assumes "serves wt inn s0 v1 v2" "answers_by inn (\<lambda>x. x + x)" "epoch_law wt" "rs_router w = router_new"
  shows "case warm_start wt v1 v2 w of
      (Inl (RunPanic _), _) \<Rightarrow> False
    | (Inl (RunError _), _) \<Rightarrow> True
    | (Inr _, w') \<Rightarrow> serving (he_epoch (rs_engine w)) (Counted \<lparr>mw_calls = 0, mw_inner = s0\<rparr>) 6 w' \<and>
        he_epoch (rs_engine w') = he_epoch (rs_engine w)"
proof -
  let ?e = "he_epoch (rs_engine w)" and ?f = "\<lambda>x :: u64. x + x"
  have logged: "run_yields (serve_logged wt v1 w)
      (\<lambda>log w1. log = map (\<lambda>x. (''double'', x, ?f x)) [21, 3] \<and> he_epoch (rs_engine w1) = ?e \<and> (\<exists>g. serving ?e g 2 w1))"
    unfolding serve_logged_def
  proof (rule run_yields_then [OF serves_swap(1) [OF assms(1)]])
    fix old w1
    assume "old = ro_current (rs_router w) \<and> serving ?e (Direct s0) (ro_served (rs_router w)) w1"
    then have w1: "serving ?e (Direct s0) 0 w1"
      using assms(4) by (simp add: router_new_def)
    show "run_yields (run_then (log_calls wt [21, 3] [] w1) (\<lambda>log w. run_then (served_is ''the log covers both v1 routes'' 2 w) (\<lambda>_ w.
        run_then (run_assert ''the host's event log = the pre-swap history'' (log = [(''double'', 21, 42), (''double'', 3, 6)]) w) (\<lambda>_ w.
          (Inr log, w)))))
      (\<lambda>log w1. log = map (\<lambda>x. (''double'', x, ?f x)) [21, 3] \<and> he_epoch (rs_engine w1) = ?e \<and> (\<exists>g. serving ?e g 2 w1))"
      by (rule run_yields_then [OF log_calls_yields [OF assms(1-3) w1]])
        (auto simp: served_is_def run_assert_def dest: serving_simps)
  qed
  have warm: "run_yields (swap_warm wt v2 (map (\<lambda>x. (''double'', x, ?f x)) [21, 3]) w1)
      (\<lambda>_ w2. he_epoch (rs_engine w2) = ?e \<and> (\<exists>g. serving ?e g 5 w2))"
    if w1: "he_epoch (rs_engine w1) = ?e" "serving ?e g 2 w1" for w1 g
    unfolding swap_warm_def
  proof (rule run_yields_then [OF serves_swap(2) [OF assms(1)]], goal_cases)
    case (1 old w2)
    then have w2: "serving ?e (Counted \<lparr>mw_calls = 0, mw_inner = s0\<rparr>) 2 w2" "\<exists>rt. old = Some rt"
      using w1 serving_simps [OF w1(2)] by auto
    have replayed: "run_yields (replay_log wt (map (\<lambda>x. (''double'', x, ?f x)) [21, 3]) w2)
        (\<lambda>_ w3. \<exists>m. mw_calls m = 2 \<and> serving ?e (Counted m) 4 w3)"
      by (rule run_yields_mono [OF replay_log_yields [OF assms(1-3) w2(1)]])
        (simp_all add: guest_after_def exI [of _ "\<lparr>mw_calls = 2, mw_inner = inner_after inn [21, 3] s0\<rparr>"])
    obtain rt where old: "old = Some rt" using w2(2) by blast
    show ?case
      unfolding old option.case run_then_simps
    proof (rule run_yields_then [OF replayed], elim exE conjE, goal_cases)
      case (1 _ w3 m)
      show ?case
        by (rule run_yields_then [OF calls_yields [OF assms(1,3) 1(2)]]) (use 1(1) in \<open>auto simp: assert_first_def run_assert_def dest: serving_simps\<close>)
    qed
  qed
  have cold: "run_yields (swap_cold wt v2 w2)
      (\<lambda>_ w3. serving ?e (Counted \<lparr>mw_calls = 0, mw_inner = s0\<rparr>) 6 w3 \<and> he_epoch (rs_engine w3) = ?e)"
    if "he_epoch (rs_engine w2) = ?e" "serving ?e g 5 w2" for w2 g
    unfolding swap_cold_def
    using that serving_simps [OF that(2)]
    by (intro run_yields_then [OF serves_swap(2) [OF assms(1)]] run_yields_then [OF calls_yields [OF assms(1,3)]])
      (auto simp: assert_first_def run_assert_def dest: serving_simps)
  have "run_yields (warm_start wt v1 v2 w)
      (\<lambda>_ w'. serving ?e (Counted \<lparr>mw_calls = 0, mw_inner = s0\<rparr>) 6 w' \<and> he_epoch (rs_engine w') = ?e)"
    unfolding warm_start_def
    by (rule run_yields_then [OF logged], elim conjE exE, hypsubst)
      (rule run_yields_then [OF warm], assumption+, elim conjE exE, rule cold)
  then show ?thesis by (simp add: run_yields_def)
qed


text \<open>The two components on an engine that runs them until the deadline; the state of this inner component is the sum of its arguments.\<close>

definition warm_inner :: "(unit, u64) inner" where
  "warm_inner = \<lparr>in_double = (\<lambda>x s. (Some (x + x), s + x)), in_is_big = (\<lambda>x s. (Some (100 < x), s)), in_watch_counts = (\<lambda>_ s. (Some (), s))\<rparr>"

definition warm_engine :: "(bool, u64 guest) wasmtime" where
  "warm_engine = \<lparr>wt_flags = \<lparr>dir_READ = 1, dir_MUTATE = 2, file_READ = 1, file_WRITE = 2\<rparr>,
     wt_preopen = (\<lambda>_ _ _ _. Inr ()), wt_set_fuel = (\<lambda>_. Inr ()), wt_link = Inr (), wt_exports = (\<lambda>_. []),
     wt_instantiate = (\<lambda>_ _ fuel v2. (Inr (if v2 then Counted \<lparr>mw_calls = 0, mw_inner = 0\<rparr> else Direct 0), fuel)),
     wt_results = (\<lambda>_ _. Some [RU64]),
     wt_call = (\<lambda>e d fuel g f args _.
       if d \<le> e then (Inl ''epoch'', g, fuel)
       else if f = ''double'' then (case args of [WU64 x] \<Rightarrow> (case guest_double warm_inner x g of
            (Some y, g') \<Rightarrow> (Inr [WU64 y], g', fuel - 1) | (None, g') \<Rightarrow> (Inl ''trap'', g', fuel)) | _ \<Rightarrow> (Inl ''types'', g, fuel))
       else (case g of Counted m \<Rightarrow> (Inr [WU64 (mw_calls m)], g, fuel - 1) | Direct _ \<Rightarrow> (Inl ''types'', g, fuel)))\<rparr>"

lemma warm_engine_laws:
  "serves warm_engine warm_inner 0 False True" "answers_by warm_inner (\<lambda>x. x + x)" "epoch_law warm_engine"
  by (auto simp: serves_def double_law_def calls_law_def warm_engine_def mw_calls_export_def answers_by_def warm_inner_def epoch_law_def
      split: if_splits option.splits prod.splits)

definition warm_state :: "nat list \<Rightarrow> u64 guest run_state" where
  "warm_state clock = \<lparr>rs_clock = clock, rs_engine = \<lparr>he_epoch = 0, he_threads = 0\<rparr>, rs_router = router_new\<rparr>"

lemmas warm_eval = warm_engine_def warm_inner_def warm_state_def router_new_def pass_time_def tick_def runtime_new_def instantiate_def
  start_epoch_thread_def router_swap_def router_route_def rt_call_def map_err_def guest_double_def mw_double_def mw_count_def Let_def
  wasi_for_def CAP_NONE_def cap_none [unfolded CAP_NONE_def] DEFAULT_FUEL_def

text \<open>The router with the demo component installed, and a history of two calls carried over from it.\<close>

definition warm_installed :: "u64 guest run_state" where
  "warm_installed = snd (router_swap warm_engine False (warm_state []))"

lemma warm_serving: "serving 0 (Direct 0) 0 warm_installed"
  by (simp add: warm_installed_def serving_def warm_eval)

theorem replay_restores_witness:
  "\<exists>w1 w2 w3. run_then (log_calls warm_engine [21, 3] [] warm_installed) (\<lambda>log w1. run_then (router_swap warm_engine True w1) (\<lambda>_ w2.
      run_then (replay_log warm_engine log w2) (\<lambda>_ w3. (Inr (log, w1, w2), w3)))) =
      (Inr ([(''double'', 21, 42), (''double'', 3, 6)], w1, w2), w3) \<and>
    ro_served (rs_router w2) = 2 \<and> ro_served (rs_router w3) = 4 \<and>
    map_option cr_instance (ro_current (rs_router w3)) = Some (Some (Counted \<lparr>mw_calls = 2, mw_inner = 24\<rparr>))"
proof -
  let ?p = "run_then (log_calls warm_engine [21, 3] [] warm_installed) (\<lambda>log w1. run_then (router_swap warm_engine True w1) (\<lambda>_ w2.
      run_then (replay_log warm_engine log w2) (\<lambda>_ w3. (Inr (log, w1, w2), w3))))"
  have "case fst ?p of Inr _ \<Rightarrow> True | Inl _ \<Rightarrow> False"
    by code_simp
  then obtain log w1 w2 w3 where p: "?p = (Inr (log, w1, w2), w3)"
    by (cases ?p) (auto split: sum.splits)
  have "inner_after warm_inner [21, 3] 0 = 24" by (simp add: warm_inner_def)
  then show ?thesis
    using replay_restores [OF warm_engine_laws warm_serving, of "[21, 3]"]
    unfolding p by (fastforce simp: serving_def)
qed

theorem warm_start_run_witness:
  "(\<exists>w'. warm_start warm_engine False True (warm_state []) = (Inr (), w') \<and>
      serving 0 (Counted \<lparr>mw_calls = 0, mw_inner = 0\<rparr>) 6 w' \<and> he_epoch (rs_engine w') = 0) \<and>
    fst (warm_start warm_engine False True (warm_state [0, 1])) = Inl (RunError (EngineFault ''epoch''))"
proof
  have "fst (warm_start warm_engine False True (warm_state [])) = Inr ()"
    by code_simp
  then obtain w' where w': "warm_start warm_engine False True (warm_state []) = (Inr (), w')"
    by (metis prod.collapse)
  have "rs_router (warm_state []) = router_new" "he_epoch (rs_engine (warm_state [])) = 0"
    by (simp_all add: warm_state_def)
  then show "\<exists>w'. warm_start warm_engine False True (warm_state []) = (Inr (), w') \<and>
      serving 0 (Counted \<lparr>mw_calls = 0, mw_inner = 0\<rparr>) 6 w' \<and> he_epoch (rs_engine w') = 0"
    using warm_start_run [OF warm_engine_laws, of "warm_state []"] w' by simp
  show "fst (warm_start warm_engine False True (warm_state [0, 1])) = Inl (RunError (EngineFault ''epoch''))"
    by code_simp
qed

end
