(* ===== verification/Uefi.thy ===== *)
theory Uefi
  imports OsRandomTheorems
begin

text \<open>
  The random number crate on UEFI (\<open>patches/getrandom-0.3.4\<close>): the error codes of the target
  (\<open>error.rs\<close>), which are words of the size of an address with the highest bit for an error of
  the firmware, and \<open>backends/efi_rng.rs\<close>, which looks for a handle whose random number protocol
  works and keeps it.  The width is that of the 64-bit targets.  With this backend all are there, and
  the end of the theory selects among them (\<open>backends.rs\<close>) and shows that each is safe below \<open>lib.rs\<close>.

  The firmware is a parameter: whether a status is an error, the two boot services and the
  protocol.  A pointer is a word, 0 the null pointer; the static \<open>RNG_PROTOCOL\<close> is part of the
  state.  Reading the protocol pointer when the firmware did not write it is undefined behaviour, \<open>None\<close>.
\<close>

section \<open>Error codes\<close>

record uefi_error =
  ue_code :: u64

definition UEFI_ERROR_FLAG :: u64 where
  "UEFI_ERROR_FLAG = push_bit 63 1"

definition uefi_internal :: "u16 \<Rightarrow> uefi_error" where
  "uefi_internal n = \<lparr>ue_code = push_bit 16 1 + ucast n\<rparr>"

definition uefi_custom :: "u16 \<Rightarrow> uefi_error" where
  "uefi_custom n = \<lparr>ue_code = push_bit 17 1 + ucast n\<rparr>"

definition UEFI_UNEXPECTED :: uefi_error where "UEFI_UNEXPECTED = uefi_internal 2"
definition BOOT_SERVICES_UNAVAILABLE :: uefi_error where "BOOT_SERVICES_UNAVAILABLE = uefi_internal 10"
definition NO_RNG_HANDLE :: uefi_error where "NO_RNG_HANDLE = uefi_internal 11"

definition from_uefi_code :: "u64 \<Rightarrow> uefi_error" where
  "from_uefi_code code = (if code AND UEFI_ERROR_FLAG \<noteq> 0 then \<lparr>ue_code = code\<rparr> else UEFI_UNEXPECTED)"

definition uefi_raw_os_error :: "uefi_error \<Rightarrow> u64 option" where
  "uefi_raw_os_error e = (if ue_code e AND UEFI_ERROR_FLAG \<noteq> 0 then Some (ue_code e) else None)"

section \<open>The firmware\<close>

text \<open>
  \<open>locate_handle\<close> is given the size of the array in bytes and returns the size it used and the
  handles it wrote; \<open>open_protocol\<close> returns the pointer it wrote, if any; \<open>get_rng\<close> is a system call of the protocol.
\<close>

record 's firmware =
  fw_is_error :: "u64 \<Rightarrow> bool"
  fw_boot_services :: bool
  fw_locate :: "nat \<Rightarrow> 's \<Rightarrow> (u64 \<times> nat \<times> u64 list) \<times> 's"
  fw_open :: "u64 \<Rightarrow> 's \<Rightarrow> (u64 \<times> u64 option) \<times> 's"
  fw_get_rng :: "u64 \<Rightarrow> nat \<Rightarrow> 's \<Rightarrow> (u64 \<times> bytes) \<times> 's"

record 's efi_process =
  ep_os :: 's
  ep_protocol :: u64

text \<open>The array of sixteen null handles after the call.\<close>

definition handle_array :: "u64 list \<Rightarrow> u64 list" where
  "handle_array hs = take 16 hs @ drop (length hs) (replicate 16 0)"

text \<open>The loop of \<open>init\<close> over the handles: the first whose protocol opens and delivers eight bytes.\<close>

fun try_handles :: "'s firmware \<Rightarrow> u64 list \<Rightarrow> 's \<Rightarrow> ((uefi_error + u64) \<times> 's) option" where
  "try_handles fw [] s = Some (Inl NO_RNG_HANDLE, s)"
| "try_handles fw (h # hs) s = (case fw_open fw h s of ((ret, protocol), s1) \<Rightarrow>
     if fw_is_error fw ret then try_handles fw hs s1
     else (case protocol of
       None \<Rightarrow> None
     | Some p \<Rightarrow>
         if p = 0 then Some (Inl UEFI_UNEXPECTED, s1)
         else (case fw_get_rng fw p 8 s1 of ((ret', _), s2) \<Rightarrow>
           if fw_is_error fw ret' then try_handles fw hs s2 else Some (Inr p, s2))))"

definition efi_init :: "'s firmware \<Rightarrow> 's efi_process \<Rightarrow> ((uefi_error + u64) \<times> 's efi_process) option" where
  "efi_init fw p =
     (if \<not> fw_boot_services fw then Some (Inl BOOT_SERVICES_UNAVAILABLE, p)
      else (case fw_locate fw (16 * 8) (ep_os p) of ((ret, buf_size, hs), s) \<Rightarrow>
        let p1 = p\<lparr>ep_os := s\<rparr> in
        if fw_is_error fw ret then Some (Inl (from_uefi_code ret), p1)
        else if 16 < buf_size div 8 then Some (Inl UEFI_UNEXPECTED, p1)
        else map_option (\<lambda>(r, s'). (r, (case r of
            Inl _ \<Rightarrow> p1\<lparr>ep_os := s'\<rparr>
          | Inr protocol \<Rightarrow> p1\<lparr>ep_os := s', ep_protocol := protocol\<rparr>)))
          (try_handles fw (take (buf_size div 8) (handle_array hs)) s)))"

definition efi_fill :: "'s firmware \<Rightarrow> (uefi_error, 's efi_process) filler_of" where
  "efi_fill fw addr dest p =
     Option.bind (if ep_protocol p \<noteq> 0 then Some (Inr (ep_protocol p), p) else efi_init fw p) (\<lambda>(r, p1).
       case r of
         Inl e \<Rightarrow> Some (Inl e, dest, p1)
       | Inr protocol \<Rightarrow> (case fw_get_rng fw protocol (length dest) (ep_os p1) of ((ret, bs), s) \<Rightarrow>
           Some (if fw_is_error fw ret then Inl (from_uefi_code ret) else Inr (), overwrite bs dest, p1\<lparr>ep_os := s\<rparr>)))"

section \<open>Properties\<close>

text \<open>What the firmware documents: an error status has the highest bit, success writes what was asked for.\<close>

definition firmware_law :: "'s firmware \<Rightarrow> bool" where
  "firmware_law fw \<longleftrightarrow>
     (\<forall>st. fw_is_error fw st \<longleftrightarrow> bit st 63) \<and>
     (\<forall>h s ret p s'. fw_open fw h s = ((ret, p), s') \<longrightarrow> \<not> bit ret 63 \<longrightarrow> p \<noteq> None) \<and>
     (\<forall>p n s ret bs s'. fw_get_rng fw p n s = ((ret, bs), s') \<longrightarrow> \<not> bit ret 63 \<longrightarrow> n \<le> length bs)"

lemma flag_bit: "code AND UEFI_ERROR_FLAG \<noteq> 0 \<longleftrightarrow> bit code 63"
proof -
  have "bit (code AND UEFI_ERROR_FLAG) n \<longleftrightarrow> n = 63 \<and> bit code 63" for n :: nat
    by (auto simp: UEFI_ERROR_FLAG_def bit_simps simp flip: push_bit_of_1)
  then have only: "bit (code AND UEFI_ERROR_FLAG) n \<longleftrightarrow> n = 63 \<and> bit code 63" for n :: nat .
  show ?thesis
  proof
    assume "code AND UEFI_ERROR_FLAG \<noteq> 0"
    then obtain n where "bit (code AND UEFI_ERROR_FLAG) n" by (metis bit_eqI bit_0_eq bot_apply bot_bool_def)
    then show "bit code 63" using only by blast
  next
    assume "bit code 63"
    then have "bit (code AND UEFI_ERROR_FLAG) 63" using only by blast
    then show "code AND UEFI_ERROR_FLAG \<noteq> 0" by (metis bit_0_eq bot_apply bot_bool_def)
  qed
qed

lemma u16_bound: "unat (n :: u16) < 65536"
  by (rule order.strict_trans2 [OF unsigned_less]) simp

lemma uefi_code_small: "unat (ue_code (uefi_internal n)) = 2 ^ 16 + unat n" "unat (ue_code (uefi_custom n)) = 2 ^ 17 + unat n"
proof -
  have "unat (ucast n :: u64) = unat n" "unat n < 2 ^ 16"
    using u16_bound [of n] by (simp_all add: unsigned_ucast_eq take_bit_nat_eq_self)
  then show "unat (ue_code (uefi_internal n)) = 2 ^ 16 + unat n" "unat (ue_code (uefi_custom n)) = 2 ^ 17 + unat n"
    by (simp_all add: uefi_internal_def uefi_custom_def unat_word_ariths)
qed

lemma not_bit_63: "unat (x :: u64) < 2 ^ 63 \<Longrightarrow> \<not> bit x 63"
  using bit_unsigned_iff [of x 63, where ?'a = nat] by (simp add: bit_iff_odd [of "unat x"])

text \<open>The codes of the target: an error made from a status of the firmware reads back as that status exactly when it has the error bit;
  the codes of the crate and the custom codes are never read as the firmware's, and no two of the three ranges meet.\<close>

theorem uefi_codes_apart:
  "uefi_raw_os_error (from_uefi_code code) = (if bit code 63 then Some code else None) \<and>
   uefi_raw_os_error (uefi_internal n) = None \<and> uefi_raw_os_error (uefi_custom n) = None \<and>
   uefi_internal n \<noteq> uefi_custom m \<and> ue_code (uefi_internal n) \<noteq> 0 \<and> ue_code (uefi_custom n) \<noteq> 0 \<and>
   (uefi_internal n = uefi_internal m \<longleftrightarrow> n = m) \<and> (uefi_custom n = uefi_custom m \<longleftrightarrow> n = m)"
proof -
  have "\<not> bit (ue_code (uefi_internal n)) 63" "\<not> bit (ue_code (uefi_custom n)) 63" for n
    using u16_bound [of n] by (auto intro!: not_bit_63 simp: uefi_code_small)
  moreover have "unat (ue_code (uefi_internal n)) \<noteq> unat (ue_code (uefi_custom m))"
    using u16_bound [of n] by (simp add: uefi_code_small)
  moreover have "unat (ue_code (uefi_internal n)) \<noteq> 0" "unat (ue_code (uefi_custom n)) \<noteq> 0"
    by (simp_all add: uefi_code_small)
  moreover have "(uefi_internal n = uefi_internal m \<longleftrightarrow> n = m) \<and> (uefi_custom n = uefi_custom m \<longleftrightarrow> n = m)"
    using uefi_code_small [of n] uefi_code_small [of m] by (metis add_left_cancel word_unat_eq_iff)
  ultimately show ?thesis
    unfolding from_uefi_code_def uefi_raw_os_error_def flag_bit UEFI_UNEXPECTED_def by auto
qed

section \<open>The backend\<close>

lemma firmware_errors: "firmware_law fw \<Longrightarrow> fw_is_error fw st \<longleftrightarrow> bit st 63"
  by (simp add: firmware_law_def)

lemma firmware_opens: "firmware_law fw \<Longrightarrow> fw_open fw h s = ((ret, p), s') \<Longrightarrow> \<not> bit ret 63 \<Longrightarrow> p \<noteq> None"
  unfolding firmware_law_def by blast

lemma firmware_fills: "firmware_law fw \<Longrightarrow> fw_get_rng fw p n s = ((ret, bs), s') \<Longrightarrow> \<not> bit ret 63 \<Longrightarrow> n \<le> length bs"
  unfolding firmware_law_def by blast

text \<open>The errors of the backend: a status of the firmware, or one of the three codes of the crate.\<close>

definition efi_error_ok :: "uefi_error \<Rightarrow> bool" where
  "efi_error_ok e \<longleftrightarrow> uefi_raw_os_error e \<noteq> None \<or> e \<in> {BOOT_SERVICES_UNAVAILABLE, NO_RNG_HANDLE, UEFI_UNEXPECTED}"

text \<open>A protocol that delivered when it was tried.\<close>

definition tried :: "'s firmware \<Rightarrow> u64 \<Rightarrow> bool" where
  "tried fw p \<longleftrightarrow> p \<noteq> 0 \<and> (\<exists>s ret bs s'. fw_get_rng fw p 8 s = ((ret, bs), s') \<and> \<not> fw_is_error fw ret)"

lemma try_handles_result:
  assumes "firmware_law fw"
  shows "\<exists>r s'. try_handles fw hs s = Some (r, s') \<and> (case r of Inl e \<Rightarrow> efi_error_ok e | Inr p \<Rightarrow> tried fw p)"
proof (induction hs arbitrary: s)
  case Nil
  then show ?case by (simp add: efi_error_ok_def)
next
  case (Cons h hs)
  obtain ret protocol s1 where o: "fw_open fw h s = ((ret, protocol), s1)" by (metis surj_pair)
  show ?case
  proof (cases "fw_is_error fw ret")
    case False
    then obtain p where p: "protocol = Some p"
      using firmware_opens [OF assms o] firmware_errors [OF assms] by auto
    obtain ret' bs s2 where g: "fw_get_rng fw p 8 s1 = ((ret', bs), s2)" by (metis surj_pair)
    then have "p \<noteq> 0 \<Longrightarrow> \<not> fw_is_error fw ret' \<Longrightarrow> tried fw p"
      unfolding tried_def by blast
    then show ?thesis using False o p g Cons.IH [of s2] by (auto simp: efi_error_ok_def)
  qed (use o Cons.IH [of s1] in simp)
qed

lemma efi_init_result:
  assumes "firmware_law fw"
  shows "\<exists>r p'. efi_init fw p = Some (r, p') \<and> (case r of
      Inl e \<Rightarrow> efi_error_ok e \<and> ep_protocol p' = ep_protocol p
    | Inr protocol \<Rightarrow> tried fw protocol \<and> ep_protocol p' = protocol)"
proof -
  obtain ret n hs s where l: "fw_locate fw (16 * 8) (ep_os p) = ((ret, n, hs), s)" by (metis surj_pair)
  obtain r s' where t: "try_handles fw (take (n div 8) (handle_array hs)) s = Some (r, s')"
      "case r of Inl e \<Rightarrow> efi_error_ok e | Inr p \<Rightarrow> tried fw p"
    using try_handles_result [OF assms] by blast
  have "fw_is_error fw ret \<Longrightarrow> efi_error_ok (from_uefi_code ret)"
    using uefi_codes_apart [of ret 0 0] firmware_errors [OF assms, of ret] by (simp add: efi_error_ok_def)
  then show ?thesis
    using l t by (cases r) (auto simp: efi_init_def Let_def efi_error_ok_def)
qed

lemma efi_fill_result:
  assumes "firmware_law fw"
  shows "\<exists>r dest' p'. efi_fill fw addr dest p = Some (r, dest', p') \<and> filled dest r dest' \<and>
    (\<forall>e. r = Inl e \<longrightarrow> efi_error_ok e) \<and> (ep_protocol p' = ep_protocol p \<or> ep_protocol p = 0 \<and> tried fw (ep_protocol p'))"
proof -
  define start where "start = (if ep_protocol p \<noteq> 0 then Some (Inr (ep_protocol p), p) else efi_init fw p)"
  obtain r p1 where s: "start = Some (r, p1)" "\<forall>e. r = Inl e \<longrightarrow> efi_error_ok e"
      "ep_protocol p1 = ep_protocol p \<or> ep_protocol p = 0 \<and> tried fw (ep_protocol p1)"
  proof (cases "ep_protocol p = 0")
    case True
    obtain r p' where i: "efi_init fw p = Some (r, p')" "case r of Inl e \<Rightarrow> efi_error_ok e \<and> ep_protocol p' = ep_protocol p
        | Inr protocol \<Rightarrow> tried fw protocol \<and> ep_protocol p' = protocol"
      using efi_init_result [OF assms, of p] by blast
    show ?thesis
      by (rule that [of r p']) (use True i in \<open>auto simp: start_def split: sum.splits\<close>)
  next
    case False
    show ?thesis by (rule that [of "Inr (ep_protocol p)" p]) (use False in \<open>auto simp: start_def\<close>)
  qed
  show ?thesis
  proof (cases r)
    case (Inl e)
    then show ?thesis using s by (auto simp: efi_fill_def filled_def simp flip: start_def)
  next
    case (Inr protocol)
    obtain ret bs t where g: "fw_get_rng fw protocol (length dest) (ep_os p1) = ((ret, bs), t)" by (metis surj_pair)
    have "\<not> fw_is_error fw ret \<Longrightarrow> length dest \<le> length bs"
      using firmware_fills [OF assms g] firmware_errors [OF assms] by blast
    moreover have "fw_is_error fw ret \<Longrightarrow> efi_error_ok (from_uefi_code ret)"
      using uefi_codes_apart [of ret 0 0] firmware_errors [OF assms, of ret] by (simp add: efi_error_ok_def)
    ultimately show ?thesis
      using Inr s g by (auto simp: efi_fill_def intro!: filled_overwrite simp flip: start_def)
  qed
qed

lemma efi_backend: "firmware_law fw \<Longrightarrow> backend (efi_fill fw)"
  by unfold_locales (metis efi_fill_result option.inject prod.inject)

text \<open>The backend for UEFI.  Let the firmware do as documented.  Then filling a buffer always returns, without undefined behaviour and with
  the buffer's length; success initializes every byte; an error carries a status of the firmware, or says that there are no boot services, no
  working handle or an impossible answer.  The kept protocol changes only from none to one that delivered when it was tried.\<close>

theorem efi_fills:
  assumes "firmware_law fw"
  shows "\<exists>r dest' p'. fill_uninit (efi_fill fw) addr dest p = Some (r, dest', p') \<and> length dest' = length dest \<and>
    (case r of Inl e \<Rightarrow> efi_error_ok e | Inr bs \<Rightarrow> dest' = slice_as_uninit bs \<and> length bs = length dest) \<and>
    (ep_protocol p' = ep_protocol p \<or> ep_protocol p = 0 \<and> tried fw (ep_protocol p'))"
proof (cases "dest = []")
  case True
  then show ?thesis by (simp add: backend.fill_uninit_Nil [OF efi_backend [OF assms]] slice_as_uninit_def)
next
  case False
  note contract = efi_backend [OF assms]
  obtain r dest' p' where f: "efi_fill fw addr dest p = Some (r, dest', p')" "filled dest r dest'"
      "\<forall>e. r = Inl e \<longrightarrow> efi_error_ok e" "ep_protocol p' = ep_protocol p \<or> ep_protocol p = 0 \<and> tried fw (ep_protocol p')"
    using efi_fill_result [OF assms] by blast
  have eq: "fill_uninit (efi_fill fw) addr dest p = Some (case r of Inl e \<Rightarrow> Inl e | Inr _ \<Rightarrow> Inr (map the dest'), dest', p')"
    using f(1) backend.fill_uninit_eq [OF contract False, of addr p] by (simp split: sum.split)
  have "r = Inr () \<Longrightarrow> dest' = slice_as_uninit (map the dest') \<and> length (map the dest') = length dest"
    using backend.fill_uninit_Inr [OF contract, of addr dest p "map the dest'" dest' p'] eq by (simp add: slice_as_uninit_def)
  then show ?thesis
    using eq f by (cases r) (auto simp: filled_def)
qed

text \<open>Two handles: the protocol of the first does not open, the second delivers sevens.\<close>

definition demo_firmware :: "unit firmware" where
  "demo_firmware = \<lparr>fw_is_error = (\<lambda>st. bit st 63), fw_boot_services = True, fw_locate = (\<lambda>_ s. ((0, 16, [1, 2]), s)),
     fw_open = (\<lambda>h s. (if h = 1 then (push_bit 63 1, None) else (0, Some h), s)),
     fw_get_rng = (\<lambda>_ n s. ((0, replicate n 7), s))\<rparr>"

lemma demo_firmware_law: "firmware_law demo_firmware"
  by (auto simp: firmware_law_def demo_firmware_def bit_simps split: if_splits)

theorem efi_fills_witness:
  "\<exists>p'. fill_uninit (efi_fill demo_firmware) 5 [None, None, None] \<lparr>ep_os = (), ep_protocol = 0\<rparr> =
      Some (Inr [7, 7, 7], [Some 7, Some 7, Some 7], p') \<and> tried demo_firmware (ep_protocol p')"
proof -
  let ?p = "\<lparr>ep_os = (), ep_protocol = 0\<rparr>"
  have "\<exists>p'. fill_uninit (efi_fill demo_firmware) 5 [None, None, None] ?p = Some (Inr [7, 7, 7], [Some 7, Some 7, Some 7], p') \<and> ep_protocol p' \<noteq> 0"
    by (simp add: fill_uninit_def efi_fill_def efi_init_def demo_firmware_def Let_def handle_array_def bit_simps overwrite_def
        slice_assume_init_def numeral_3_eq_3)
  then show ?thesis
    using efi_fills [OF demo_firmware_law, of 5 "[None, None, None]" ?p] by auto
qed

text \<open>On firmware whose answers do not change, the protocol that is kept is the one of the first handle that works.\<close>

definition handle_works :: "unit firmware \<Rightarrow> u64 \<Rightarrow> bool" where
  "handle_works fw h \<longleftrightarrow> (case fst (fw_open fw h ()) of (ret, p) \<Rightarrow>
     \<not> fw_is_error fw ret \<and> \<not> fw_is_error fw (fst (fst (fw_get_rng fw (the p) 8 ()))))"

theorem efi_first_handle:
  assumes "firmware_law fw" "\<And>h. snd (fst (fw_open fw h ())) \<noteq> Some 0"
  shows "try_handles fw hs () = Some (case find (handle_works fw) hs of
      None \<Rightarrow> Inl NO_RNG_HANDLE | Some h \<Rightarrow> Inr (the (snd (fst (fw_open fw h ())))), ())"
proof (induction hs)
  case (Cons h hs)
  obtain ret protocol where o: "fw_open fw h () = ((ret, protocol), ())" by (metis surj_pair unit.exhaust)
  show ?case
  proof (cases "fw_is_error fw ret")
    case False
    then obtain p where p: "protocol = Some p" "p \<noteq> 0"
      using firmware_opens [OF assms(1) o] firmware_errors [OF assms(1)] assms(2) [of h] o by auto
    then show ?thesis using False o Cons.IH by (auto simp: handle_works_def split: prod.split)
  qed (use o Cons.IH in \<open>simp add: handle_works_def\<close>)
qed simp

section \<open>The selected backend\<close>

text \<open>
  \<open>fill_inner\<close> of the module \<open>backends.rs\<close> names, over the calls of the target and the firmware.
  The two preview backends of WASI have the same code and draw from the process's own sequence;
  the one for UEFI has errors of another type and a state of its own.
\<close>

datatype 's backend_filler =
    OsFill "'s process filler"
  | EfiFill "(uefi_error, 's efi_process) filler_of"

definition backend_fill :: "'s os_calls \<Rightarrow> 's firmware \<Rightarrow> backend_choice \<Rightarrow> 's backend_filler" where
  "backend_fill oc fw b = (let pure = (\<lambda>f addr dest. on_os (f addr dest)) in case b of
       BkCustom \<Rightarrow> OsFill (pure (custom_fill (oc_custom oc)))
     | BkGetrandom \<Rightarrow> OsFill (pure (getrandom_fill (oc_lib oc) (oc_getrandom oc)))
     | BkLinuxRaw \<Rightarrow> OsFill (pure (\<lambda>addr. linux_raw_fill (oc_raw oc)))
     | BkRdrand \<Rightarrow> OsFill (rdrand_fill (oc_feature oc) (oc_cpuid oc) (oc_rdrand oc))
     | BkRndr \<Rightarrow> OsFill (rndr_fill (oc_feature oc) (oc_detected oc) (oc_rndr oc))
     | BkEfiRng \<Rightarrow> EfiFill (efi_fill fw)
     | BkWindowsLegacy \<Rightarrow> OsFill (pure (windows_legacy_fill (oc_rtl oc)))
     | BkWasmJs \<Rightarrow> OsFill (pure (wasm_js_fill (oc_atomics oc) (oc_web oc)))
     | BkUnsupported \<Rightarrow> OsFill (pure unsupported_fill)
     | BkEspIdf \<Rightarrow> OsFill (pure (esp_idf_fill (oc_plain oc)))
     | BkUseFile \<Rightarrow> OsFill (use_file_fill (oc_lib oc) (oc_files oc))
     | BkGetentropy \<Rightarrow> OsFill (pure (getentropy_fill (oc_getentropy oc)))
     | BkLinuxAndroidWithFallback \<Rightarrow> OsFill (fallback_fill (oc_lib oc) (oc_found oc) (oc_getrandom oc) (oc_files oc))
     | BkSolaris \<Rightarrow> OsFill (pure (solaris_fill (oc_solaris oc)))
     | BkNetbsd \<Rightarrow> OsFill (netbsd_fill (oc_lib oc) (oc_found oc) (oc_getrandom oc) (oc_sysctl oc))
     | BkFuchsia \<Rightarrow> OsFill (pure (fuchsia_fill (oc_plain oc)))
     | BkAppleOther \<Rightarrow> OsFill (pure (apple_other_fill (oc_cc oc)))
     | BkWasiP1 \<Rightarrow> OsFill (pure (wasi_p1_fill (oc_random_get oc)))
     | BkWasiP2 \<Rightarrow> OsFill (\<lambda>addr dest p. map_option (\<lambda>(r, d, n). (r, d, p\<lparr>pr_draws := n\<rparr>)) (p2_fill_inner (oc_draws oc) addr dest (pr_draws p)))
     | BkWasiP3 \<Rightarrow> OsFill (\<lambda>addr dest p. map_option (\<lambda>(r, d, n). (r, d, p\<lparr>pr_draws := n\<rparr>)) (p3_fill_inner (oc_draws oc) addr dest (pr_draws p)))
     | BkHermit \<Rightarrow> OsFill (pure (\<lambda>addr dest s. Some (hermit_fill (oc_hermit oc) dest s)))
     | BkVxworks \<Rightarrow> OsFill (vxworks_fill (oc_rand_secure oc) (oc_rand_bytes oc))
     | BkSolid \<Rightarrow> OsFill (pure (solid_fill (oc_solid oc)))
     | BkWindows \<Rightarrow> OsFill (pure (windows_fill (oc_plain oc))))"

lemma os_backends:
  assumes "os_law oc" "backend_fill oc fw b = OsFill f"
  shows "backend f"
  using assms rdrand.backend_axioms rndr.backend_axioms
  by (cases b) (auto simp: backend_fill_def os_law_def p2_eq intro: stateless_backends stateful_backends)

lemma efi_selected: "backend_fill oc fw b = EfiFill f \<Longrightarrow> b = BkEfiRng \<and> f = efi_fill fw"
  by (cases b) (auto simp: backend_fill_def)

text \<open>What the unsafe code of the entry points \<open>fill\<close> and \<open>fill_uninit\<close> of \<open>lib.rs\<close> relies on.\<close>

definition safe_entry :: "('e, 's) filler_of \<Rightarrow> bool" where
  "safe_entry f \<longleftrightarrow>
     (\<forall>addr buf p. rand_fill f addr buf p = None \<longrightarrow> buf \<noteq> [] \<and> f addr (slice_as_uninit buf) p = None) \<and>
     (\<forall>addr buf p r buf' p'. rand_fill f addr buf p = Some (r, buf', p') \<longrightarrow> length buf' = length buf) \<and>
     (\<forall>addr dest p. fill_uninit f addr dest p = None \<longrightarrow> dest \<noteq> [] \<and> f addr dest p = None) \<and>
     (\<forall>addr dest p bs dest' p'. fill_uninit f addr dest p = Some (Inr bs, dest', p') \<longrightarrow>
        dest' = slice_as_uninit bs \<and> length bs = length dest)"

lemma backend_safe_entry: "backend f \<Longrightarrow> safe_entry f"
  unfolding safe_entry_def slice_as_uninit_def
  using backend.rand_fill_None [of f] backend.rand_fill_length [of f] backend.fill_uninit_Inr [of f] backend.fill_uninit_None [of f]
  by blast

text \<open>C24: Every backend keeps the promise the unsafe code above it relies on.  Let the functions and the firmware called do as
  documented.  Then with any backend the cascade can select, UEFI and \<open>rdrand\<close> with words of 32 bits included, a buffer filled by the safe entry
  point keeps its length; the call is undefined or does not return only where the backend itself does not return, which the one for
  UEFI never does, and never for an empty buffer; and the uninitialized buffer of the other entry point is wholly initialized whenever it reports
  success, returning just its bytes.  Results of type \<open>isize\<close> and the words of the firmware are taken with 64 bits, words in memory as little-endian.\<close>

theorem every_backend_fills:
  assumes "os_law oc" "firmware_law fw"
  shows "case backend_fill oc fw b of
      OsFill f \<Rightarrow> b \<noteq> BkEfiRng \<and> safe_entry f
    | EfiFill f \<Rightarrow> b = BkEfiRng \<and> safe_entry f \<and> (\<forall>addr dest p. f addr dest p \<noteq> None)"
proof (cases "backend_fill oc fw b")
  case (OsFill f)
  moreover have "b \<noteq> BkEfiRng" using OsFill by (auto simp: backend_fill_def)
  ultimately show ?thesis using backend_safe_entry [OF os_backends [OF assms(1)]] by simp
next
  case (EfiFill f)
  then show ?thesis
    using backend_safe_entry [OF efi_backend [OF assms(2)]] efi_fill_result [OF assms(2)] efi_selected by fastforce
qed

text \<open>A system all of whose calls succeed with sevens, and whose processor draws 32 bits.\<close>

definition demo_calls :: "unit os_calls" where
  "demo_calls = (let counted = (\<lambda>n s. ((word_of_nat (min n 3), replicate (min n 3) 7, 0), s)); zero = (\<lambda>n s. ((0, replicate n 7, 0), s)) in
     \<lparr>oc_lib = \<lparr>lc_os = ''macos'', lc_EINTR = 4, lc_EPERM = 1, lc_ENOSYS = 78\<rparr>, oc_custom = (\<lambda>n s. ((Inr (), replicate n 7), s)), oc_getrandom = counted, oc_raw = counted, oc_found = True,
      oc_files = \<lparr>fc_open = (\<lambda>path s. ((3, 0), s)), fc_poll = (\<lambda>fd s. ((1, 0), s)), fc_close = (\<lambda>fd s. s), fc_read = (\<lambda>fd. counted)\<rparr>,
      oc_sysctl = (\<lambda>n s. ((0, n, replicate n 7, 0), s)), oc_getentropy = zero, oc_solaris = (\<lambda>n s. ((word_of_nat n, replicate n 7, 0), s)),
      oc_hermit = counted, oc_cc = zero, oc_plain = zero, oc_solid = zero, oc_random_get = zero,
      oc_rtl = (\<lambda>n s. ((1, replicate n 7, 0), s)), oc_web = (\<lambda>n s. ((0, replicate n 7, 0), s)), oc_atomics = False,
      oc_rand_secure = (\<lambda>s. (1, s)), oc_rand_bytes = zero, oc_feature = True, oc_cpuid = (\<lambda>_. \<lparr>cl_eax = 1, cl_ebx = 0, cl_ecx = 0, cl_edx = 0\<rparr>),
      oc_detected = True, oc_rdrand = Step32 (\<lambda>s. ((True, 7), s)), oc_rndr = (\<lambda>s. ((True, 7), s)), oc_draws = (\<lambda>n. 7)\<rparr>)"

lemma demo_counted: "counted_call (\<lambda>n s. ((word_of_nat (min n 3), replicate (min n 3) 7, 0), s))"
proof -
  have "min n 3 < 2 ^ 63" for n :: nat by (simp add: min_def)
  from sint_small_nat [OF this] show ?thesis by (simp add: counted_call_def)
qed

lemma demo_calls_law: "os_law demo_calls"
  using demo_counted
  by (simp add: os_law_def demo_calls_def Let_def custom_law_def sysctl_law_def solaris_law_def writes_all_def)

text \<open>On such a system an uninitialized buffer of six bytes takes two draws of \<open>rdrand\<close>; the firmware above fills it too.\<close>

lemma sevens:
  "word_fill (rdrand (\<lambda>s. ((True, 7 :: u32), s))) (replicate 6 None) s = (True, map Some [7, 0, 0, 0, 7, 0], s)"
proof -
  let ?draw = "rdrand (\<lambda>s. ((True, 7 :: u32), s))"
  have draw: "?draw s = (Some 7, s)" for s :: 'a by (simp add: rdrand_def numeral_eq_Suc)
  have bytes: "le_bytes (7 :: u32) = [7, 0, 0, 0]" by code_simp
  have six: "replicate 6 None = [None, None, None, None, None, None :: u8 option]" by (simp add: numeral_eq_Suc)
  have "word_fill ?draw [None, None] s = (True, [Some 7, Some 0], s)"
    by (subst word_fill.simps) (simp add: draw bytes)
  then show ?thesis
    unfolding six by (subst word_fill.simps) (simp add: draw bytes)
qed

theorem every_backend_fills_witness:
  "(\<exists>f p'. backend_fill demo_calls demo_firmware BkRdrand = OsFill f \<and> safe_entry f \<and>
      f 16 (replicate 6 None) (demo_process () \<lparr>pr_rdrand_good := 1\<rparr>) =
        Some (Inr (), map Some [7, 0, 0, 0, 7, 0], p')) \<and>
    (\<exists>f. backend_fill demo_calls demo_firmware BkEfiRng = EfiFill f \<and> safe_entry f \<and> (\<forall>addr dest p. f addr dest p \<noteq> None))"
proof (rule conjI)
  note fills = every_backend_fills [OF demo_calls_law demo_firmware_law]
  let ?f = "rdrand_fill True (oc_cpuid demo_calls) (Step32 (\<lambda>s. ((True, 7), s)))"
  let ?p = "demo_process () \<lparr>pr_rdrand_good := 1\<rparr>"
  have sel: "backend_fill demo_calls demo_firmware BkRdrand = OsFill ?f" "backend_fill demo_calls demo_firmware BkEfiRng = EfiFill (efi_fill demo_firmware)"
    by (simp_all add: backend_fill_def demo_calls_def Let_def)
  have "rdrand_ready feature cpuid step ?p = (True, ?p)" for feature cpuid and step :: "unit rdrand_step"
    by (simp add: rdrand_ready_def lazy_bool_def lazy_usize_def LAZY_UNINIT_def demo_process_def)
  then have "?f 16 (replicate 6 None) ?p = Some (Inr (), map Some [7, 0, 0, 0, 7, 0], ?p)"
    by (simp add: rdrand_fill_def rdrand_exact_def sevens del: list.map)
  then show "\<exists>f p'. backend_fill demo_calls demo_firmware BkRdrand = OsFill f \<and> safe_entry f \<and>
      f 16 (replicate 6 None) ?p = Some (Inr (), map Some [7, 0, 0, 0, 7, 0], p')"
    using fills [of BkRdrand] unfolding sel(1) backend_filler.case by blast
  show "\<exists>f. backend_fill demo_calls demo_firmware BkEfiRng = EfiFill f \<and> safe_entry f \<and> (\<forall>addr dest p. f addr dest p \<noteq> None)"
    using fills [of BkEfiRng] unfolding sel(2) backend_filler.case by blast
qed

end
