(* ===== verification/RandomEntry.thy ===== *)
theory RandomEntry
  imports Uefi Oci
begin

text \<open>
  What a program sees of \<open>patches/getrandom-0.3.4\<close> beside the buffers: the integer functions of
  \<open>lib.rs\<close> on the selected backend, the text of an error as it is compiled for a target
  (\<open>internal_desc\<close> and \<open>Debug\<close> of \<open>error.rs\<close>), and the build script \<open>build.rs\<close>, which may choose the
  backend.
\<close>

section \<open>Integers\<close>

text \<open>\<open>inner_u32\<close> and \<open>inner_u64\<close> of the module \<open>backends.rs\<close> names; most modules re-export the default ones.
  The functions of Hermit are two parameters more.\<close>

definition on_draws :: "(nat \<Rightarrow> ((rand_error + 'w) \<times> nat) option) \<Rightarrow> 's process \<Rightarrow> ((rand_error + 'w) \<times> 's process) option" where
  "on_draws f p = map_option (\<lambda>(r, n). (r, p\<lparr>pr_draws := n\<rparr>)) (f (pr_draws p))"

text \<open>The errors and the state are those of the backend.\<close>

datatype ('v, 's) backend_int =
    OsInt "'s process \<Rightarrow> ((rand_error + 'v) \<times> 's process) option"
  | EfiInt "'s efi_process \<Rightarrow> ((uefi_error + 'v) \<times> 's efi_process) option"

definition default_int :: "'s backend_filler \<Rightarrow> nat \<Rightarrow> ('w::len word, 's) backend_int" where
  "default_int f addr = (case f of
       OsFill g \<Rightarrow> OsInt (default_inner g addr)
     | EfiFill g \<Rightarrow> EfiInt (default_inner g addr))"

definition backend_u32 :: "'s os_calls \<Rightarrow> 's firmware \<Rightarrow> ('s \<Rightarrow> (i32 \<times> u32) \<times> 's) \<Rightarrow> backend_choice \<Rightarrow> nat \<Rightarrow> (u32, 's) backend_int" where
  "backend_u32 oc fw secure_rand32 b addr = (case b of
       BkRdrand \<Rightarrow> OsInt (rdrand_inner_u32 (oc_feature oc) (oc_cpuid oc) (oc_rdrand oc))
     | BkRndr \<Rightarrow> OsInt (rndr_inner_u32 (oc_feature oc) (oc_detected oc) (oc_rndr oc))
     | BkWasiP2 \<Rightarrow> OsInt (on_draws (p2_inner_u32 (oc_draws oc)))
     | BkWasiP3 \<Rightarrow> OsInt (on_draws (p3_inner_u32 (oc_draws oc)))
     | BkHermit \<Rightarrow> OsInt (\<lambda>p. case hermit_int secure_rand32 (pr_os p) of (r, s) \<Rightarrow> Some (r, p\<lparr>pr_os := s\<rparr>))
     | _ \<Rightarrow> default_int (backend_fill oc fw b) addr)"

definition backend_u64 :: "'s os_calls \<Rightarrow> 's firmware \<Rightarrow> ('s \<Rightarrow> (i32 \<times> u64) \<times> 's) \<Rightarrow> backend_choice \<Rightarrow> nat \<Rightarrow> (u64, 's) backend_int" where
  "backend_u64 oc fw secure_rand64 b addr = (case b of
       BkRdrand \<Rightarrow> OsInt (\<lambda>p. Some (rdrand_inner_u64 (oc_feature oc) (oc_cpuid oc) (oc_rdrand oc) p))
     | BkRndr \<Rightarrow> OsInt (\<lambda>p. Some (rndr_inner_u64 (oc_feature oc) (oc_detected oc) (oc_rndr oc) p))
     | BkWasiP2 \<Rightarrow> OsInt (on_draws (p2_inner_u64 (oc_draws oc)))
     | BkWasiP3 \<Rightarrow> OsInt (on_draws (p3_inner_u64 (oc_draws oc)))
     | BkHermit \<Rightarrow> OsInt (\<lambda>p. case hermit_int secure_rand64 (pr_os p) of (r, s) \<Rightarrow> Some (r, p\<lparr>pr_os := s\<rparr>))
     | _ \<Rightarrow> default_int (backend_fill oc fw b) addr)"

lemma default_inner_None:
  assumes "backend f" "(default_inner f addr p :: (('e + 'w::len word) \<times> 's) option) = None"
  shows "f addr (replicate (LENGTH('w) div 8) None) p = None"
proof -
  let ?dest = "replicate (LENGTH('w) div 8) None"
  show ?thesis
  proof (cases "fill_uninit f addr ?dest p")
    case None
    then show ?thesis using backend.fill_uninit_None [OF assms(1)] by blast
  next
    case (Some y)
    obtain r dest p' where y: "y = (r, dest, p')" by (rule prod_cases3)
    have "r = Inr bs \<Longrightarrow> slice_assume_init dest = Some bs" for bs
      using backend.fill_uninit_Inr [OF assms(1)] Some y by (fastforce simp: slice_assume_init_def)
    then show ?thesis using assms(2) Some y by (cases r) (simp_all add: default_inner_def)
  qed
qed

text \<open>The backends that draw whole words.\<close>

definition draws_words :: "backend_choice \<Rightarrow> bool" where
  "draws_words b \<longleftrightarrow> b \<in> {BkRdrand, BkRndr, BkWasiP2, BkWasiP3}"

lemma rdrand_low_half:
  "rdrand_inner_u32 feature cpuid (Step64 st) p =
    (case rdrand_inner_u64 feature cpuid (Step64 st) p of (r, p') \<Rightarrow> Some (map_sum id ucast r, p'))"
  by (simp add: rdrand_inner_u32_def rdrand_inner_u64_def rdrand_u32_def rdrand_u64_def truncate_u64_low ok_or_def
      split: prod.split option.split)

lemma rdrand_u32_returns: "rdrand_inner_u32 feature cpuid step p \<noteq> None"
proof (cases step)
  case (Step64 st)
  then show ?thesis by (simp add: rdrand_low_half split: prod.split)
next
  case (Step32 st)
  then show ?thesis by (simp add: rdrand_inner_u32_def rdrand_u32_def split: prod.split)
qed

text \<open>Where an integer function returns no result, filling its bytes returns none.\<close>

definition int_undefined_only :: "('w::len word, 's) backend_int \<Rightarrow> 's backend_filler \<Rightarrow> nat \<Rightarrow> bool" where
  "int_undefined_only g f addr = (case g of
       OsInt h \<Rightarrow> (case f of EfiFill _ \<Rightarrow> False | OsFill i \<Rightarrow> \<forall>p. h p = None \<longrightarrow> i addr (replicate (LENGTH('w) div 8) None) p = None)
     | EfiInt h \<Rightarrow> \<forall>p. h p \<noteq> None)"

text \<open>The integer functions.  With any backend and functions that do as documented, asking for an integer is undefined, panics or does
  not return only where filling its bytes does, and never on UEFI, on a backend that draws whole words, nor on Hermit; where whole words of
  64 bits are drawn the 32-bit number is the lower half of what the 64-bit function returns in the same state, with the same draws used, and
  the errors are the same.\<close>

theorem entry_integers:
  assumes "os_law oc" "firmware_law fw"
  shows "int_undefined_only (backend_u32 oc fw h32 b addr) (backend_fill oc fw b) addr \<and>
    int_undefined_only (backend_u64 oc fw h64 b addr) (backend_fill oc fw b) addr \<and>
    (draws_words b \<or> b = BkHermit \<longrightarrow> (\<exists>g32 g64. backend_u32 oc fw h32 b addr = OsInt g32 \<and> backend_u64 oc fw h64 b addr = OsInt g64 \<and>
      (\<forall>p. g32 p \<noteq> None \<and> g64 p \<noteq> None \<and>
        (b \<noteq> BkHermit \<and> (b = BkRdrand \<longrightarrow> (\<exists>st. oc_rdrand oc = Step64 st)) \<longrightarrow>
          g32 p = map_option (\<lambda>(r, p'). (map_sum id ucast r, p')) (g64 p)))))"
proof (cases "draws_words b \<or> b = BkHermit")
  case True
  then have fill: "\<exists>i. backend_fill oc fw b = OsFill i" by (auto simp: draws_words_def backend_fill_def)
  show ?thesis
    using True fill
    by (auto simp: draws_words_def backend_u32_def backend_u64_def int_undefined_only_def on_draws_def p2_eq p3_inner_u32_def
        p3_inner_u64_def get_random_u64_def truncate_u64_low rdrand_u32_returns rdrand_low_half rndr_inner_u32_def
      simp del: not_None_eq split: prod.splits sum.splits)
next
  case False
  then have d: "backend_u32 oc fw h32 b addr = default_int (backend_fill oc fw b) addr"
      "backend_u64 oc fw h64 b addr = default_int (backend_fill oc fw b) addr"
    by (auto simp: draws_words_def backend_u32_def backend_u64_def split: backend_choice.split)
  show ?thesis
  proof (cases "backend_fill oc fw b")
    case (OsFill f)
    note contract = os_backends [OF assms(1) OsFill]
    show ?thesis
      using False default_inner_None [OF contract, of addr, where 'w = 32] default_inner_None [OF contract, of addr, where 'w = 64]
      unfolding d OsFill by (simp add: default_int_def int_undefined_only_def)
  next
    case (EfiFill f)
    have f: "f = efi_fill fw" using efi_selected [OF EfiFill] by simp
    note contract = efi_backend [OF assms(2)]
    have "efi_fill fw addr dest p \<noteq> None" for dest p
      using efi_fill_result [OF assms(2), of addr dest p] by force
    then show ?thesis
      using False default_inner_None [OF contract, of addr, where 'w = 32] default_inner_None [OF contract, of addr, where 'w = 64]
      unfolding d EfiFill f by (simp add: default_int_def int_undefined_only_def del: not_None_eq) blast
  qed
qed

section \<open>The text of an error\<close>

text \<open>The constants each backend declares, with their numbers.\<close>

definition backend_consts :: "backend_choice \<Rightarrow> (string \<times> u16) list" where
  "backend_consts b = (case b of
       BkAppleOther \<Rightarrow> [(''IOS_RANDOM_GEN'', 10)]
     | BkWindowsLegacy \<Rightarrow> [(''WINDOWS_RTL_GEN_RANDOM'', 10)]
     | BkWasmJs \<Rightarrow> [(''WEB_CRYPTO'', 10)]
     | BkVxworks \<Rightarrow> [(''VXWORKS_RAND_SECURE'', 10)]
     | BkRdrand \<Rightarrow> [(''FAILED_RDRAND'', 10), (''NO_RDRAND'', 11)]
     | BkRndr \<Rightarrow> [(''RNDR_FAILURE'', 10), (''RNDR_NOT_AVAILABLE'', 11)]
     | BkEfiRng \<Rightarrow> [(''BOOT_SERVICES_UNAVAILABLE'', 10), (''NO_RNG_HANDLE'', 11)]
     | _ \<Rightarrow> [])"

text \<open>The arms of \<open>internal_desc\<close> that are compiled for a configuration: constant and text.\<close>

definition desc_arms :: "cfg \<Rightarrow> (string \<times> string) list" where
  "desc_arms c =
     [(''UNSUPPORTED'', ''getrandom: this target is not supported''),
      (''ERRNO_NOT_POSITIVE'', ''errno: did not return a positive value''),
      (''UNEXPECTED'', ''unexpected situation'')] @
     (if cfg_os c \<in> {''ios'', ''visionos'', ''watchos'', ''tvos''}
      then [(''IOS_RANDOM_GEN'', ''SecRandomCopyBytes: iOS Security framework failure'')] else []) @
     (if cfg_windows c \<and> cfg_vendor c = ''win7''
      then [(''WINDOWS_RTL_GEN_RANDOM'', ''RtlGenRandom: Windows system function failure'')] else []) @
     (if cfg_wasm_js c \<and> cfg_backend c = Some ''wasm_js''
      then [(''WEB_CRYPTO'', ''Web Crypto API is unavailable'')] else []) @
     (if cfg_os c = ''vxworks''
      then [(''VXWORKS_RAND_SECURE'', ''randSecure: VxWorks RNG module is not initialized'')] else []) @
     (if cfg_backend c = Some ''rdrand'' \<or> cfg_arch c = ''x86_64'' \<and> cfg_env c = ''sgx''
      then [(''FAILED_RDRAND'', ''RDRAND: failed multiple times: CPU issue likely''),
            (''NO_RDRAND'', ''RDRAND: instruction not supported'')] else []) @
     (if cfg_backend c = Some ''rndr''
      then [(''RNDR_FAILURE'', ''RNDR: Could not generate a random number''),
            (''RNDR_NOT_AVAILABLE'', ''RNDR: Register not supported'')] else [])"

definition general_consts :: "(string \<times> u16) list" where
  "general_consts = [(''UNSUPPORTED'', 0), (''ERRNO_NOT_POSITIVE'', 1), (''UNEXPECTED'', 2)]"

text \<open>
  The function compiled for a configuration with its backend: an arm that names a constant
  nobody declares does not compile (\<open>Inl\<close> the name); otherwise the first arm that matches.
\<close>

fun first_arm :: "(string \<times> u16) list \<Rightarrow> (string \<times> string) list \<Rightarrow> rand_error \<Rightarrow> string option" where
  "first_arm consts [] e = None"
| "first_arm consts ((name, text) # arms) e =
     (if map_option new_internal (map_of consts name) = Some e then Some text else first_arm consts arms e)"

definition compiled_desc :: "cfg \<Rightarrow> backend_choice \<Rightarrow> string + (rand_error \<Rightarrow> string option)" where
  "compiled_desc c b = (let consts = general_consts @ backend_consts b in
     case find (\<lambda>(name, _). map_of consts name = None) (desc_arms c) of
       Some (name, _) \<Rightarrow> Inl name
     | None \<Rightarrow> Inr (first_arm consts (desc_arms c)))"

text \<open>\<open>Debug\<close>, without the \<open>std\<close> feature, over the compiled function.\<close>

definition rand_error_debug :: "(rand_error \<Rightarrow> string option) \<Rightarrow> string \<Rightarrow> rand_error \<Rightarrow> string" where
  "rand_error_debug desc target_os e = ''Error { '' @ (case raw_os_error target_os e of
       Some errno \<Rightarrow> ''os_error: '' @ show_i32 errno
     | None \<Rightarrow> (case desc e of
         Some d \<Rightarrow> ''internal_code: '' @ show_i32 (err_code e) @ '', description: '' @ [CHR 0x22] @ d @ [CHR 0x22]
       | None \<Rightarrow> ''unknown_code: '' @ show_i32 (err_code e))) @ '' }''"

text \<open>A target whose arm names the constant of a backend that was not chosen for it.\<close>

definition desc_broken :: "cfg \<Rightarrow> backend_choice \<Rightarrow> bool" where
  "desc_broken c b \<longleftrightarrow>
     cfg_os c \<in> {''ios'', ''visionos'', ''watchos'', ''tvos''} \<and> b \<noteq> BkAppleOther \<or>
     cfg_windows c \<and> cfg_vendor c = ''win7'' \<and> b \<noteq> BkWindowsLegacy \<or>
     cfg_os c = ''vxworks'' \<and> b \<noteq> BkVxworks \<or>
     cfg_arch c = ''x86_64'' \<and> cfg_env c = ''sgx'' \<and> b \<noteq> BkRdrand"

lemma explicit_backend:
  "cfg_backend c = Some ''rdrand'' \<Longrightarrow> backend_for c = Inr BkRdrand"
  "cfg_backend c = Some ''rndr'' \<Longrightarrow> backend_for c = Inr BkRndr"
  "cfg_backend c = Some ''wasm_js'' \<Longrightarrow> cfg_wasm_js c \<Longrightarrow> backend_for c = Inr BkWasmJs"
  by (simp_all add: backend_for_def)

lemma chosen_backend:
  "backend_for c = Inr BkAppleOther \<Longrightarrow> cfg_os c \<in> {''ios'', ''visionos'', ''watchos'', ''tvos''}"
  "backend_for c = Inr BkVxworks \<Longrightarrow> cfg_os c = ''vxworks''"
  "backend_for c = Inr BkRndr \<Longrightarrow> cfg_backend c = Some ''rndr''"
  "backend_for c = Inr BkRdrand \<Longrightarrow> cfg_backend c = Some ''rdrand'' \<or> cfg_arch c = ''x86_64'' \<and> cfg_env c = ''sgx''"
  "backend_for c = Inr BkWasmJs \<Longrightarrow> cfg_wasm_js c"
  unfolding backend_for_def target_backend_def wasi_backend_def
  by (simp_all split: if_splits)

text \<open>Which constants are declared where.\<close>

definition declared :: "backend_choice \<Rightarrow> string \<Rightarrow> u16 option" where
  "declared b = map_of (general_consts @ backend_consts b)"

lemma declared_simps:
  "declared b ''UNSUPPORTED'' = Some 0" "declared b ''ERRNO_NOT_POSITIVE'' = Some 1" "declared b ''UNEXPECTED'' = Some 2"
  "declared b ''IOS_RANDOM_GEN'' = (if b = BkAppleOther then Some 10 else None)"
  "declared b ''WINDOWS_RTL_GEN_RANDOM'' = (if b = BkWindowsLegacy then Some 10 else None)"
  "declared b ''WEB_CRYPTO'' = (if b = BkWasmJs then Some 10 else None)"
  "declared b ''VXWORKS_RAND_SECURE'' = (if b = BkVxworks then Some 10 else None)"
  "declared b ''FAILED_RDRAND'' = (if b = BkRdrand then Some 10 else None)"
  "declared b ''NO_RDRAND'' = (if b = BkRdrand then Some 11 else None)"
  "declared b ''RNDR_FAILURE'' = (if b = BkRndr then Some 10 else None)"
  "declared b ''RNDR_NOT_AVAILABLE'' = (if b = BkRndr then Some 11 else None)"
  by (cases b; simp add: declared_def general_consts_def backend_consts_def)+

lemmas own_consts = IOS_RANDOM_GEN_def WINDOWS_RTL_GEN_RANDOM_def WEB_CRYPTO_def VXWORKS_RAND_SECURE_def FAILED_RDRAND_def
  NO_RDRAND_def RNDR_FAILURE_def RNDR_NOT_AVAILABLE_def UNSUPPORTED_def ERRNO_NOT_POSITIVE_def UNEXPECTED_def

lemma find_SomeD: "find P xs = Some x \<Longrightarrow> x \<in> set xs \<and> P x"
  by (induction xs) (auto split: if_splits)

lemma bex_if: "(\<exists>x \<in> set (if P then xs else []). Q x) \<longleftrightarrow> P \<and> (\<exists>x \<in> set xs. Q x)"
  by auto

lemma arms_ex:
  "(\<exists>(name, text) \<in> set (desc_arms c). Q name) \<longleftrightarrow>
     Q ''UNSUPPORTED'' \<or> Q ''ERRNO_NOT_POSITIVE'' \<or> Q ''UNEXPECTED'' \<or>
     cfg_os c \<in> {''ios'', ''visionos'', ''watchos'', ''tvos''} \<and> Q ''IOS_RANDOM_GEN'' \<or>
     (cfg_windows c \<and> cfg_vendor c = ''win7'') \<and> Q ''WINDOWS_RTL_GEN_RANDOM'' \<or>
     (cfg_wasm_js c \<and> cfg_backend c = Some ''wasm_js'') \<and> Q ''WEB_CRYPTO'' \<or>
     cfg_os c = ''vxworks'' \<and> Q ''VXWORKS_RAND_SECURE'' \<or>
     (cfg_backend c = Some ''rdrand'' \<or> cfg_arch c = ''x86_64'' \<and> cfg_env c = ''sgx'') \<and> (Q ''FAILED_RDRAND'' \<or> Q ''NO_RDRAND'') \<or>
     cfg_backend c = Some ''rndr'' \<and> (Q ''RNDR_FAILURE'' \<or> Q ''RNDR_NOT_AVAILABLE'')"
  unfolding desc_arms_def set_append bex_Un bex_if list.set bex_simps prod.case by blast

lemma arms_undeclared:
  "backend_for c = Inr b \<Longrightarrow> (\<exists>(name, text) \<in> set (desc_arms c). declared b name = None) \<longleftrightarrow> desc_broken c b"
  using explicit_backend [of c]
  unfolding arms_ex declared_simps desc_broken_def by auto

text \<open>The texts the documentation of the constants promises: of the general errors, and of the backends' own.\<close>

definition general_texts :: "(rand_error \<times> string) list" where
  "general_texts = [(UNSUPPORTED, ''getrandom: this target is not supported''),
     (ERRNO_NOT_POSITIVE, ''errno: did not return a positive value''), (UNEXPECTED, ''unexpected situation'')]"

fun own_texts :: "backend_choice \<Rightarrow> (rand_error \<times> string) list" where
  "own_texts BkAppleOther = [(IOS_RANDOM_GEN, ''SecRandomCopyBytes: iOS Security framework failure'')]"
| "own_texts BkWindowsLegacy = [(WINDOWS_RTL_GEN_RANDOM, ''RtlGenRandom: Windows system function failure'')]"
| "own_texts BkWasmJs = [(WEB_CRYPTO, ''Web Crypto API is unavailable'')]"
| "own_texts BkVxworks = [(VXWORKS_RAND_SECURE, ''randSecure: VxWorks RNG module is not initialized'')]"
| "own_texts BkRdrand = [(NO_RDRAND, ''RDRAND: instruction not supported''),
     (FAILED_RDRAND, ''RDRAND: failed multiple times: CPU issue likely'')]"
| "own_texts BkRndr = [(RNDR_NOT_AVAILABLE, ''RNDR: Register not supported''),
     (RNDR_FAILURE, ''RNDR: Could not generate a random number'')]"
| "own_texts _ = []"

definition texts_hidden :: "cfg \<Rightarrow> backend_choice \<Rightarrow> bool" where
  "texts_hidden c b \<longleftrightarrow> b = BkWindowsLegacy \<and> \<not> (cfg_windows c \<and> cfg_vendor c = ''win7'') \<or>
     b = BkWasmJs \<and> cfg_backend c \<noteq> Some ''wasm_js''"

text \<open>Where the chosen backend breaks no arm, the conditions of the arms are those of the backend.\<close>

lemma arms_of_choice:
  assumes "backend_for c = Inr b" "\<not> desc_broken c b"
  shows "cfg_os c \<in> {''ios'', ''visionos'', ''watchos'', ''tvos''} \<longleftrightarrow> b = BkAppleOther"
    "cfg_windows c \<and> cfg_vendor c = ''win7'' \<longleftrightarrow> b = BkWindowsLegacy \<and> \<not> texts_hidden c b"
    "cfg_wasm_js c \<and> cfg_backend c = Some ''wasm_js'' \<longleftrightarrow> b = BkWasmJs \<and> \<not> texts_hidden c b"
    "cfg_os c = ''vxworks'' \<longleftrightarrow> b = BkVxworks"
    "cfg_backend c = Some ''rdrand'' \<or> cfg_arch c = ''x86_64'' \<and> cfg_env c = ''sgx'' \<longleftrightarrow> b = BkRdrand"
    "cfg_backend c = Some ''rndr'' \<longleftrightarrow> b = BkRndr"
proof -
  note ok = assms(2) [unfolded desc_broken_def]
  have iff: "P \<longleftrightarrow> b = k" if "P \<Longrightarrow> b = k" "backend_for c = Inr k \<Longrightarrow> P" for P k
    using that assms(1) by blast
  have same: "b = k" if "backend_for c = Inr k" for k
    using that assms(1) by simp
  show "cfg_os c \<in> {''ios'', ''visionos'', ''watchos'', ''tvos''} \<longleftrightarrow> b = BkAppleOther"
    using ok by (intro iff chosen_backend(1)) blast+
  show "cfg_windows c \<and> cfg_vendor c = ''win7'' \<longleftrightarrow> b = BkWindowsLegacy \<and> \<not> texts_hidden c b"
    using ok unfolding texts_hidden_def by blast
  show "cfg_wasm_js c \<and> cfg_backend c = Some ''wasm_js'' \<longleftrightarrow> b = BkWasmJs \<and> \<not> texts_hidden c b"
    using same [OF explicit_backend(3)] chosen_backend(5) [of c] assms(1) unfolding texts_hidden_def by blast
  show "cfg_os c = ''vxworks'' \<longleftrightarrow> b = BkVxworks"
    using ok by (intro iff chosen_backend(2)) blast+
  show "cfg_backend c = Some ''rdrand'' \<or> cfg_arch c = ''x86_64'' \<and> cfg_env c = ''sgx'' \<longleftrightarrow> b = BkRdrand"
    using ok same [OF explicit_backend(1)] by (intro iff chosen_backend(4)) blast+
  show "cfg_backend c = Some ''rndr'' \<longleftrightarrow> b = BkRndr"
    using same [OF explicit_backend(2)] by (intro iff chosen_backend(3)) blast+
qed

text \<open>C26: Error texts.  For the backend selected for a configuration, the text function compiles unless it names a
  constant of a backend that the target would have had but that was overridden, as with a custom backend on iOS, VxWorks or SGX.  When
  it compiles, it gives exactly the three general errors and the selected backend's own errors their texts, each constant the one that names
  its cause, and every other error none; but for three cases in which the backend's own errors print as unknown: the legacy Windows backend on
  a target that is not Windows 7, where the build script selects it for old compilers; the web backend when the feature alone selects
  it, the default since this version; and the backend for UEFI, for whose errors there is no arm.\<close>

theorem own_errors_described:
  assumes "backend_for c = Inr b"
  shows "case compiled_desc c b of
      Inl name \<Rightarrow> desc_broken c b
    | Inr desc \<Rightarrow> \<not> desc_broken c b \<and>
        desc = map_of (general_texts @ (if texts_hidden c b then [] else own_texts b))"
proof -
  let ?bad = "\<lambda>(name, text). declared b name = None"
  have compiled: "compiled_desc c b = (case find ?bad (desc_arms c) of
      Some (name, _) \<Rightarrow> Inl name | None \<Rightarrow> Inr (first_arm (general_consts @ backend_consts b) (desc_arms c)))"
    by (simp add: compiled_desc_def declared_def Let_def)
  show ?thesis
  proof (cases "find ?bad (desc_arms c)")
    case None
    then have ok: "\<not> desc_broken c b"
      using arms_undeclared [OF assms] by (auto simp: find_None_iff)
    have hidden: "texts_hidden c b \<Longrightarrow> b \<in> {BkWindowsLegacy, BkWasmJs}"
      by (auto simp: texts_hidden_def)
    have "first_arm (general_consts @ backend_consts b) (desc_arms c) e =
        map_of (general_texts @ (if texts_hidden c b then [] else own_texts b)) e" for e
      using hidden unfolding desc_arms_def arms_of_choice [OF assms ok]
      by (cases b) (auto simp: general_texts_def general_consts_def backend_consts_def own_consts)
    then show ?thesis
      using None ok unfolding compiled by (auto simp only: option.case sum.case)
  next
    case (Some arm)
    then have "arm \<in> set (desc_arms c)" "?bad arm"
      using find_SomeD [OF Some] by simp_all
    then have "desc_broken c b"
      using arms_undeclared [OF assms] by blast
    then show ?thesis
      using Some unfolding compiled by (simp split: prod.split)
  qed
qed

definition cfg_rdrand :: cfg where
  "cfg_rdrand = \<lparr>cfg_backend = Some ''rdrand'', cfg_wasm_js = False, cfg_windows = False, cfg_arch = ''x86_64'', cfg_os = ''linux'',
     cfg_env = [], cfg_vendor = []\<rparr>"

definition cfg_web :: cfg where
  "cfg_web = \<lparr>cfg_backend = None, cfg_wasm_js = True, cfg_windows = False, cfg_arch = ''wasm32'', cfg_os = ''unknown'',
     cfg_env = [], cfg_vendor = []\<rparr>"

lemma cfg_choices:
  "backend_for cfg_rdrand = Inr BkRdrand" "\<not> desc_broken cfg_rdrand BkRdrand" "\<not> texts_hidden cfg_rdrand BkRdrand"
  "backend_for cfg_web = Inr BkWasmJs" "\<not> desc_broken cfg_web BkWasmJs" "texts_hidden cfg_web BkWasmJs"
  by (simp_all add: cfg_rdrand_def cfg_web_def backend_for_def target_backend_def may_lack_getrandom_def desc_broken_def texts_hidden_def)

theorem own_errors_described_witness:
  "(case compiled_desc cfg_rdrand BkRdrand of Inl _ \<Rightarrow> False | Inr desc \<Rightarrow>
      desc FAILED_RDRAND = Some ''RDRAND: failed multiple times: CPU issue likely'' \<and>
      desc NO_RDRAND = Some ''RDRAND: instruction not supported'') \<and>
   (case compiled_desc cfg_web BkWasmJs of Inl _ \<Rightarrow> False | Inr desc \<Rightarrow> desc WEB_CRYPTO = None)"
  using own_errors_described [OF cfg_choices(1)] own_errors_described [OF cfg_choices(4)] cfg_choices(2,3,5,6)
  by (simp add: general_texts_def own_consts split: sum.splits)

section \<open>The build script\<close>

text \<open>
  The environment of the script; a variable that is not set, or not Unicode where the script
  asks for that, is \<open>None\<close>.  \<open>run\<close> runs a program with arguments: whether it succeeded and its
  output, or nothing when it cannot be started.
\<close>

record build_env =
  be_sanitize :: "string option"
  be_family :: "string option"
  be_rustc :: "string option"
  be_wrapper :: "string option"

type_synonym command = "string \<Rightarrow> string list \<Rightarrow> (bool \<times> string) option"

definition rustc_command :: "build_env \<Rightarrow> string \<times> string list" where
  "rustc_command env = (let rustc = (case be_rustc env of None \<Rightarrow> ''rustc'' | Some r \<Rightarrow> r) in
     case be_wrapper env of
       Some w \<Rightarrow> if w \<noteq> [] then (w, [rustc]) else (rustc, [])
     | None \<Rightarrow> (rustc, []))"

definition minor_of_version :: "string \<Rightarrow> nat option" where
  "minor_of_version stdout = (case text_lines stdout of
       [] \<Rightarrow> None
     | first_line # _ \<Rightarrow> (case split_on (CHR ''.'') first_line of _ # minor # _ \<Rightarrow> parse_u64 minor | _ \<Rightarrow> None))"

definition rustc_minor_version :: "build_env \<Rightarrow> command \<Rightarrow> nat option" where
  "rustc_minor_version env run = (case rustc_command env of (prog, args) \<Rightarrow>
     (case run prog (args @ [''-vV'']) of
        None \<Rightarrow> None
      | Some (success, stdout) \<Rightarrow>
          if \<not> success then None
          else if \<not> utf8_valid stdout then None
          else minor_of_version stdout))"

fun str_contains :: "string \<Rightarrow> string \<Rightarrow> bool" where
  "str_contains pat [] = (pat = [])"
| "str_contains pat (c # s) = (take (length pat) (c # s) = pat \<or> str_contains pat s)"

definition LEGACY_LINE :: string where
  "LEGACY_LINE = ''cargo:rustc-cfg=getrandom_backend='' @ [CHR 0x22] @ ''windows_legacy'' @ [CHR 0x22]"

text \<open>The lines the script prints for the build tool.\<close>

definition build_main :: "build_env \<Rightarrow> command \<Rightarrow> string list" where
  "build_main env run =
     [''cargo:rerun-if-changed=build.rs''] @
     (if str_contains ''memory'' (case be_sanitize env of None \<Rightarrow> [] | Some s \<Rightarrow> s)
      then [''cargo:rustc-cfg=getrandom_msan''] else []) @
     (if be_family env = Some ''windows'' then
        (case rustc_minor_version env run of
           Some minor_ver \<Rightarrow> if minor_ver < 78 then [LEGACY_LINE] else []
         | None \<Rightarrow> [''cargo:warning=Couldn't detect minor version of the Rust compiler''])
      else [])"

text \<open>
  The configuration that is compiled: a second value for the flag joins the one of the user,
  and the cascade of \<open>backends.rs\<close> takes the first it knows.
\<close>

definition built_cfg :: "cfg \<Rightarrow> string list \<Rightarrow> cfg" where
  "built_cfg c printed =
     (if LEGACY_LINE \<in> set printed \<and> cfg_backend c \<notin> Some ` {''custom'', ''linux_getrandom'', ''linux_raw'', ''rdrand'', ''rndr'', ''efi_rng''}
      then c\<lparr>cfg_backend := Some ''windows_legacy''\<rparr> else c)"

text \<open>The output of a compiler: its version line, which goes on as it likes.\<close>

definition version_text :: "nat \<Rightarrow> string \<Rightarrow> string" where
  "version_text minor rest = ''rustc 1.'' @ show_nat minor @ CHR ''.'' # rest"

lemma split_on_append: "c \<notin> set w \<Longrightarrow> split_on c (w @ s) = (w @ hd (split_on c s)) # tl (split_on c s)"
  by (induction w) (auto simp: neq_Nil_conv split: list.split)

lemma strip_cr_append: "w \<noteq> [] \<Longrightarrow> last w \<noteq> CR \<Longrightarrow> \<exists>l. strip_cr (w @ s) = w @ l"
  by (cases "s = []") (auto simp: strip_cr_def butlast_append)

lemma text_lines_first:
  assumes "LF \<notin> set w" "w \<noteq> []" "last w \<noteq> CR"
  shows "\<exists>l ls. text_lines (w @ s) = (w @ l) # ls"
proof -
  obtain h t where ps: "split_on LF (w @ s) = (w @ h) # t"
    using split_on_append [OF assms(1), of s] by blast
  then show ?thesis
    using strip_cr_append [OF assms(2,3), of h] assms(2) by (auto simp: text_lines_def Let_def)
qed

lemma minor_of_version_text: "minor < 2 ^ 64 \<Longrightarrow> minor_of_version (version_text minor rest) = Some minor"
proof -
  assume small: "minor < 2 ^ 64"
  let ?w = "''rustc 1.'' @ show_nat minor @ [CHR ''.'']"
  have digits: "LF \<notin> set (show_nat minor)" "CHR ''.'' \<notin> set (show_nat minor)"
    by (simp_all add: show_nat_no_sep ascii_defs LF_def)
  then have "LF \<notin> set ?w" by (auto simp: LF_def)
  moreover have "last ?w \<noteq> CR" by (simp add: CR_def)
  ultimately obtain l ls where first: "text_lines (version_text minor rest) = (?w @ l) # ls"
    using text_lines_first [of ?w rest] by (auto simp: version_text_def)
  have "split_on (CHR ''.'') (?w @ l) = ''rustc 1'' # show_nat minor # split_on (CHR ''.'') l"
    using split_on_Cons_sep [of "CHR ''.''" "''rustc 1''" "show_nat minor @ CHR ''.'' # l"] split_on_Cons_sep [OF digits(2), of l] by simp
  then show ?thesis
    using parse_show_nat [OF small] by (simp add: minor_of_version_def first)
qed

text \<open>The script chooses the backend on Windows.  When the compiler reports a version, it is read off the first line, and a Windows target
  for which nothing was chosen gets the legacy backend exactly when the compiler is older than 1.78 or the target is Windows 7.
  A choice made by the flag stands but for two: with an old compiler the legacy backend also replaces the web and the unsupported
  one, although the flag is said to override the source on every target.\<close>

theorem build_picks_windows:
  assumes "rustc_command env = (prog, args)" "run prog (args @ [''-vV'']) = Some (True, version_text minor rest)"
    and "utf8_valid (version_text minor rest)" "minor < 2 ^ 64" "be_family env = Some ''windows''"
    and "cfg_windows c" "cfg_os c = ''windows''" "cfg_arch c \<noteq> ''wasm32''"
  shows "(cfg_backend c = None \<longrightarrow>
      backend_for (built_cfg c (build_main env run)) = Inr (if minor < 78 \<or> cfg_vendor c = ''win7'' then BkWindowsLegacy else BkWindows)) \<and>
    (cfg_backend c \<in> Some ` {''custom'', ''linux_getrandom'', ''linux_raw'', ''rdrand'', ''rndr'', ''efi_rng''} \<longrightarrow>
      built_cfg c (build_main env run) = c) \<and>
    (cfg_backend c = Some ''unsupported'' \<longrightarrow>
      backend_for (built_cfg c (build_main env run)) = Inr (if minor < 78 then BkWindowsLegacy else BkUnsupported))"
proof -
  have "rustc_minor_version env run = Some minor"
    using assms(1-4) by (simp add: rustc_minor_version_def minor_of_version_text)
  then have printed: "LEGACY_LINE \<in> set (build_main env run) \<longleftrightarrow> minor < 78"
    using assms(5) by (auto simp: build_main_def LEGACY_LINE_def split: if_splits)
  show ?thesis
    using assms(6-8) unfolding built_cfg_def printed
    by (auto simp: backend_for_def target_backend_def may_lack_getrandom_def)
qed

theorem build_picks_windows_witness:
  "backend_for (built_cfg \<lparr>cfg_backend = None, cfg_wasm_js = False, cfg_windows = True, cfg_arch = ''x86_64'', cfg_os = ''windows'',
       cfg_env = ''msvc'', cfg_vendor = ''pc''\<rparr>
     (build_main \<lparr>be_sanitize = None, be_family = Some ''windows'', be_rustc = None, be_wrapper = None\<rparr>
       (\<lambda>prog args. if prog = ''rustc'' then Some (True, version_text 77 ''0 (stable)'') else None))) = Inr BkWindowsLegacy"
proof -
  let ?env = "\<lparr>be_sanitize = None, be_family = Some ''windows'', be_rustc = None, be_wrapper = None\<rparr>"
  let ?run = "\<lambda>prog args. if prog = ''rustc'' then Some (True, version_text 77 ''0 (stable)'') else None"
  have "rustc_command ?env = (''rustc'', [])" by (simp add: rustc_command_def)
  moreover have "utf8_valid (version_text 77 ''0 (stable)'')" by code_simp
  ultimately show ?thesis
    using build_picks_windows [of ?env "''rustc''" "[]" ?run 77 "''0 (stable)''"
      "\<lparr>cfg_backend = None, cfg_wasm_js = False, cfg_windows = True, cfg_arch = ''x86_64'', cfg_os = ''windows'', cfg_env = ''msvc'', cfg_vendor = ''pc''\<rparr>"]
    by simp
qed

section \<open>What compiles\<close>

text \<open>
  The checks a backend makes of its target when it is compiled; \<open>feature\<close> says that the
  compiler may use the instruction of \<open>rdrand\<close>.
\<close>

definition target_guard :: "bool \<Rightarrow> cfg \<Rightarrow> backend_choice \<Rightarrow> bool" where
  "target_guard feature c b = (case b of
       BkEfiRng \<Rightarrow> cfg_os c = ''uefi''
     | BkLinuxRaw \<Rightarrow> cfg_os c = ''android'' \<or> cfg_os c = ''linux''
     | BkRdrand \<Rightarrow> (cfg_arch c = ''x86_64'' \<or> cfg_arch c = ''x86'') \<and> (cfg_env c = ''sgx'' \<longrightarrow> feature)
     | BkRndr \<Rightarrow> cfg_arch c = ''aarch64''
     | BkWasmJs \<Rightarrow> cfg_arch c = ''wasm32'' \<and> (cfg_os c = ''unknown'' \<or> cfg_os c = ''none'')
     | BkWindowsLegacy \<Rightarrow> cfg_windows c
     | _ \<Rightarrow> True)"

text \<open>The function of the C library that has the error number (\<open>util_libc.rs\<close>), and the backends that include the file.\<close>

definition errno_symbol :: "cfg \<Rightarrow> string option" where
  "errno_symbol c = (let os = cfg_os c in
     if os = ''vxworks'' then Some ''errnoGet''
     else if os \<in> {''netbsd'', ''openbsd'', ''android'', ''cygwin''} then Some ''__errno''
     else if os \<in> {''linux'', ''emscripten'', ''hurd'', ''redox'', ''dragonfly''} then Some ''__errno_location''
     else if os \<in> {''solaris'', ''illumos''} then Some ''___errno''
     else if os \<in> {''macos'', ''freebsd''} then Some ''__error''
     else if os = ''haiku'' then Some ''_errnop''
     else if os = ''nto'' then Some ''__get_errno_ptr''
     else if os = ''horizon'' \<and> cfg_arch c = ''arm'' \<or> os = ''vita'' then Some ''__errno''
     else if os = ''aix'' then Some ''_Errno''
     else None)"

definition uses_errno :: "backend_choice \<Rightarrow> bool" where
  "uses_errno b \<longleftrightarrow> b \<in> {BkGetrandom, BkUseFile, BkGetentropy, BkLinuxAndroidWithFallback, BkSolaris, BkNetbsd, BkVxworks}"

text \<open>
  The system call of \<open>linux_raw.rs\<close>: the instruction, the register and number of the call, the
  registers of the buffer, its length and the flags, the register of the result.  On 32-bit
  pointers \<open>x86_64\<close> adds the bit of its other table.
\<close>

record syscall_abi =
  sa_instr :: string
  sa_nr_reg :: string
  sa_nr :: nat
  sa_args :: "string list"
  sa_ret :: string

definition getrandom_abi :: "string \<Rightarrow> nat \<Rightarrow> syscall_abi option" where
  "getrandom_abi arch pointer_width =
     (let abi = (\<lambda>i r n as t. Some \<lparr>sa_instr = i, sa_nr_reg = r, sa_nr = n, sa_args = as, sa_ret = t\<rparr>) in
      if arch = ''arm'' then abi ''svc 0'' ''r7'' 384 [''r0'', ''r1'', ''r2''] ''r0''
      else if arch = ''aarch64'' then abi ''svc 0'' ''x8'' 278 [''x0'', ''x1'', ''x2''] ''x0''
      else if arch = ''loongarch64'' then abi ''syscall 0'' ''$a7'' 278 [''$a0'', ''$a1'', ''$a2''] ''$a0''
      else if arch = ''riscv32'' \<or> arch = ''riscv64'' then abi ''ecall'' ''a7'' 278 [''a0'', ''a1'', ''a2''] ''a0''
      else if arch = ''s390x'' then abi ''svc 0'' ''r1'' 349 [''r2'', ''r3'', ''r4''] ''r2''
      else if arch = ''x86'' then abi ''int $$0x80'' ''eax'' 355 [''ebx'', ''ecx'', ''edx''] ''eax''
      else if arch = ''x86_64'' then
        abi ''syscall'' ''rax'' ((if pointer_width = 32 then 0x40000000 else 0) + 318) [''rdi'', ''rsi'', ''rdx''] ''rax''
      else None)"

lemma getrandom_abi_registers:
  "case getrandom_abi arch w of None \<Rightarrow> True
    | Some a \<Rightarrow> distinct (sa_nr_reg a # sa_args a) \<and> length (sa_args a) = 3 \<and> sa_ret a \<in> {sa_nr_reg a, hd (sa_args a)}"
  unfolding getrandom_abi_def Let_def by simp

definition backend_compiles :: "bool \<Rightarrow> nat \<Rightarrow> cfg \<Rightarrow> backend_choice \<Rightarrow> bool" where
  "backend_compiles feature pointer_width c b \<longleftrightarrow> target_guard feature c b \<and> (uses_errno b \<longrightarrow> errno_symbol c \<noteq> None) \<and>
     (b = BkLinuxRaw \<longrightarrow> getrandom_abi (cfg_arch c) pointer_width \<noteq> None)"

lemma default_os:
  assumes "cfg_backend c = None"
  shows "backend_for c = Inr b \<Longrightarrow> b = BkLinuxRaw \<Longrightarrow> cfg_os c = ''linux''"
    and "backend_for c = Inr b \<Longrightarrow> b = BkUseFile \<Longrightarrow> cfg_os c \<in> {''haiku'', ''redox'', ''nto'', ''aix''}"
    and "backend_for c = Inr b \<Longrightarrow> b = BkGetentropy \<Longrightarrow> cfg_os c \<in> {''macos'', ''openbsd'', ''vita'', ''emscripten''}"
    and "backend_for c = Inr b \<Longrightarrow> b = BkLinuxAndroidWithFallback \<Longrightarrow> cfg_os c \<in> {''android'', ''linux''}"
    and "backend_for c = Inr b \<Longrightarrow> b = BkGetrandom \<Longrightarrow>
      cfg_os c \<in> {''android'', ''linux'', ''dragonfly'', ''freebsd'', ''hurd'', ''illumos'', ''cygwin''} \<or> cfg_os c = ''horizon'' \<and> cfg_arch c = ''arm''"
    and "backend_for c = Inr b \<Longrightarrow> b = BkSolaris \<Longrightarrow> cfg_os c = ''solaris''"
    and "backend_for c = Inr b \<Longrightarrow> b = BkNetbsd \<Longrightarrow> cfg_os c = ''netbsd''"
    and "backend_for c = Inr b \<Longrightarrow> b = BkWindowsLegacy \<Longrightarrow> cfg_windows c"
    and "backend_for c = Inr b \<Longrightarrow> b = BkWasmJs \<Longrightarrow> cfg_arch c = ''wasm32'' \<and> (cfg_os c = ''unknown'' \<or> cfg_os c = ''none'')"
    and "backend_for c = Inr b \<Longrightarrow> b = BkRdrand \<Longrightarrow> cfg_arch c = ''x86_64'' \<and> cfg_env c = ''sgx''"
    and "backend_for c = Inr b \<Longrightarrow> b \<noteq> BkRndr \<and> b \<noteq> BkEfiRng"
  using assms unfolding backend_for_def target_backend_def wasi_backend_def may_lack_getrandom_def
  by (simp_all split: if_splits) blast

text \<open>The default choice.  For every target for which no backend is asked for, the one the cascade selects compiles there, its own checks
  and the access to the error number included, with two exceptions: Linux without a C library on a processor whose system call is not
  written down, and SGX without the instruction.\<close>

theorem default_choice_compiles:
  assumes "cfg_backend c = None" "backend_for c = Inr b"
  shows "backend_compiles feature w c b \<longleftrightarrow>
    (b = BkLinuxRaw \<longrightarrow> cfg_arch c \<in> {''arm'', ''aarch64'', ''loongarch64'', ''riscv32'', ''riscv64'', ''s390x'', ''x86'', ''x86_64''}) \<and>
    (b = BkRdrand \<longrightarrow> feature)"
proof -
  have abi: "getrandom_abi (cfg_arch c) w \<noteq> None \<longleftrightarrow>
      cfg_arch c \<in> {''arm'', ''aarch64'', ''loongarch64'', ''riscv32'', ''riscv64'', ''s390x'', ''x86'', ''x86_64''}"
    by (simp add: getrandom_abi_def Let_def)
  note os = default_os [OF assms(1) assms(2)] chosen_backend(2) [of c]
  have errno: "uses_errno b \<Longrightarrow> errno_symbol c \<noteq> None"
    using os assms(2) unfolding uses_errno_def errno_symbol_def Let_def by (cases b) (elim insertE disjE conjE; simp)+
  show ?thesis
    using os errno unfolding backend_compiles_def abi target_guard_def by (cases b) auto
qed

end
