(* ===== verification/Messages.thy ===== *)
theory Messages
  imports Faults LogTheorems
begin

text \<open>
  The texts of the errors of the host's parsers and checks (\<open>hostgen.rs\<close>, \<open>schema.rs\<close>) and of
  the journal (\<open>log.rs\<close>), with the hash in which a refusal names the two surfaces.  The digest
  function is a parameter, and so are the quoted form of a string, the text of an error of the
  system and that of an error of parsing a number.  Texts are UTF-8 bytes.
\<close>

section \<open>The hash of a surface\<close>

definition hex_digit :: "nat \<Rightarrow> char" where
  "hex_digit n = (if n < 10 then char_of (48 + n) else char_of (87 + n))"

text \<open>The format \<open>{b:02x}\<close>.\<close>

definition hex_byte :: "u8 \<Rightarrow> string" where
  "hex_byte b = [hex_digit (unat b div 16), hex_digit (unat b mod 16)]"

definition schema_hash :: "(string \<Rightarrow> bytes) \<Rightarrow> string \<Rightarrow> string" where
  "schema_hash sha256 surface = concat (map hex_byte (sha256 surface))"

section \<open>Refusals\<close>

definition ellipsis :: string where
  "ellipsis = [CHR 0xE2, CHR 0x80, CHR 0xA6]"

fun verify_detail :: "skew_detail \<Rightarrow> string" where
  "verify_detail (MissingExport f n) = ''guest missing export `'' @ f @ ''` (expected arity '' @ show_nat n @ '')''"
| "verify_detail (ArityMismatch f n m) =
     ''`'' @ f @ ''` '' @ em_dash @ '' expected arity '' @ show_nat n @ '', guest arity '' @ show_nat m"
| "verify_detail Vacuous = []"

fun contract_detail :: "skew_detail \<Rightarrow> string" where
  "contract_detail (ArityMismatch f n m) =
     ''`'' @ f @ ''` '' @ em_dash @ '' snapshot arity '' @ show_nat n @ '', contract arity '' @ show_nat m"
| "contract_detail Vacuous =
     ''the snapshot'' @ [CHR 0x27] @ ''s schema surface covers none of the contract fns '' @ em_dash @ '' vacuous validation refused''"
| "contract_detail (MissingExport f n) = []"

text \<open>The layout the two refusals share: a first line, the two surfaces with their hashes, the first difference.\<close>

definition refusal :: "(string \<Rightarrow> bytes) \<Rightarrow> string \<Rightarrow> string \<Rightarrow> string \<Rightarrow> string \<Rightarrow> string \<Rightarrow> string" where
  "refusal sha256 first side expected actual detail =
     first @ [LF] @ ''  expected sha256:'' @ schema_hash sha256 expected @ '' ('' @ expected @ '')'' @
     [LF] @ ''  '' @ side @ '' sha256:'' @ schema_hash sha256 actual @ '' ('' @ actual @ '')'' @
     [LF] @ ''  first difference: '' @ detail"

definition schema_skew_display :: "(string \<Rightarrow> bytes) \<Rightarrow> schema_skew \<Rightarrow> string" where
  "schema_skew_display sha256 s = refusal sha256
     (''schema skew: refusing to start '' @ em_dash @ '' the guest component'' @ [CHR 0x27] @ ''s export surface diverges from the host'' @
      [CHR 0x27] @ ''s committed expectation'')
     ''guest   '' (sk_expected s) (sk_actual s) (verify_detail (sk_detail s))"

definition contract_skew_display :: "(string \<Rightarrow> bytes) \<Rightarrow> schema_skew \<Rightarrow> string" where
  "contract_skew_display sha256 s = refusal sha256
     (''hostgen contract skew: refusing '' @ em_dash @ '' the universe.snapshot'' @ [CHR 0x27] @ ''s generated surface diverges from the host'' @
      [CHR 0x27] @ ''s committed expectation'')
     ''snapshot'' (sk_expected s) (sk_actual s) (contract_detail (sk_detail s))"

text \<open>\<open>show_fault\<close> is the text of a fault of the third-party error crate.\<close>

fun start_error_display :: "(string \<Rightarrow> bytes) \<Rightarrow> (host_fault \<Rightarrow> string) \<Rightarrow> start_error \<Rightarrow> string" where
  "start_error_display sha256 show_fault (StartSkew s) = schema_skew_display sha256 s"
| "start_error_display sha256 show_fault (StartEngine e) = show_fault e"

section \<open>The parser of snapshots\<close>

fun snap_error_text :: "string \<Rightarrow> snap_error \<Rightarrow> string" where
  "snap_error_text int_error DepthExceeded = ''snapshot: parse depth exceeded (malformed nesting)''"
| "snap_error_text int_error (ExpectedOpen kw) = ''snapshot: expected '' @ [CHR 0x27] @ ''('' @ [CHR 0x27] @ '' after `'' @ kw @ ''`''"
| "snap_error_text int_error (ExpectedClose kw) = ''snapshot: expected '' @ [CHR 0x27] @ '')'' @ [CHR 0x27] @ '' after '' @
     (if kw = ''set'' then ''`set('' @ ellipsis @ ''`''
      else if kw = ''map'' then ''map'' @ [CHR 0x27] @ ''s value type''
      else if kw = ''result'' then ''result'' @ [CHR 0x27] @ ''s err type''
      else if kw = ''tensor'' then ''tensor''
      else ''`'' @ kw @ ''(`'')"
| "snap_error_text int_error (ExpectedComma kw) = ''snapshot: expected '' @ [CHR 0x27] @ '','' @ [CHR 0x27] @ '' between '' @
     (if kw = ''map'' then ''map'' @ [CHR 0x27] @ ''s key and value types'' else ''result'' @ [CHR 0x27] @ ''s types'')"
| "snap_error_text int_error (KeyNotScalar kw) =
     (if kw = ''set'' then ''snapshot: set element is not a scalar key type'' else ''snapshot: map key is not a scalar key type'')"
| "snap_error_text int_error NoCloseAfterRef = ''snapshot: expected '' @ [CHR 0x27] @ '')'' @ [CHR 0x27] @ '' after ty ref''"
| "snap_error_text int_error EmptyRef = ''snapshot: empty ty ref''"
| "snap_error_text int_error BadDim = ''snapshot: bad tensor dim: '' @ int_error"
| "snap_error_text int_error ExpectedSemicolon = ''snapshot: expected '' @ [CHR 0x27] @ '';'' @ [CHR 0x27] @ '' after tensor dim''"
| "snap_error_text int_error (UnknownToken kw) = ''snapshot: unknown type token `'' @ kw @ ''`''"
| "snap_error_text int_error (TrailingGarbage rest) = ''snapshot: trailing garbage `'' @ lossy rest @ ''`''"
| "snap_error_text int_error (BadNullSem s) =
     ''snapshot: unknown nullSem token `'' @ s @ ''` '' @ em_dash @ '' valid: strict, propagate, custom''"
| "snap_error_text int_error (BadDeterminism s) =
     ''snapshot: unknown determinism token `'' @ s @ ''` '' @ em_dash @ '' valid: pure, stable, volatile''"
| "snap_error_text int_error (NoRet n) = ''snapshot: func `'' @ n @ ''` has no `ret` line''"
| "snap_error_text int_error (Outside kind) = ''snapshot: `'' @ kind @ ''` outside a '' @
     (if kind = ''field'' then ''record'' else if kind = ''case'' then ''variant'' else ''func'')"
| "snap_error_text int_error ParamAfterRet = ''snapshot: `param` after `ret`''"
| "snap_error_text int_error DuplicateRet = ''snapshot: duplicate `ret`''"
| "snap_error_text int_error DuplicateSem = ''snapshot: duplicate `sem`''"
| "snap_error_text int_error SemBeforeRet = ''snapshot: `sem` before `ret`''"
| "snap_error_text int_error (UnrecognizedLine line) = ''snapshot: unrecognized line `'' @ line @ ''`''"

definition parse_error_display :: "string \<Rightarrow> parse_error \<Rightarrow> string" where
  "parse_error_display int_error e =
     ''snapshot: line '' @ show_nat (err_line e) @ '': '' @ snap_error_text int_error (err_message e)"

fun hostgen_error_display :: "(string \<Rightarrow> bytes) \<Rightarrow> string \<Rightarrow> hostgen_error \<Rightarrow> string" where
  "hostgen_error_display sha256 int_error (ParseFailed e) = parse_error_display int_error e"
| "hostgen_error_display sha256 int_error (SurfaceUnresolved n) = ''hostgen: named type `'' @ n @ ''` not found in the universe''"
| "hostgen_error_display sha256 int_error (ContractSkew s) = contract_skew_display sha256 s"

section \<open>The journal\<close>

fun delta_error_display :: "(io_error \<Rightarrow> string) \<Rightarrow> (rstr \<Rightarrow> string) \<Rightarrow> delta_error \<Rightarrow> string" where
  "delta_error_display show_io quoted (Io e) = ''io: '' @ show_io e"
| "delta_error_display show_io quoted (UnknownTable t) = ''unknown table '' @ quoted t"
| "delta_error_display show_io quoted (SchemaMismatch t reason) = ''schema mismatch on '' @ quoted t @ '': '' @ reason"
| "delta_error_display show_io quoted (WrongVersion offset found) =
     ''journal record at '' @ show_nat offset @ '': version '' @ show_nat (unat found) @ '', expected '' @ show_nat (unat VERSION)"
| "delta_error_display show_io quoted (FingerprintMismatch offset) =
     ''journal record at '' @ show_nat offset @ '': schema fingerprint mismatch''"
| "delta_error_display show_io quoted (CorruptAt offset reason) =
     ''journal record at '' @ show_nat offset @ '': corrupt ('' @ reason @ '')''"

text \<open>\<open>Error::source\<close>: only an error of the system has one.\<close>

fun delta_error_source :: "delta_error \<Rightarrow> io_error option" where
  "delta_error_source (Io e) = Some e"
| "delta_error_source _ = None"

section \<open>What a refusal tells\<close>

lemma sep_unique:
  "x @ c # y = x' @ c # y' \<Longrightarrow> c \<notin> set x \<Longrightarrow> c \<notin> set x' \<Longrightarrow> x = x' \<and> y = y'"
proof (induction x arbitrary: x')
  case Nil
  then show ?case by (cases x') auto
next
  case (Cons a x)
  then show ?case by (cases x') auto
qed

lemma hex_digit_plain: "n < 16 \<Longrightarrow> hex_digit n \<noteq> LF"
proof -
  assume "n < 16"
  then have "of_char (hex_digit n) = (if n < 10 then 48 + n else 87 + n)"
    by (simp add: hex_digit_def of_char_of)
  moreover have "of_char LF = (10 :: nat)" by (simp add: LF_def)
  ultimately show "hex_digit n \<noteq> LF" by (auto split: if_splits)
qed

lemma schema_hash_plain: "LF \<notin> set (schema_hash sha256 s)"
proof -
  have "unat b < 256" for b :: u8
    by (rule order.strict_trans2 [OF unsigned_less]) simp
  then have "unat b div 16 < 16" for b :: u8 by (simp add: less_mult_imp_div_less)
  then have "LF \<notin> set (hex_byte b)" for b
    using hex_digit_plain [of "unat b div 16"] hex_digit_plain [of "unat b mod 16"] by (auto simp: hex_byte_def)
  then show ?thesis by (simp add: schema_hash_def)
qed

lemma length_schema_hash: "length (schema_hash sha256 s) = 2 * length (sha256 s)"
proof -
  have "length (concat (map hex_byte bs)) = 2 * length bs" for bs
    by (induction bs) (simp_all add: hex_byte_def)
  then show ?thesis by (simp add: schema_hash_def)
qed

text \<open>A surface with its hash in front.\<close>

lemma hashed_unique:
  assumes "schema_hash sha256 x @ a @ x @ b = schema_hash sha256 y @ a @ y @ b" "\<And>s. length (sha256 s) = 32"
  shows "x = y"
  using assms(1) length_schema_hash [of sha256 x] length_schema_hash [of sha256 y] by (simp add: assms(2))

lemma refusal_unique:
  assumes "refusal sha256 first side e a d = refusal sha256 first side e' a' d'" "\<And>s. length (sha256 s) = 32"
    and "LF \<notin> set first" "LF \<notin> set side" "LF \<notin> set (e @ a @ e' @ a')"
  shows "e = e' \<and> a = a' \<and> d = d'"
proof -
  let ?l1 = "\<lambda>e. ''  expected sha256:'' @ schema_hash sha256 e @ '' ('' @ e @ '')''"
  let ?l2 = "\<lambda>a. ''  '' @ side @ '' sha256:'' @ schema_hash sha256 a @ '' ('' @ a @ '')''"
  let ?l3 = "\<lambda>d. ''  first difference: '' @ d"
  have plain: "LF \<notin> set (?l1 e)" "LF \<notin> set (?l1 e')" "LF \<notin> set (?l2 a)" "LF \<notin> set (?l2 a')"
    using assms(4,5) schema_hash_plain by (auto simp: LF_def)
  have "first @ LF # ?l1 e @ LF # ?l2 a @ LF # ?l3 d = first @ LF # ?l1 e' @ LF # ?l2 a' @ LF # ?l3 d'"
    using assms(1) by (simp add: refusal_def)
  then have "?l1 e @ LF # (?l2 a @ LF # ?l3 d) = ?l1 e' @ LF # (?l2 a' @ LF # ?l3 d')"
    by (simp only: append_eq_append_conv list.inject simp_thms)
  from sep_unique [OF this plain(1,2)]
  have 1: "?l1 e = ?l1 e'" and "?l2 a @ LF # ?l3 d = ?l2 a' @ LF # ?l3 d'" by blast+
  from sep_unique [OF this(2) plain(3,4)]
  have 2: "?l2 a = ?l2 a'" and 3: "?l3 d = ?l3 d'" by blast+
  show ?thesis
    using hashed_unique [of sha256 e "'' (''" "'')''" e', OF _ assms(2)] hashed_unique [of sha256 a "'' (''" "'')''" a', OF _ assms(2)] 1 2 3
    by simp
qed

text \<open>A refusal tells what happened: two refusals of a start with the same text have the same two surfaces and the same first difference, and
  so do two refusals of the startup gate, whatever the digest function collides on; surfaces have no line breaks.\<close>

theorem refusal_readable:
  assumes "\<And>s. length (sha256 s) = 32" "LF \<notin> set (sk_expected s @ sk_actual s @ sk_expected t @ sk_actual t)"
  shows "(schema_skew_display sha256 s = schema_skew_display sha256 t \<longrightarrow>
      sk_expected s = sk_expected t \<and> sk_actual s = sk_actual t \<and> verify_detail (sk_detail s) = verify_detail (sk_detail t)) \<and>
    (contract_skew_display sha256 s = contract_skew_display sha256 t \<longrightarrow>
      sk_expected s = sk_expected t \<and> sk_actual s = sk_actual t \<and> contract_detail (sk_detail s) = contract_detail (sk_detail t))"
proof (intro conjI impI)
  assume "schema_skew_display sha256 s = schema_skew_display sha256 t"
  from refusal_unique [OF this [unfolded schema_skew_display_def] assms(1)]
  show "sk_expected s = sk_expected t" "sk_actual s = sk_actual t" "verify_detail (sk_detail s) = verify_detail (sk_detail t)"
    using assms(2) by (simp_all add: em_dash_def LF_def)
next
  assume "contract_skew_display sha256 s = contract_skew_display sha256 t"
  from refusal_unique [OF this [unfolded contract_skew_display_def] assms(1)]
  show "sk_expected s = sk_expected t" "sk_actual s = sk_actual t" "contract_detail (sk_detail s) = contract_detail (sk_detail t)"
    using assms(2) by (simp_all add: em_dash_def LF_def)
qed

end
