(* ===== verification/Spec2Isabelle.thy ===== *)
theory Spec2Isabelle
  imports RuntimeTheorems InterpreterTheorems Generators Guest LogTheorems WireTheorems HostTheorems MachineTheorems
    OracleTheorems ReplayTheorems DriverTheorems CertificateTheorems Faults FdProtocol Mirror
    WarmStart RandomEntry Messages
begin

text \<open>
  A verification library for the guestlang toolchain: a schema registry written in Lean
  emits a universe snapshot, Rust modules and WebAssembly components; Rust crates generate,
  store and check the artifacts, run the components, compare them with an oracle and keep
  tables in an append-only journal.  The library models the Rust side and of the Lean side what
  the Rust side must invert or mirror: the snapshot writer, the codec, the certificates.

  The parts and how they meet.

  \<^item> The journal (\<open>crates/wasm-delta\<close>).  \<open>Codec\<close>, \<open>Values\<close>, \<open>Rows\<close>, \<open>Deltas\<close> and \<open>Journal\<close> are
    \<open>codec.rs\<close>, \<open>value.rs\<close>, \<open>row.rs\<close>, \<open>delta.rs\<close> and the record format of \<open>log.rs\<close>; \<open>Btree\<close> is
    the ordered map of the standard library.  \<open>Backends\<close> is the byte sink below the log: the
    trait is the record \<open>backend_ops\<close> and the two locales \<open>append_backend\<close> and
    \<open>truncating_backend\<close>, interpreted on the memory and the file implementation.  The file
    implementation satisfies the first only: after a truncation its cursor is past the end.
    \<open>DeltaLog\<close> is the log over any backend: recovery, append, prefix replay, rewind.
    \<open>WireTheorems\<close> and \<open>LogTheorems\<close> hold the properties: round trips, torn input against
    corrupt input, which prefix survives a crash at any byte, what an acknowledged append
    guarantees, that the materialized tables are always the replay of the entries.
    \<open>LeanCodec\<close> and \<open>Mirror\<close> are the Lean codec of \<open>SchemaLang/Codec.lean\<close>, \<open>CodecValue.lean\<close>
    and \<open>Trace.lean\<close>, with the contract \<open>lawful_codec\<close>, and the proof that the Rust codec is its mirror:
    the same bytes for every row, each side reads the other, and where the number decoders part.
  \<^item> The host contract (\<open>crates/guestlang-host\<close>).  \<open>Text\<close> is the string handling of the
    parsers, \<open>Snapshot\<close> the universe snapshot of \<open>hostgen.rs\<close> with the writer of
    \<open>SchemaLang/Snapshot.lean\<close>, \<open>Surface\<close> the surface strings and checks of \<open>schema.rs\<close> and
    \<open>hostgen.rs\<close>, \<open>Runtime\<close> the capabilities and the component runtime of \<open>lib.rs\<close> and
    \<open>runtime.rs\<close>.  \<open>HostTheorems\<close> and \<open>RuntimeTheorems\<close>: the parser inverts the writer and is
    gated and depth-bounded on every input, the checks accept exactly the agreeing surfaces,
    the startup gate on a printed snapshot is computed from the universe alone (\<open>startup_gate\<close>),
    what capabilities wire up, that a skewed guest is never touched, the slots of results, how long a runtime lives;
    \<open>host_op\<close> is everything a host does to a runtime, any use of its borrowed store included.
    \<open>Messages\<close> has the texts of the refusals, the parser and the journal, and what can be read off a refusal.
    The last section of this theory composes them, from the committed snapshot to a start.
  \<^item> The core interpreter (\<open>crates/guestlang-rt\<close>): \<open>Interpreter\<close> and \<open>InterpreterTheorems\<close>, calls
    with the fuel account and the snapshot of a memory with its restore.
  \<^item> The guest side (\<open>crates/guest-demo\<close>, \<open>crates/splicer-mw\<close>): \<open>Guest\<close>, the demo exports and the
    counting middleware, which refines the component it wraps.  \<open>WarmStart\<close> composes it with the
    runtime (\<open>examples/warm_start_event_log.rs\<close>): a router swaps the demo component for the
    middleware and replays the event log; its \<open>run_yields\<close> is the assertion that a run does not panic.
  \<^item> The generated modules (\<open>generated/rust\<close>).  \<open>Machines\<close>: the order lifecycle, its typestate
    and the driver's stages; \<open>Circuit\<close>: the stream circuits and their incremental form;
    \<open>Records\<close>: records, updates, invariants and changes; \<open>Generators\<close>: the value generators.
    \<open>MachineTheorems\<close>: typestate against machine, incremental against plain circuit, the
    feedback equation, ticks against invariants.  \<open>Certificates\<close> and \<open>CertificateTheorems\<close>: the
    committed registry of witness certificates with the Lean wire form, checker, generator and surface hash
    behind it (\<open>String.hash\<close> of Lean is written out), on \<open>LeanCodec\<close> and \<open>Snapshot\<close>; the registry is what the generator writes and the Rust codec reads.  \<open>Faults\<close>: the codes
    and texts of all fault registries and the application shell.
  \<^item> The oracle (\<open>crates/oracle-runner\<close> with \<open>oracle_mirror_generated.rs\<close>): \<open>Oracle\<close> and
    \<open>OracleTheorems\<close>, the comparison contract, verdicts as witnesses.  \<open>Replay\<close> and
    \<open>ReplayTheorems\<close>: the replay of a manifest on the component runtime, state threaded from
    row to row, with a clock that advances the engine's epoch between rows: when it exits
    cleanly, and that it fails once the epoch has moved.
  \<^item> The driver (\<open>crates/forge\<close>).  \<open>Json\<close> is the interface to JSON values, \<open>Oci\<close> the
    content-addressed store of \<open>oci.rs\<close>, \<open>Forge\<close> the driver of \<open>main.rs\<close>.  \<open>ForgeTheorems\<close> and
    \<open>DriverTheorems\<close>: what the header strip identifies, that what is stored verifies and that
    the index reopens to the store that wrote it, what the exit codes mean for the files.
  \<^item> The random numbers of the guest (\<open>patches/getrandom-0.3.4\<close>): \<open>Randomness\<close> and
    \<open>RandomTheorems\<close>, the preview 3 backend the repository adds to the crate, the choice of the
    backend, the entry points and the error codes: no undefined behaviour, no draw used twice.
    \<open>OsRandom\<close> and \<open>OsRandomTheorems\<close>: the backends of the other targets over the calls of their
    systems as parameters, and their contract, the locale \<open>backend\<close>: success means that every byte
    is written.  The C library of a target, its error numbers among it, is the record \<open>c_lib\<close>; the
    instruction of \<open>rdrand.rs\<close> draws 32 or 64 bits (\<open>rdrand_step\<close>).  \<open>FdProtocol\<close>: the threads that open the random device through one atomic and a
    futex, as a step relation with its invariant and its progress.  \<open>Uefi\<close>: the error codes and the
    backend for UEFI over its firmware, and \<open>backend_fill\<close>, which ties every choice of the cascade to its
    backend; all are safe below the entry points (\<open>every_backend_fills\<close>).  \<open>RandomEntry\<close>: the integer functions on the selected backend,
    which error texts a target compiles, the build script, and that the default choice compiles.

  Conventions.  A struct is a \<open>record\<close>, an enum a \<open>datatype\<close>, a machine integer a word of its
  width whose arithmetic wraps as in a release build, a fallible operation a sum with the
  error on the left, an operation on \<open>&mut self\<close> a function to the result and the new state.
  A Rust string is a list of scalar values in the journal and the records, and its UTF-8
  bytes where the code slices or scans it.  Floating-point numbers are bit patterns: no code
  here computes with them.  A file tree is a map from paths to contents with a set of paths
  whose writes are refused; an open file has a content, a cursor and failing system calls.

  Termination.  Every function is total but for these loops of \<open>OsRandom\<close>.  Loops over input consume it and have a measure;
  the type parser carries the source's depth bound \<open>MAX_TY_DEPTH\<close>, the decoders of
  certificates theirs, the length of the input (\<open>certificate_roundtrip\<close>: it is enough).  Loops that a system can keep
  going forever are \<open>partial_function\<close>s, with a condition under which they return (\<open>getrandom_delivers\<close>).
  The one use of fuel of the model is the memo of a feedback loop in \<open>Circuit\<close>: at tick \<open>n\<close> it runs with fuel \<open>n\<close>, and \<open>feedback_solves\<close>
  shows that this is enough, the result being the solution of the loop's equation at every tick.
  The fuel of the two runtimes is data of the program, not of the model.

  Parameters.  Code outside the repository is an argument: the component engine (\<open>wasmtime\<close>), the
  interpreter engine (\<open>wasmi\<close>), the JSON crate (\<open>json_ops\<close>, with the laws \<open>json_laws\<close>), the hash,
  subprocesses and the environment of the driver, the randomness source, the system calls below it, the Unicode table of
  upper-case letters, the text of floating-point numbers, the operations on a store the oracle
  drives concurrently (\<open>concurrent\<close>), the clock of a replay, the firmware.  What a theorem needs of them is a
  named hypothesis that states documented behaviour (\<open>epoch_law\<close>, \<open>stream_law\<close>,
  \<open>flags_ok\<close>, \<open>engine_laws\<close>, \<open>draws_ok\<close>, \<open>json_laws\<close>, \<open>os_law\<close>, \<open>device_law\<close>, \<open>firmware_law\<close>, \<open>serves\<close>, \<open>answers_by\<close>), and the main theorem of each has a
  witness on a concrete instance of the parameters.

  Not modelled.  Printed lines; the
  asynchronous runtime (a call is one step, a stream the list of its chunks); the inside of the
  engines; engine configuration, macro invocations and re-exports (\<open>engine.rs\<close>, \<open>valves.rs\<close>,
  \<open>bindings.rs\<close>), which have no logic of their own; the array-library tables (\<open>vortex_generated.rs\<close>,
  \<open>ext_dtypes_generated.rs\<close>), which no crate compiles; of \<open>patches/getrandom-0.3.4\<close> the memory
  checker hooks, which write nothing, results of type \<open>isize\<close> and firmware words other than of 64 bits,
  big-endian memory, the texts with the \<open>std\<close> feature,
  and the weak orderings of atomics: the steps on an atomic are taken one after the other; tests and golden copies;
  the Lean sources but for the snapshot writer, the certificates and the codec of
  the types the Rust crate has.
\<close>

section \<open>The contract across its parts\<close>

text \<open>C30: From the committed snapshot to a started guest.  Suppose the startup gate accepted the printed universe against the expectation, the
  guest exports the functions of that universe with their flat arities, and the expectation has one entry per name, all of them
  in the universe.  Then no version skew is possible: the checked start is the plain start of the engine.\<close>

theorem gate_then_start:
  assumes gate: "validate_committed up (render its) expected = Inr cov" "list_all item_ok its"
    and surf: "surface_entries up (universe_new its) = Inr es"
    and guest: "find_arity (surface_of (wt_exports wt c)) = find_arity es"
    and contract: "distinct (map fst (parse_surface expected))"
      "set (map fst (parse_surface expected)) \<subseteq> set (map fst es)"
  shows "instantiate_checked wt c expected st = (map_err StartEngine (fst (instantiate wt c st)), snd (instantiate wt c st))"
proof -
  have "check_contract es expected = Inr cov"
    using gate(1) parse_render [OF gate(2)] surf by (simp add: validate_committed_def map_err_eq_Inr and_then_eq_Inr)
  then have agree: "list_all (agrees (parse_surface expected)) es"
    unfolding check_contract_def Let_def and_then_eq_Inr contract_loop_ok by blast
  have "find_arity (surface_of (wt_exports wt c)) f = Some n" if want: "(f, n) \<in> set (parse_surface expected)" for f n
  proof -
    have "f \<in> fst ` set es"
      using want contract(2) by (metis fst_conv image_eqI in_mono list.set_map)
    then have "find_arity es f \<noteq> None"
      by (simp add: find_arity_None)
    then obtain m where m: "find_arity es f = Some m" by blast
    have "agrees (parse_surface expected) (f, m)"
      using agree find_arity_mem [OF m] by (auto simp: list_all_iff)
    then have "m = n"
      using find_arity_distinct [OF want contract(1)] by (simp add: agrees_def)
    then show ?thesis using m guest by simp
  qed
  then have "verify_surface (wt_exports wt c) expected = Inr ()"
    by (auto simp: verify_surface_def Let_def verify_loop_ok list_all_iff)
  then show ?thesis by (simp add: instantiate_checked_def split: prod.split)
qed

theorem gate_then_start_witness:
  "fst (instantiate_checked demo_engine () (render_surface [(''double'', 1)]) demo_start) = Inr ()"
proof -
  let ?its = "[IFunc ''double'' [(''x'', SU64)] SU64 None]"
  have k: "kebab (\<lambda>_. False) ''double'' = ''double''"
    by (simp add: kebab_def is_uppercase_def ascii_defs to_ascii_lower_def is_continuation_def char_of_def bit_0)
  then have e: "surface_entries (\<lambda>_. False) (universe_new ?its) = Inr [(''double'', 1)]"
    by (simp add: surface_entries_def universe_new_def flat_arity_def)
  have p: "parse_surface (render_surface [(''double'', 1)]) = [(''double'', 1)]"
    by (rule parse_render_surface) (simp add: surface_name_ok_def)
  have ok: "list_all item_ok ?its"
    by (simp add: member_ok_def name_ok_def ascii_defs)
  have "\<exists>cov. validate_committed (\<lambda>_. False) (render ?its) (render_surface [(''double'', 1)]) = Inr cov"
    using parse_render [OF ok] e p
    by (simp add: validate_committed_def map_err_simps check_contract_def find_arity_def)
  then obtain cov where cov: "validate_committed (\<lambda>_. False) (render ?its) (render_surface [(''double'', 1)]) = Inr cov" by blast
  show ?thesis
    using gate_then_start [OF cov ok e, of demo_engine "()" demo_start] p
    by (simp add: demo_engine_def demo_start_def surface_of_def List.map_filter_simps abi_flat_arity_def instantiate_def Let_def map_err_simps)
qed

end
